(* ===== verification/Treadmill_Prelude.thy ===== *)
theory Treadmill_Prelude
  imports Complex_Main "HOL-Library.Word"
begin

text \<open>
  Shared vocabulary of the development: the C++ integer types and their conversions, the ways in
  which the program can stop abnormally, sequencing of fallible computations, checked access to
  vectors, and a generic invariant rule for step relations.

  Unsigned integers are words (arithmetic wraps, as in C++). Signed integers are mathematical
  integers with the range written out: an operation whose exact result leaves the range is
  undefined behaviour in C++ and is the error \<open>Undefined Signed_overflow\<close> here; a conversion to a
  narrower signed type wraps (two's complement).
\<close>

section \<open>Integer types\<close>

type_synonym uint32 = "32 word"
type_synonym uint64 = "64 word"
type_synonym int32 = int
type_synonym int64 = int

abbreviation int32_min :: int where "int32_min \<equiv> - 2147483648"
abbreviation int32_max :: int where "int32_max \<equiv> 2147483647"
abbreviation int64_min :: int where "int64_min \<equiv> - 9223372036854775808"
abbreviation int64_max :: int where "int64_max \<equiv> 9223372036854775807"

definition in_int32 :: "int \<Rightarrow> bool" where
  "in_int32 x \<longleftrightarrow> int32_min \<le> x \<and> x \<le> int32_max"

definition in_int64 :: "int \<Rightarrow> bool" where
  "in_int64 x \<longleftrightarrow> int64_min \<le> x \<and> x \<le> int64_max"

definition to_int32 :: "int \<Rightarrow> int32" where
  "to_int32 x = (x + 2147483648) mod 4294967296 - 2147483648"

definition to_int64 :: "int \<Rightarrow> int64" where
  "to_int64 x = (x + 9223372036854775808) mod 18446744073709551616 - 9223372036854775808"

definition uint32_to_int32 :: "uint32 \<Rightarrow> int32" where
  "uint32_to_int32 w = to_int32 (uint w)"

definition int32_to_uint32 :: "int32 \<Rightarrow> uint32" where
  "int32_to_uint32 x = word_of_int x"

section \<open>Abnormal termination and sequencing\<close>

datatype ub = Signed_overflow | Out_of_bounds | Division_by_zero | Null_dereference | Float_to_int

datatype abort =
    Fatal string
  | Check_failed string
  | Undefined ub
  | Aborted
  | Thrown string

type_synonym 'a res = "abort + 'a"

definition res_bind :: "'a res \<Rightarrow> ('a \<Rightarrow> 'b res) \<Rightarrow> 'b res" where
  "res_bind m f = (case m of Inl e \<Rightarrow> Inl e | Inr x \<Rightarrow> f x)"

definition res_map :: "('a \<Rightarrow> 'b) \<Rightarrow> 'a res \<Rightarrow> 'b res" where
  "res_map f m = (case m of Inl e \<Rightarrow> Inl e | Inr x \<Rightarrow> Inr (f x))"

definition check_int64 :: "int \<Rightarrow> int64 res" where
  "check_int64 x = (if in_int64 x then Inr x else Inl (Undefined Signed_overflow))"

definition check_int32 :: "int \<Rightarrow> int32 res" where
  "check_int32 x = (if in_int32 x then Inr x else Inl (Undefined Signed_overflow))"

definition vec_at :: "'a list \<Rightarrow> nat \<Rightarrow> 'a res" where
  "vec_at xs i = (if i < length xs then Inr (xs ! i) else Inl (Undefined Out_of_bounds))"

definition deref :: "'a option \<Rightarrow> 'a res" where
  "deref p = (case p of None \<Rightarrow> Inl (Undefined Null_dereference) | Some x \<Rightarrow> Inr x)"

section \<open>Collections of facts\<close>

named_theorems int_range \<open>definitions of the integer ranges and conversions\<close>
named_theorems res_defs \<open>definitions of the fallible primitives\<close>

declare in_int32_def [int_range] in_int64_def [int_range]
  to_int32_def [int_range] to_int64_def [int_range]

declare check_int64_def [res_defs] check_int32_def [res_defs] vec_at_def [res_defs]
  deref_def [res_defs]

section \<open>Conversions\<close>

lemma to_int32_range: "in_int32 (to_int32 x)"
  by (simp add: int_range)

lemma to_int64_range: "in_int64 (to_int64 x)"
  by (simp add: int_range)

lemma to_int32_id [simp]: "in_int32 x \<Longrightarrow> to_int32 x = x"
  by (simp add: int_range)

lemma to_int64_id [simp]: "in_int64 x \<Longrightarrow> to_int64 x = x"
  by (simp add: int_range)

lemma in_int_0 [simp]: "in_int32 0" "in_int64 0"
  by (simp_all add: int_range)

lemma in_int32_in_int64: "in_int32 x \<Longrightarrow> in_int64 x"
  by (simp add: int_range)

lemma uint32_range: "0 \<le> uint (w :: uint32)" "uint (w :: uint32) \<le> 4294967295"
  using uint_bounded [of w] by simp_all

lemma uint32_in_int64 [simp]: "in_int64 (uint (w :: uint32))"
  unfolding in_int64_def using uint32_range [of w] by linarith

lemma to_int32_word [simp]: "word_of_int (to_int32 x) = (word_of_int x :: uint32)"
proof -
  have "(to_int32 x) mod 4294967296 = x mod 4294967296"
    by (simp add: to_int32_def mod_simps)
  then show ?thesis
    by (simp add: word_of_int_eq_iff take_bit_eq_mod)
qed

text \<open>
  The scheduler keeps \<open>rps_\<close> as an unsigned word but reads and writes it through signed
  interfaces: the two conversions are inverse to each other.
\<close>

lemma int32_uint32_roundtrip [simp]: "int32_to_uint32 (uint32_to_int32 w) = w"
  by (simp add: int32_to_uint32_def uint32_to_int32_def)

lemma uint32_int32_roundtrip [simp]: "in_int32 x \<Longrightarrow> uint32_to_int32 (int32_to_uint32 x) = x"
  by (simp add: int32_to_uint32_def uint32_to_int32_def uint_word_of_int int_range mod_simps)

lemma uint32_to_int32_inject [simp]: "uint32_to_int32 v = uint32_to_int32 w \<longleftrightarrow> v = w"
  by (metis int32_uint32_roundtrip)

section \<open>Sequencing\<close>

lemma res_bind_simps [simp]:
  "res_bind (Inl e) f = Inl e"
  "res_bind (Inr x) f = f x"
  by (simp_all add: res_bind_def)

lemma res_map_simps [simp]:
  "res_map g (Inl e) = Inl e"
  "res_map g (Inr x) = Inr (g x)"
  by (simp_all add: res_map_def)

lemma res_bind_eq_Inr: "res_bind m f = Inr y \<longleftrightarrow> (\<exists>x. m = Inr x \<and> f x = Inr y)"
  by (cases m) simp_all

lemma res_bind_eq_Inl: "res_bind m f = Inl e \<longleftrightarrow> m = Inl e \<or> (\<exists>x. m = Inr x \<and> f x = Inl e)"
  by (cases m) simp_all

lemma res_map_eq_Inr: "res_map f m = Inr y \<longleftrightarrow> (\<exists>x. m = Inr x \<and> f x = y)"
  by (cases m) simp_all

lemma res_bind_assoc: "res_bind (res_bind m f) g = res_bind m (\<lambda>x. res_bind (f x) g)"
  by (cases m) simp_all

lemma res_bind_cong [fundef_cong]:
  "m = m' \<Longrightarrow> (\<And>x. m' = Inr x \<Longrightarrow> f x = f' x) \<Longrightarrow> res_bind m f = res_bind m' f'"
  by (cases m') simp_all

lemma check_int64_Inr [simp]: "in_int64 x \<Longrightarrow> check_int64 x = Inr x"
  by (simp add: res_defs)

lemma check_int32_Inr [simp]: "in_int32 x \<Longrightarrow> check_int32 x = Inr x"
  by (simp add: res_defs)

lemma check_int64_eq_Inr: "check_int64 x = Inr y \<longleftrightarrow> in_int64 x \<and> y = x"
  by (auto simp: res_defs)

lemma vec_at_Inr [simp]: "i < length xs \<Longrightarrow> vec_at xs i = Inr (xs ! i)"
  by (simp add: res_defs)

lemma vec_at_eq_Inr: "vec_at xs i = Inr y \<longleftrightarrow> i < length xs \<and> y = xs ! i"
  by (auto simp: res_defs)

lemma deref_simps [simp]:
  "deref (Some x) = Inr x"
  "deref None = Inl (Undefined Null_dereference)"
  by (simp_all add: res_defs)

lemma replicate_2 [simp]: "replicate 2 x = [x, x]"
  by (simp add: numeral_2_eq_2)

section \<open>Invariants of step relations\<close>

text \<open>
  The components with concurrency are step relations. A property of every reachable state is
  proved once per component by interpreting this locale: it holds at the start and every step
  from a state that has it leads to a state that has it.
\<close>

locale step_invariant =
  fixes initial :: "'s \<Rightarrow> bool"
    and step :: "'s \<Rightarrow> 's \<Rightarrow> bool"
    and inv :: "'s \<Rightarrow> bool"
  assumes initial_inv: "initial s \<Longrightarrow> inv s"
    and step_inv: "inv s \<Longrightarrow> step s t \<Longrightarrow> inv t"
begin

lemma steps_inv: "step\<^sup>*\<^sup>* s t \<Longrightarrow> inv s \<Longrightarrow> inv t"
  by (induction rule: rtranclp_induct) (auto intro: step_inv)

lemma reachable_inv: "initial s \<Longrightarrow> step\<^sup>*\<^sup>* s t \<Longrightarrow> inv t"
  by (blast intro: steps_inv initial_inv)

end

end
