(* ===== verification/Flags.thy ===== *)
theory Flags
  imports Treadmill_Prelude
begin

text \<open>
  The command line flags (gflags) that the program reads, with the defaults given where each flag
  is defined: \<open>Treadmill.cpp\<close> for the runner's flags, \<open>Scheduler.cpp\<close>, \<open>TreadmillFB303.cpp\<close>,
  \<open>RandomEngine.cpp\<close> and \<open>services/sleep/SleepService.h\<close> for one or two each. Flags are fixed
  during a run, so every operation that reads one takes the record as an argument.
\<close>

record runner_flags =
  FLAGS_config_file :: string
  FLAGS_hostname :: string
  FLAGS_wait_for_target_ready :: bool
  FLAGS_counter_name :: string
  FLAGS_counter_threshold :: int32
  FLAGS_number_of_connections :: int32
  FLAGS_number_of_workers :: int32
  FLAGS_number_of_keys :: int64
  FLAGS_port :: int32
  FLAGS_control_port :: int32
  FLAGS_request_per_second :: int32
  FLAGS_runtime :: int32
  FLAGS_max_outstanding_requests :: int32
  FLAGS_config_in_file :: string
  FLAGS_config_in_json :: string
  FLAGS_config_out_file :: string
  FLAGS_cpu_affinity :: string
  FLAGS_server_port :: int32
  FLAGS_worker_shutdown_delay :: int32

record flags = runner_flags +
  FLAGS_wait_for_runner_ready :: bool
  FLAGS_require_configuration_on_resume :: bool
  FLAGS_enable_watchdog_timer :: bool
  FLAGS_treadmill_random_seed :: uint64
  FLAGS_sleep_time :: int64

definition default_runner_flags :: runner_flags where
  "default_runner_flags = \<lparr>
     FLAGS_config_file = ''./examples/flat.json'',
     FLAGS_hostname = ''localhost'',
     FLAGS_wait_for_target_ready = False,
     FLAGS_counter_name = [],
     FLAGS_counter_threshold = -1,
     FLAGS_number_of_connections = 4,
     FLAGS_number_of_workers = 1,
     FLAGS_number_of_keys = 1024,
     FLAGS_port = 11211,
     FLAGS_control_port = 23456,
     FLAGS_request_per_second = 1024,
     FLAGS_runtime = 120,
     FLAGS_max_outstanding_requests = 1000,
     FLAGS_config_in_file = [],
     FLAGS_config_in_json = [],
     FLAGS_config_out_file = [],
     FLAGS_cpu_affinity = [],
     FLAGS_server_port = -1,
     FLAGS_worker_shutdown_delay = 1\<rparr>"

definition default_flags :: flags where
  "default_flags = runner_flags.extend default_runner_flags
     (flags.fields False False False (- 1) 1000)"

lemma default_flags_simps [simp]:
  "FLAGS_number_of_workers default_flags = 1"
  "FLAGS_number_of_connections default_flags = 4"
  "FLAGS_number_of_keys default_flags = 1024"
  "FLAGS_request_per_second default_flags = 1024"
  "FLAGS_max_outstanding_requests default_flags = 1000"
  "FLAGS_counter_name default_flags = []"
  "FLAGS_counter_threshold default_flags = -1"
  "FLAGS_wait_for_target_ready default_flags = False"
  "FLAGS_worker_shutdown_delay default_flags = 1"
  "FLAGS_cpu_affinity default_flags = []"
  "FLAGS_server_port default_flags = -1"
  "FLAGS_wait_for_runner_ready default_flags = False"
  "FLAGS_require_configuration_on_resume default_flags = False"
  "FLAGS_enable_watchdog_timer default_flags = False"
  "FLAGS_treadmill_random_seed default_flags = - 1"
  "FLAGS_sleep_time default_flags = 1000"
  by (simp_all add: default_flags_def default_runner_flags_def runner_flags.defs flags.defs)

end
