(* ===== verification/Binary64.thy ===== *)
theory Binary64
  imports Treadmill_Prelude "HOL-Library.Log_Nat"
begin

text \<open>
  The C++ type \<open>double\<close>, which the scheduler's pacing, the worker's statistics and the sleep
  service compute with: IEEE 754 binary64 with round-to-nearest, ties to even. A finite double is
  the rational number it denotes; every arithmetic operation is the exact rational operation
  followed by \<open>round64\<close>. The sign of a zero is not represented: the program never divides by a
  computed zero and never inspects a sign bit.

  The lemmas give what the components need: which rationals are exact, the relative error of one
  rounding, its monotonicity, and when a conversion back to an integer is defined.
\<close>

section \<open>Rounding\<close>

datatype double = Fin rat | Infinity bool | NaN

text \<open>The exponent of the leading binary digit of a positive rational.\<close>

definition ilog2 :: "rat \<Rightarrow> int" where
  "ilog2 x = (let (p, q) = quotient_of x; k = bitlen p - bitlen q
              in if 2 powi k \<le> x then k else k - 1)"

definition round_even :: "rat \<Rightarrow> int" where
  "round_even x = (let f = \<lfloor>x\<rfloor>; d = x - of_int f
                   in if d < 1 / 2 then f else if 1 / 2 < d then f + 1
                      else if even f then f else f + 1)"

definition ulp_exp :: "rat \<Rightarrow> int" where
  "ulp_exp x = max (ilog2 \<bar>x\<bar> - 52) (- 1074)"

definition nearest64 :: "rat \<Rightarrow> rat" where
  "nearest64 x =
     (if x = 0 then 0 else of_int (round_even (x / 2 powi ulp_exp x)) * 2 powi ulp_exp x)"

definition round64 :: "rat \<Rightarrow> double" where
  "round64 x =
     (let r = nearest64 x in if 2 ^ 1024 \<le> \<bar>r\<bar> then Infinity (x < 0) else Fin r)"

section \<open>Operations\<close>

instantiation double :: "{plus, minus, uminus, times, inverse, ord}"
begin

fun plus_double :: "double \<Rightarrow> double \<Rightarrow> double" where
  "plus_double (Fin x) (Fin y) = round64 (x + y)"
| "plus_double (Fin x) (Infinity s) = Infinity s"
| "plus_double (Infinity s) (Fin y) = Infinity s"
| "plus_double (Infinity s) (Infinity t) = (if s = t then Infinity s else NaN)"
| "plus_double _ _ = NaN"

fun uminus_double :: "double \<Rightarrow> double" where
  "uminus_double (Fin x) = Fin (- x)"
| "uminus_double (Infinity s) = Infinity (\<not> s)"
| "uminus_double NaN = NaN"

definition minus_double :: "double \<Rightarrow> double \<Rightarrow> double" where
  "minus_double a b = a + (- b)"

fun times_double :: "double \<Rightarrow> double \<Rightarrow> double" where
  "times_double (Fin x) (Fin y) = round64 (x * y)"
| "times_double (Fin x) (Infinity s) = (if x = 0 then NaN else Infinity ((x < 0) \<noteq> s))"
| "times_double (Infinity s) (Fin y) = (if y = 0 then NaN else Infinity (s \<noteq> (y < 0)))"
| "times_double (Infinity s) (Infinity t) = Infinity (s \<noteq> t)"
| "times_double _ _ = NaN"

fun divide_double :: "double \<Rightarrow> double \<Rightarrow> double" where
  "divide_double (Fin x) (Fin y) =
     (if y = 0 then if x = 0 then NaN else Infinity (x < 0) else round64 (x / y))"
| "divide_double (Fin x) (Infinity s) = Fin 0"
| "divide_double (Infinity s) (Fin y) = Infinity (s \<noteq> (y < 0))"
| "divide_double _ _ = NaN"

definition inverse_double :: "double \<Rightarrow> double" where
  "inverse_double a = Fin 1 div a"

fun less_double :: "double \<Rightarrow> double \<Rightarrow> bool" where
  "less_double (Fin x) (Fin y) \<longleftrightarrow> x < y"
| "less_double (Fin x) (Infinity s) \<longleftrightarrow> \<not> s"
| "less_double (Infinity s) (Fin y) \<longleftrightarrow> s"
| "less_double (Infinity s) (Infinity t) \<longleftrightarrow> s \<and> \<not> t"
| "less_double _ _ \<longleftrightarrow> False"

definition less_eq_double :: "double \<Rightarrow> double \<Rightarrow> bool" where
  "less_eq_double a b \<longleftrightarrow> a < b \<or> a = b \<and> a \<noteq> NaN"

instance ..

end

text \<open>
  \<open>double_of\<close> is the value of a floating literal or of an integer converted to \<open>double\<close>.
  A conversion to \<open>int64_t\<close> drops the fraction and is undefined behaviour when the truncated
  value does not fit. \<open>std_max\<close> is \<open>std::max\<close>, which returns its first argument unless that
  is smaller.
\<close>

definition double_of :: "rat \<Rightarrow> double" where
  "double_of x = round64 x"

definition double_of_int :: "int \<Rightarrow> double" where
  "double_of_int i = round64 (of_int i)"

definition truncate_rat :: "rat \<Rightarrow> int" where
  "truncate_rat x = (if 0 \<le> x then \<lfloor>x\<rfloor> else \<lceil>x\<rceil>)"

definition double_to_int64 :: "double \<Rightarrow> int64 res" where
  "double_to_int64 d = (case d of
     Fin x \<Rightarrow> if in_int64 (truncate_rat x) then Inr (truncate_rat x) else Inl (Undefined Float_to_int)
   | _ \<Rightarrow> Inl (Undefined Float_to_int))"

definition std_max :: "double \<Rightarrow> double \<Rightarrow> double" where
  "std_max a b = (if a < b then b else a)"

section \<open>The leading digit\<close>

lemma powi2_pos [simp]: "0 < (2 :: rat) powi e"
  by (simp add: zero_less_power_int)

lemma powi2_less_iff [simp]: "(2 :: rat) powi a < 2 powi b \<longleftrightarrow> a < b"
  by (metis power_int_strict_increasing one_less_numeral_iff semiring_norm(76) linorder_neqE less_asym)

lemma powi2_le_iff [simp]: "(2 :: rat) powi a \<le> 2 powi b \<longleftrightarrow> a \<le> b"
  by (simp flip: not_less)

lemma powi2_nat: "0 \<le> e \<Longrightarrow> (2 :: rat) powi e = 2 ^ nat e"
  by (simp add: power_int_def)

lemma powi2_neg: "(2 :: rat) powi (- int n) = 1 / 2 ^ n"
  by (simp add: power_int_minus field_simps)

lemma quotient_pos:
  assumes "0 < x" and "quotient_of x = (p, q)"
  shows "0 < p" "0 < q" "x = of_int p / of_int q"
proof -
  show q: "0 < q" using quotient_of_denom_pos [OF assms(2)] .
  show x: "x = of_int p / of_int q" using quotient_of_div [OF assms(2)] .
  show "0 < p" using assms(1) q unfolding x by (simp add: zero_less_divide_iff)
qed

lemma bitlen_rat:
  assumes "0 < p"
  shows "2 powi (bitlen p - 1) \<le> (of_int p :: rat)" "(of_int p :: rat) < 2 powi (bitlen p)"
proof -
  have 1: "1 \<le> bitlen p" using assms bitlen_eq_zero_iff [of p] bitlen_nonneg [of p] by linarith
  have "(of_int (2 ^ nat (bitlen p - 1)) :: rat) \<le> of_int p"
    using bitlen_bounds [OF assms] by (simp only: of_int_le_iff)
  then show "2 powi (bitlen p - 1) \<le> (of_int p :: rat)" using 1 by (simp add: powi2_nat)
  have "(of_int p :: rat) < of_int (2 ^ nat (bitlen p))"
    using bitlen_bounds [OF assms] by (simp only: of_int_less_iff)
  then show "(of_int p :: rat) < 2 powi (bitlen p)" using 1 by (simp add: powi2_nat)
qed

lemma ilog2_bounds:
  assumes "0 < x"
  shows "2 powi ilog2 x \<le> x" "x < 2 powi (ilog2 x + 1)"
proof -
  obtain p q where pq: "quotient_of x = (p, q)" by force
  note x = quotient_pos [OF assms pq]
  define k where "k = bitlen p - bitlen q"
  have lo: "2 powi (k - 1) \<le> x"
  proof -
    have "2 powi (k - 1) = (2 :: rat) powi (bitlen p - 1) / 2 powi (bitlen q)"
      by (simp add: k_def power_int_diff)
    also have "\<dots> \<le> of_int p / of_int q"
      using bitlen_rat [OF x(1)] bitlen_rat [OF x(2)] x(1,2)
      by (intro frac_le) auto
    finally show ?thesis using x(3) by simp
  qed
  have hi: "x < 2 powi (k + 1)"
  proof -
    have "of_int p / of_int q < (2 :: rat) powi (bitlen p) / 2 powi (bitlen q - 1)"
      using bitlen_rat [OF x(1)] bitlen_rat [OF x(2)] x(1,2)
      by (intro frac_less) auto
    also have "\<dots> = 2 powi (k + 1)"
      by (simp add: k_def power_int_diff power_int_add)
    finally show ?thesis using x(3) by simp
  qed
  show "2 powi ilog2 x \<le> x" "x < 2 powi (ilog2 x + 1)"
    using lo hi unfolding ilog2_def pq by (auto simp: k_def Let_def)
qed

lemma ilog2_unique:
  assumes "2 powi k \<le> x" "x < 2 powi (k + 1)"
  shows "ilog2 x = k"
proof -
  have "0 < x" using assms(1) powi2_pos [of k] by linarith
  note b = ilog2_bounds [OF this]
  have "(2 :: rat) powi ilog2 x < 2 powi (k + 1)" "(2 :: rat) powi k < 2 powi (ilog2 x + 1)"
    using assms b by linarith+
  then show ?thesis by simp
qed

lemma ilog2_mono: "0 < x \<Longrightarrow> x \<le> y \<Longrightarrow> ilog2 x \<le> ilog2 y"
proof -
  assume "0 < x" "x \<le> y"
  then have "(2 :: rat) powi ilog2 x < 2 powi (ilog2 y + 1)"
    using ilog2_bounds [of x] ilog2_bounds [of y] by linarith
  then show ?thesis by simp
qed

section \<open>Rounding to an integer\<close>

lemma round_even_error: "\<bar>of_int (round_even x) - x\<bar> \<le> 1 / 2"
proof -
  have "of_int \<lfloor>x\<rfloor> \<le> x" "x < of_int \<lfloor>x\<rfloor> + 1" by linarith+
  then show ?thesis by (auto simp: round_even_def Let_def abs_le_iff)
qed

lemma round_even_of_int [simp]: "round_even (of_int i) = i"
  by (simp add: round_even_def)

lemma round_even_zero [simp]: "round_even 0 = 0"
  using round_even_of_int [of 0] by simp

lemma round_even_mono: "x \<le> y \<Longrightarrow> round_even x \<le> round_even y"
proof -
  assume xy: "x \<le> y"
  show ?thesis
  proof (cases "\<lfloor>x\<rfloor> = \<lfloor>y\<rfloor>")
    case True
    with xy show ?thesis by (auto simp: round_even_def Let_def)
  next
    case False
    with xy have "\<lfloor>x\<rfloor> + 1 \<le> \<lfloor>y\<rfloor>" using floor_mono [OF xy] by linarith
    moreover have "round_even x \<le> \<lfloor>x\<rfloor> + 1" "\<lfloor>y\<rfloor> \<le> round_even y"
      by (auto simp: round_even_def Let_def)
    ultimately show ?thesis by linarith
  qed
qed

lemma round_even_minus: "round_even (- x) = - round_even x"
proof (cases "x = of_int \<lfloor>x\<rfloor>")
  case True
  then show ?thesis using round_even_of_int [of "\<lfloor>x\<rfloor>"] round_even_of_int [of "- \<lfloor>x\<rfloor>"] by simp
next
  case False
  then have "\<lfloor>- x\<rfloor> = - \<lfloor>x\<rfloor> - 1" by (simp add: floor_minus ceiling_altdef)
  then show ?thesis by (auto simp: round_even_def Let_def)
qed

section \<open>Rounding to a double\<close>

lemma nearest64_zero [simp]: "nearest64 0 = 0"
  by (simp add: nearest64_def)

lemma nearest64_minus: "nearest64 (- x) = - nearest64 x"
  by (simp add: nearest64_def ulp_exp_def round_even_minus)

lemma nearest64_error: "x \<noteq> 0 \<Longrightarrow> \<bar>nearest64 x - x\<bar> \<le> 2 powi ulp_exp x / 2"
proof -
  assume x: "x \<noteq> 0"
  let ?u = "(2 :: rat) powi ulp_exp x"
  have u: "0 < ?u" by simp
  have "\<bar>of_int (round_even (x / ?u)) - x / ?u\<bar> * ?u \<le> 1 / 2 * ?u"
    using round_even_error by (rule mult_right_mono) simp
  moreover have "nearest64 x - x = (of_int (round_even (x / ?u)) - x / ?u) * ?u"
    using x u by (simp add: nearest64_def field_simps)
  ultimately show ?thesis using u by (simp add: abs_mult)
qed

lemma nearest64_rel_error:
  assumes "2 powi (- 1022) \<le> \<bar>x\<bar>"
  shows "\<bar>nearest64 x - x\<bar> \<le> \<bar>x\<bar> / 2 ^ 53"
proof -
  have x: "0 < \<bar>x\<bar>" using assms powi2_pos [of "- 1022"] by linarith
  have "- 1022 < ilog2 \<bar>x\<bar> + 1"
    using order_le_less_trans [OF assms ilog2_bounds(2) [OF x]] by (simp only: powi2_less_iff)
  then have "ulp_exp x = ilog2 \<bar>x\<bar> - 52" by (simp add: ulp_exp_def)
  then have "2 powi ulp_exp x / 2 = (2 :: rat) powi ilog2 \<bar>x\<bar> / 2 ^ 53"
    by (simp add: power_int_diff)
  also have "\<dots> \<le> \<bar>x\<bar> / 2 ^ 53" using ilog2_bounds(1) [OF x] by (simp add: divide_right_mono)
  finally show ?thesis using nearest64_error [of x] x by linarith
qed

lemma nearest64_abs_error:
  assumes "\<bar>x\<bar> < 2 ^ 53"
  shows "\<bar>nearest64 x - x\<bar> \<le> 1 / 2"
proof (cases "x = 0")
  case False
  then have x: "0 < \<bar>x\<bar>" by simp
  have "(2 :: rat) powi ilog2 \<bar>x\<bar> < 2 powi 53"
    using ilog2_bounds(1) [OF x] assms by simp
  then have "ulp_exp x \<le> 0" by (simp only: powi2_less_iff) (simp add: ulp_exp_def)
  then have "(2 :: rat) powi ulp_exp x \<le> 2 powi 0" by (simp only: powi2_le_iff)
  then show ?thesis using nearest64_error [OF False] by simp
qed simp

text \<open>The relative error on the range the program computes in, far from the subnormal numbers.\<close>

lemma nearest64_rel_error_small:
  assumes "1 / 2 ^ 40 \<le> \<bar>x\<bar>"
  shows "\<bar>nearest64 x - x\<bar> \<le> \<bar>x\<bar> / 2 ^ 53"
proof (rule nearest64_rel_error)
  have "(2 :: rat) powi (- 1022) \<le> 2 powi (- 40)" by (simp only: powi2_le_iff)
  also have "\<dots> = 1 / 2 ^ 40" using powi2_neg [of 40] by (simp only: of_nat_numeral)
  finally show "2 powi (- 1022) \<le> \<bar>x\<bar>" using assms by (rule order_trans)
qed

lemma nearest64_grid:
  assumes "x = of_int m * 2 powi e" "ulp_exp x \<le> e"
  shows "nearest64 x = x"
proof (cases "x = 0")
  case False
  have "x / 2 powi ulp_exp x = of_int (m * 2 ^ nat (e - ulp_exp x))"
    using assms by (simp add: power_int_diff field_simps flip: powi2_nat)
  then have "of_int (round_even (x / 2 powi ulp_exp x)) = x / 2 powi ulp_exp x"
    by (simp only: round_even_of_int)
  then show ?thesis using False by (simp add: nearest64_def)
qed simp

lemma nearest64_exact:
  assumes "\<bar>m\<bar> < 2 ^ 53" "- 1074 \<le> e"
  shows "nearest64 (of_int m * 2 powi e) = of_int m * 2 powi e"
proof (cases "m = 0")
  case False
  let ?x = "of_int m * 2 powi e :: rat"
  have x: "0 < \<bar>?x\<bar>" using False by simp
  have "(of_int \<bar>m\<bar> :: rat) < of_int (2 ^ 53)" using assms(1) by (simp only: of_int_less_iff)
  then have "\<bar>?x\<bar> < 2 ^ 53 * 2 powi e" by (simp add: abs_mult)
  also have "\<dots> = 2 powi (e + 53)" by (simp add: power_int_add)
  finally have "(2 :: rat) powi ilog2 \<bar>?x\<bar> < 2 powi (e + 53)"
    using ilog2_bounds(1) [OF x] by (rule order_le_less_trans [rotated])
  then have "ulp_exp ?x \<le> e" using assms(2) by (simp add: ulp_exp_def)
  then show ?thesis by (rule nearest64_grid [OF refl])
qed simp

lemma nearest64_of_int:
  assumes "\<bar>i\<bar> \<le> 2 ^ 53"
  shows "nearest64 (of_int i) = of_int i"
proof (cases "\<bar>i\<bar> = 2 ^ 53")
  case True
  then have "i = 2 ^ 52 * 2 \<or> i = - (2 ^ 52) * 2" by auto
  then show ?thesis
    using nearest64_exact [of "2 ^ 52" 1] nearest64_exact [of "- (2 ^ 52)" 1] by auto
next
  case False
  then show ?thesis using assms nearest64_exact [of i 0] by simp
qed

lemma nearest64_dyadic:
  assumes "\<bar>m\<bar> < 2 ^ 53" "n \<le> 1074"
  shows "nearest64 (of_int m / 2 ^ n) = of_int m / 2 ^ n"
proof -
  have "of_int m / 2 ^ n = (of_int m * 2 powi (- int n) :: rat)"
    by (simp add: powi2_neg)
  then show ?thesis using nearest64_exact [OF assms(1), of "- int n"] assms(2) by simp
qed

lemma nearest64_mono_pos:
  assumes "0 < x" "x \<le> y"
  shows "nearest64 x \<le> nearest64 y"
proof (cases "ulp_exp x = ulp_exp y")
  case True
  have "x / 2 powi ulp_exp y \<le> y / 2 powi ulp_exp y" using assms by (simp add: divide_right_mono)
  then show ?thesis using assms True by (auto simp: nearest64_def dest: round_even_mono)
next
  case False
  let ?u = "ulp_exp x" and ?v = "ulp_exp y"
  have "ilog2 x \<le> ilog2 y" using assms by (rule ilog2_mono)
  then have uv: "?u < ?v" and v: "?v = ilog2 y - 52"
    using False assms by (auto simp: ulp_exp_def)
  then have "ilog2 x + 1 \<le> ?v + 52" using assms by (auto simp: ulp_exp_def)
  then have "x < 2 powi (?v + 52)"
    using ilog2_bounds(2) [OF assms(1)] by (meson order_less_le_trans powi2_le_iff)
  then have "x / 2 powi ?u \<le> of_int (2 ^ nat (?v + 52 - ?u))"
    using uv by (simp add: power_int_diff field_simps flip: powi2_nat)
  then have "round_even (x / 2 powi ?u) \<le> 2 ^ nat (?v + 52 - ?u)"
    using round_even_mono round_even_of_int by metis
  then have "(of_int (round_even (x / 2 powi ?u)) :: rat) \<le> of_int (2 ^ nat (?v + 52 - ?u))"
    by (simp only: of_int_le_iff)
  then have "nearest64 x \<le> 2 powi (?v + 52 - ?u) * 2 powi ?u"
    using assms uv by (simp add: nearest64_def powi2_nat)
  also have "\<dots> = 2 ^ 52 * 2 powi ?v" by (simp flip: power_int_add add: power_int_add)
  also have "\<dots> \<le> nearest64 y"
  proof -
    have "2 powi (?v + 52) \<le> y" using ilog2_bounds(1) [of y] assms v by simp
    then have "of_int (2 ^ 52) \<le> y / 2 powi ?v" by (simp add: power_int_add field_simps)
    then have "2 ^ 52 \<le> round_even (y / 2 powi ?v)"
      using round_even_mono round_even_of_int by metis
    then have "(of_int (2 ^ 52) :: rat) \<le> of_int (round_even (y / 2 powi ?v))"
      by (simp only: of_int_le_iff)
    then show ?thesis using assms by (simp add: nearest64_def)
  qed
  finally show ?thesis .
qed

lemma nearest64_nonneg: "0 \<le> x \<Longrightarrow> 0 \<le> nearest64 x"
proof -
  assume "0 \<le> x"
  then have "round_even 0 \<le> round_even (x / 2 powi ulp_exp x)"
    by (intro round_even_mono divide_nonneg_nonneg) auto
  then show ?thesis by (simp add: nearest64_def)
qed

lemma nearest64_mono: "x \<le> y \<Longrightarrow> nearest64 x \<le> nearest64 y"
proof -
  assume xy: "x \<le> y"
  consider "0 < x" | "x \<le> 0" "0 \<le> y" | "y < 0" by linarith
  then show ?thesis
  proof cases
    case 1
    then show ?thesis using xy by (rule nearest64_mono_pos)
  next
    case 2
    then show ?thesis
      using nearest64_nonneg [of y] nearest64_nonneg [of "- x"] by (simp add: nearest64_minus)
  next
    case 3
    then show ?thesis using nearest64_mono_pos [of "- y" "- x"] xy by (simp add: nearest64_minus)
  qed
qed

lemma nearest64_le_int: "x \<le> of_int i \<Longrightarrow> \<bar>i\<bar> \<le> 2 ^ 53 \<Longrightarrow> nearest64 x \<le> of_int i"
  using nearest64_mono [of x "of_int i"] by (simp add: nearest64_of_int)

lemma nearest64_ge_int: "of_int i \<le> x \<Longrightarrow> \<bar>i\<bar> \<le> 2 ^ 53 \<Longrightarrow> of_int i \<le> nearest64 x"
  using nearest64_mono [of "of_int i" x] by (simp add: nearest64_of_int)

section \<open>Finite results\<close>

lemma round64_Fin: "\<bar>nearest64 x\<bar> < 2 ^ 1024 \<Longrightarrow> round64 x = Fin (nearest64 x)"
  by (simp add: round64_def)

lemma round64_int_bounded:
  assumes "\<bar>x\<bar> \<le> of_int i" "i \<le> 2 ^ 53"
  shows "round64 x = Fin (nearest64 x)" "\<bar>nearest64 x\<bar> \<le> of_int i"
proof -
  have i: "0 \<le> i" using assms(1) by (metis abs_ge_zero of_int_0_le_iff order_trans)
  have "nearest64 x \<le> of_int i" "of_int (- i) \<le> nearest64 x"
    using assms i by (intro nearest64_le_int nearest64_ge_int; auto simp: abs_le_iff)+
  then show b: "\<bar>nearest64 x\<bar> \<le> of_int i" by simp
  have "(of_int i :: rat) \<le> of_int (2 ^ 53)" using assms(2) by (simp only: of_int_le_iff)
  also have "\<dots> < 2 ^ 1024" by simp
  finally show "round64 x = Fin (nearest64 x)" using b by (intro round64_Fin) linarith
qed

lemma double_of_int_exact [simp]: "\<bar>i\<bar> \<le> 2 ^ 53 \<Longrightarrow> double_of_int i = Fin (of_int i)"
  using round64_int_bounded [of "of_int i" "\<bar>i\<bar>"]
  by (simp add: double_of_int_def nearest64_of_int)

lemma truncate_rat_of_int [simp]: "truncate_rat (of_int i) = i"
  by (simp add: truncate_rat_def)

lemma truncate_rat_error: "\<bar>of_int (truncate_rat x) - x\<bar> < 1"
  by (cases "0 \<le> x"; simp add: truncate_rat_def; linarith)

lemma truncate_rat_mono:
  assumes "x \<le> y"
  shows "truncate_rat x \<le> truncate_rat y"
  using assms
proof (cases "0 \<le> x \<or> y < 0")
  case False
  then have "\<lceil>x\<rceil> \<le> 0" "0 \<le> \<lfloor>y\<rfloor>" by simp_all
  then have "\<lceil>x\<rceil> \<le> \<lfloor>y\<rfloor>" by (rule order_trans)
  then show ?thesis using False by (simp add: truncate_rat_def)
qed (auto simp: truncate_rat_def floor_mono ceiling_mono)

lemma truncate_rat_bounds: "of_int l \<le> x \<Longrightarrow> x \<le> of_int h \<Longrightarrow> l \<le> truncate_rat x \<and> truncate_rat x \<le> h"
  using truncate_rat_mono [of "of_int l" x] truncate_rat_mono [of x "of_int h"] by simp

lemma double_to_int64_Fin:
  assumes "of_int l \<le> x" "x \<le> of_int h" "int64_min \<le> l" "h \<le> int64_max"
  shows "double_to_int64 (Fin x) = Inr (truncate_rat x)"
  using truncate_rat_bounds [OF assms(1,2)] assms(3,4)
  by (auto simp: double_to_int64_def in_int64_def)

lemma double_to_int64_of_int: "in_int64 i \<Longrightarrow> double_to_int64 (Fin (of_int i)) = Inr i"
  by (simp add: double_to_int64_def)

end
