(* ===== verification/Event.thy ===== *)
theory Event
  imports Binary64
begin

text \<open>
  \<open>Event.h\<close>: the messages that travel from the scheduler to the workers. The payload is a
  \<open>folly::dynamic\<close>, a type of the folly library: it is the type variable \<open>'d\<close> with the record
  \<open>dynamic_ops\<close> of the operations the program uses, and the locale \<open>folly_dynamic\<close> states what
  the program relies on. \<open>dynamic_value\<close> is the tagged union that folly documents; the locale is
  interpreted on it.
\<close>

section \<open>Events\<close>

datatype EventType = STOP | RESET | SEND_REQUEST | SET_PHASE | SET_MAX_OUTSTANDING

record 'd event =
  eventType :: EventType
  extraData :: 'd

definition getEventType :: "'d event \<Rightarrow> EventType" where
  "getEventType e = eventType e"

definition getExtraData :: "'d event \<Rightarrow> 'd" where
  "getExtraData e = extraData e"

section \<open>The dynamic payload\<close>

record 'd dynamic_ops =
  dyn_nullptr :: 'd
  dyn_of_int :: "int64 \<Rightarrow> 'd"
  dyn_of_string :: "string \<Rightarrow> 'd"
  dyn_isInt :: "'d \<Rightarrow> bool"
  dyn_asInt :: "'d \<Rightarrow> int64"
  dyn_isString :: "'d \<Rightarrow> bool"
  dyn_asString :: "'d \<Rightarrow> string"

text \<open>The two ways the program builds an event: without a payload (\<open>nullptr\<close>) and with one.\<close>

definition Event_of :: "'d dynamic_ops \<Rightarrow> EventType \<Rightarrow> 'd event" where
  "Event_of D t = \<lparr>eventType = t, extraData = dyn_nullptr D\<rparr>"

definition Event_with :: "EventType \<Rightarrow> 'd \<Rightarrow> 'd event" where
  "Event_with t d = \<lparr>eventType = t, extraData = d\<rparr>"

text \<open>An enumerator's underlying value, which the worker prints for an event it does not handle.\<close>

fun enum_value :: "EventType \<Rightarrow> nat" where
  "enum_value STOP = 0"
| "enum_value RESET = 1"
| "enum_value SEND_REQUEST = 2"
| "enum_value SET_PHASE = 3"
| "enum_value SET_MAX_OUTSTANDING = 4"

instantiation EventType :: linorder
begin

definition less_eq_EventType :: "EventType \<Rightarrow> EventType \<Rightarrow> bool" where
  "less_eq_EventType a b \<longleftrightarrow> enum_value a \<le> enum_value b"

definition less_EventType :: "EventType \<Rightarrow> EventType \<Rightarrow> bool" where
  "less_EventType a b \<longleftrightarrow> enum_value a < enum_value b"

instance
proof
  fix x y :: EventType
  show "x \<le> y \<Longrightarrow> y \<le> x \<Longrightarrow> x = y"
    by (cases x; cases y) (simp_all add: less_eq_EventType_def)
qed (auto simp: less_eq_EventType_def less_EventType_def)

end

locale folly_dynamic =
  fixes D :: "'d dynamic_ops"
  assumes isInt_of_int: "dyn_isInt D (dyn_of_int D i)"
    and asInt_of_int: "in_int64 i \<Longrightarrow> dyn_asInt D (dyn_of_int D i) = i"
    and asInt_range: "in_int64 (dyn_asInt D d)"
    and isString_of_string: "dyn_isString D (dyn_of_string D s)"
    and asString_of_string: "dyn_asString D (dyn_of_string D s) = s"
    and nullptr_isInt: "\<not> dyn_isInt D (dyn_nullptr D)"
    and nullptr_isString: "\<not> dyn_isString D (dyn_nullptr D)"
    and of_string_isInt: "\<not> dyn_isInt D (dyn_of_string D s)"
    and of_int_isString: "\<not> dyn_isString D (dyn_of_int D i)"

datatype dynamic_value =
    DNull
  | DBool bool
  | DDouble double
  | DInt int64
  | DString string
  | DArray "dynamic_value list"
  | DObject "(string \<times> dynamic_value) list"

definition dynamic_value_ops :: "dynamic_value dynamic_ops" where
  "dynamic_value_ops = \<lparr>
     dyn_nullptr = DNull,
     dyn_of_int = (\<lambda>i. DInt (to_int64 i)),
     dyn_of_string = DString,
     dyn_isInt = (\<lambda>d. case d of DInt _ \<Rightarrow> True | _ \<Rightarrow> False),
     dyn_asInt = (\<lambda>d. case d of DInt i \<Rightarrow> to_int64 i | _ \<Rightarrow> 0),
     dyn_isString = (\<lambda>d. case d of DString _ \<Rightarrow> True | _ \<Rightarrow> False),
     dyn_asString = (\<lambda>d. case d of DString s \<Rightarrow> s | _ \<Rightarrow> [])\<rparr>"

interpretation tagged: folly_dynamic dynamic_value_ops
  by unfold_locales
    (auto simp: dynamic_value_ops_def to_int64_range to_int64_id split: dynamic_value.splits)

lemma dynamic_value_ops_simps [simp]:
  "dyn_nullptr dynamic_value_ops = DNull"
  "dyn_of_int dynamic_value_ops i = DInt (to_int64 i)"
  "dyn_of_string dynamic_value_ops s = DString s"
  "dyn_isInt dynamic_value_ops (DInt i) = True"
  "dyn_asInt dynamic_value_ops (DInt i) = to_int64 i"
  "dyn_isString dynamic_value_ops (DString s) = True"
  "dyn_asString dynamic_value_ops (DString s) = s"
  by (simp_all add: dynamic_value_ops_def)

lemma event_simps [simp]:
  "getEventType (Event_of D t) = t"
  "getExtraData (Event_of D t) = dyn_nullptr D"
  "getEventType (Event_with t d) = t"
  "getExtraData (Event_with t d) = d"
  by (simp_all add: getEventType_def getExtraData_def Event_of_def Event_with_def)

lemma event_inject [simp]:
  "Event_of D t = Event_of D t' \<longleftrightarrow> t = t'"
  "Event_with t d = Event_with t' d' \<longleftrightarrow> t = t' \<and> d = d'"
  by (simp_all add: Event_of_def Event_with_def)

section \<open>Counting messages of a type\<close>

definition deliveries :: "EventType \<Rightarrow> 'd event list \<Rightarrow> nat" where
  "deliveries t es = length (filter (\<lambda>e. getEventType e = t) es)"

lemma deliveries_append [simp]: "deliveries t (xs @ ys) = deliveries t xs + deliveries t ys"
  by (simp add: deliveries_def)

lemma deliveries_Nil [simp]: "deliveries t [] = 0"
  by (simp add: deliveries_def)

lemma deliveries_single [simp]: "deliveries t [e] = (if getEventType e = t then 1 else 0)"
  by (simp add: deliveries_def)

end
