(* ===== verification/Notification_Queue.thy ===== *)
theory Notification_Queue
  imports Treadmill_Prelude
begin

text \<open>
  \<open>folly::NotificationQueue\<close>, the channel between the scheduler and each worker, is a class of the
  folly library. Its operations are a parameter of the model (\<open>queue_ops\<close>): construction,
  \<open>putMessage\<close>, \<open>size\<close>, and the delivery of the next message to the consumer. The locale states
  the contract the program relies on, against the list of undelivered messages: first in, first
  out, nothing lost, nothing invented. The locale is interpreted on the list queue.
\<close>

record ('q, 'm) queue_ops =
  q_new :: 'q
  q_putMessage :: "'m \<Rightarrow> 'q \<Rightarrow> 'q"
  q_size :: "'q \<Rightarrow> nat"
  q_consume :: "'q \<Rightarrow> ('m \<times> 'q) option"

locale notification_queue =
  fixes Q :: "('q, 'm) queue_ops"
    and msgs :: "'q \<Rightarrow> 'm list"
  assumes msgs_new: "msgs (q_new Q) = []"
    and msgs_put: "msgs (q_putMessage Q m q) = msgs q @ [m]"
    and size_msgs: "q_size Q q = length (msgs q)"
    and consume_None: "q_consume Q q = None \<longleftrightarrow> msgs q = []"
    and consume_Some: "q_consume Q q = Some (m, q') \<Longrightarrow> msgs q = m # msgs q'"
begin

lemma size_put: "q_size Q (q_putMessage Q m q) = Suc (q_size Q q)"
  by (simp add: size_msgs msgs_put)

lemma size_new: "q_size Q (q_new Q) = 0"
  by (simp add: size_msgs msgs_new)

lemma msgs_put_all: "msgs (fold (q_putMessage Q) ms q) = msgs q @ ms"
  by (induction ms arbitrary: q) (simp_all add: msgs_put)

lemma size_pos_put: "0 < q_size Q (q_putMessage Q m q)"
  by (simp add: size_put)

lemma consume_msgs: "msgs q = m # ms \<Longrightarrow> \<exists>q'. q_consume Q q = Some (m, q') \<and> msgs q' = ms"
  using consume_Some consume_None by (cases "q_consume Q q") force+

end

definition list_queue :: "('m list, 'm) queue_ops" where
  "list_queue = \<lparr>
     q_new = [],
     q_putMessage = (\<lambda>m q. q @ [m]),
     q_size = length,
     q_consume = (\<lambda>q. case q of [] \<Rightarrow> None | m # q' \<Rightarrow> Some (m, q'))\<rparr>"

interpretation lq: notification_queue list_queue "\<lambda>q. q"
  by unfold_locales (auto simp: list_queue_def split: list.splits)

lemma list_queue_simps [simp]:
  "q_new list_queue = []"
  "q_putMessage list_queue m q = q @ [m]"
  "q_size list_queue q = length q"
  "q_consume list_queue [] = None"
  "q_consume list_queue (m # q) = Some (m, q)"
  by (simp_all add: list_queue_def)

end
