(* ===== verification/Util.thy ===== *)
theory Util
  imports Binary64
begin

text \<open>
  \<open>Util.h\<close> and \<open>Util.cpp\<close>: the monotonic clock, reading and writing files and file descriptors,
  and host name lookup. The operating system is a parameter: \<open>clock_gettime\<close>, \<open>read\<close>, \<open>write\<close>,
  \<open>getaddrinfo\<close> and the file system are functions from the number of the call (and its arguments)
  to its outcome, and the JSON printer and parser of folly are arguments of the operations that
  call them.
\<close>

section \<open>Clock\<close>

definition k_ns_per_s :: int64 where [simp]: "k_ns_per_s = 1000000000"

record timespec =
  tv_sec :: int64
  tv_nsec :: int64

type_synonym clock = "nat \<Rightarrow> timespec option"

text \<open>The reading of the \<open>t\<close>-th call; \<open>None\<close> is a \<open>clock_gettime\<close> that reports an error.\<close>

definition nowNs :: "clock \<Rightarrow> nat \<Rightarrow> int64 res" where
  "nowNs clk t = (case clk t of
     None \<Rightarrow> Inl (Check_failed ''r == 0'')
   | Some ts \<Rightarrow> res_bind (check_int64 (tv_sec ts * k_ns_per_s)) (\<lambda>p. check_int64 (tv_nsec ts + p)))"

record timeval =
  tvl_sec :: int64
  tvl_usec :: int64

definition time_s :: "timeval \<Rightarrow> double" where
  "time_s tv = double_of_int (tvl_sec tv) + double_of_int (tvl_usec tv) * double_of (1 / 1000000)"

section \<open>Files\<close>

type_synonym file_system = "string \<rightharpoonup> string"

datatype write_outcome = Open_failed | Write_failed string | Written

definition writeStringToFile ::
  "(string \<Rightarrow> string \<Rightarrow> write_outcome) \<Rightarrow> string \<Rightarrow> string \<Rightarrow> file_system \<Rightarrow> bool \<times> file_system" where
  "writeStringToFile os txt filename fs = (case os filename txt of
     Open_failed \<Rightarrow> (False, fs)
   | Write_failed part \<Rightarrow> (False, fs(filename \<mapsto> part))
   | Written \<Rightarrow> (True, fs(filename \<mapsto> txt)))"

text \<open>A file that does not exist or that \<open>is_readable\<close> refuses sets the stream's failbit.\<close>

definition readFileToString ::
  "(string \<Rightarrow> bool) \<Rightarrow> string \<Rightarrow> string \<Rightarrow> file_system \<Rightarrow> bool \<times> string" where
  "readFileToString is_readable filename txt fs =
     (if is_readable filename
      then case fs filename of None \<Rightarrow> (False, txt) | Some s \<Rightarrow> (True, s)
      else (False, txt))"

definition writeDynamicToFile ::
  "('j \<Rightarrow> string) \<Rightarrow> (string \<Rightarrow> string \<Rightarrow> write_outcome) \<Rightarrow> string \<Rightarrow> 'j \<Rightarrow> file_system \<Rightarrow> file_system res" where
  "writeDynamicToFile toJson os filename object fs =
     (case writeStringToFile os (toJson object) filename fs of
        (ok, fs') \<Rightarrow> if \<not> ok then Inl (Fatal (''Open to read failed: '' @ filename)) else Inr fs')"

definition readDynamicFromFile ::
  "(string \<Rightarrow> 'j res) \<Rightarrow> (string \<Rightarrow> bool) \<Rightarrow> string \<Rightarrow> file_system \<Rightarrow> 'j res" where
  "readDynamicFromFile parseJson is_readable filename fs =
     (case readFileToString is_readable filename [] fs of
        (ok, s) \<Rightarrow> if \<not> ok then Inl (Fatal (''Open to read failed: '' @ filename)) else parseJson s)"

section \<open>File descriptors\<close>

type_synonym byte = "8 word"

text \<open>
  \<open>rd k n\<close> is the outcome of the \<open>k\<close>-th \<open>read\<close> on the descriptor, asked for \<open>n\<close> bytes: \<open>None\<close>
  for a failed call, else the bytes it stored (none at end of file). \<open>wr k bs\<close> is the outcome of
  the \<open>k\<close>-th \<open>write\<close> of \<open>bs\<close>: \<open>None\<close> for a failed call, else how many of the bytes it took.
\<close>

type_synonym read_call = "nat \<Rightarrow> nat \<Rightarrow> byte list option"
type_synonym write_call = "nat \<Rightarrow> byte list \<Rightarrow> nat option"

definition overwrite :: "byte list \<Rightarrow> nat \<Rightarrow> byte list \<Rightarrow> byte list" where
  "overwrite buf off bs = take off buf @ bs @ drop (off + length bs) buf"

text \<open>\<open>buffer[i]\<close> for an \<open>int\<close> index, as a checked access.\<close>

definition char_at :: "byte list \<Rightarrow> int \<Rightarrow> byte res" where
  "char_at buf i = (if i < 0 then Inl (Undefined Out_of_bounds) else vec_at buf (nat i))"

text \<open>
  The condition of the \<open>do ... while\<close> of \<open>readLine\<close>, with the short-circuit evaluation of
  \<open>&&\<close> and \<open>||\<close>; 13 and 10 are carriage return and line feed.
\<close>

definition readLine_continue :: "byte list \<Rightarrow> int \<Rightarrow> int \<Rightarrow> bool res" where
  "readLine_continue buf n got =
     (if got < n
      then res_bind (char_at buf (got - 2)) (\<lambda>c.
             if c \<noteq> 13 then Inr True
             else res_bind (char_at buf (got - 1)) (\<lambda>d. Inr (d \<noteq> 10)))
      else Inr False)"

text \<open>The store of one byte by \<open>read(fd, buffer + got, 1)\<close>, whose result is ignored.\<close>

definition readLine_store :: "read_call \<Rightarrow> nat \<Rightarrow> byte list \<Rightarrow> byte list res" where
  "readLine_store rd got buf = (case rd got 1 of
     None \<Rightarrow> Inr buf
   | Some bs \<Rightarrow> if got + length bs \<le> length buf then Inr (overwrite buf got bs)
               else Inl (Undefined Out_of_bounds))"

function readLine_loop :: "read_call \<Rightarrow> byte list \<Rightarrow> int \<Rightarrow> nat \<Rightarrow> (int \<times> byte list) res" where
  "readLine_loop rd buf n got =
     res_bind (readLine_store rd got buf) (\<lambda>buf'.
       res_bind (readLine_continue buf' n (int got + 1)) (\<lambda>continue.
         if continue then readLine_loop rd buf' n (got + 1)
         else Inr (int got + 1, buf')))"
  by pat_completeness auto
termination
  by (relation "measure (\<lambda>(rd, buf, n, got). nat (n - int got))")
    (auto simp: readLine_continue_def split: if_splits)

definition readLine :: "read_call \<Rightarrow> byte list \<Rightarrow> int32 \<Rightarrow> (int32 \<times> byte list) res" where
  "readLine rd buffer buffer_size = readLine_loop rd buffer buffer_size 0"

text \<open>
  \<open>readBlock\<close> and \<open>writeBlock\<close> loop until the block is complete, however often the call returns
  zero: they may run forever, which is the value \<open>None\<close>.
\<close>

partial_function (option) readBlock_loop ::
  "read_call \<Rightarrow> byte list \<Rightarrow> nat \<Rightarrow> nat \<Rightarrow> nat \<Rightarrow> byte list res option" where
  "readBlock_loop rd buf n k got =
     (if got \<noteq> n
      then case rd k (n - got) of
             None \<Rightarrow> Some (Inl (Fatal ''Read syscall failed: ''))
           | Some bs \<Rightarrow> readBlock_loop rd (overwrite buf got bs) n (k + 1) (got + length bs)
      else if got < n
           then Some (Inl (Fatal ''Read loop exited before all bytes were written.This should never happen''))
           else Some (Inr buf))"

definition readBlock :: "read_call \<Rightarrow> byte list \<Rightarrow> nat \<Rightarrow> byte list res option" where
  "readBlock rd buffer buffer_size = readBlock_loop rd buffer buffer_size 0 0"

partial_function (option) writeBlock_loop ::
  "write_call \<Rightarrow> byte list \<Rightarrow> nat \<Rightarrow> nat \<Rightarrow> nat \<Rightarrow> byte list \<Rightarrow> byte list res option" where
  "writeBlock_loop wr buffer n k got out =
     (if got \<noteq> n
      then case wr k (take (n - got) (drop got buffer)) of
             None \<Rightarrow> Some (Inl (Fatal ''Write syscall failed: ''))
           | Some w \<Rightarrow> writeBlock_loop wr buffer n (k + 1) (got + w)
                        (out @ take w (drop got buffer))
      else Some (Inr out))"

definition writeBlock :: "write_call \<Rightarrow> byte list \<Rightarrow> nat \<Rightarrow> byte list res option" where
  "writeBlock wr buffer buffer_size = writeBlock_loop wr buffer buffer_size 0 0 []"

section \<open>Name lookup\<close>

datatype sock_address = AF_INET "byte list" | AF_INET6 "byte list"

definition kNumberOfAttempts :: nat where [simp]: "kNumberOfAttempts = 3"

text \<open>
  \<open>gai k\<close> is the outcome of the \<open>k\<close>-th \<open>getaddrinfo\<close>: its error code, or the first address of
  the list. The loop returns the last outcome and the number of calls.
\<close>

function lookup_attempts :: "(nat \<Rightarrow> int + sock_address) \<Rightarrow> nat \<Rightarrow> int + sock_address \<Rightarrow> (int + sock_address) \<times> nat" where
  "lookup_attempts gai attempt outcome =
     (if (case outcome of Inl e \<Rightarrow> True | Inr _ \<Rightarrow> False) \<and> attempt < kNumberOfAttempts
      then lookup_attempts gai (attempt + 1) (gai attempt) else (outcome, attempt))"
  by pat_completeness auto
termination
  by (relation "measure (\<lambda>(gai, attempt, outcome). kNumberOfAttempts - attempt)") auto

definition nsLookUp ::
  "(nat \<Rightarrow> int + sock_address) \<Rightarrow> (sock_address \<Rightarrow> string) \<Rightarrow> (int \<Rightarrow> string) \<Rightarrow> string res" where
  "nsLookUp gai inet_ntop gai_strerror =
     (case lookup_attempts gai 0 (Inl (- 1)) of
        (Inr address, _) \<Rightarrow> Inr (inet_ntop address)
      | (Inl error, _) \<Rightarrow> Inl (Fatal (''DNS error: '' @ gai_strerror error)))"

section \<open>Clock readings\<close>

lemma nowNs_Some:
  assumes "clk t = Some ts" "0 \<le> tv_sec ts" "tv_sec ts < 9000000000" "0 \<le> tv_nsec ts" "tv_nsec ts < k_ns_per_s"
  shows "nowNs clk t = Inr (tv_sec ts * k_ns_per_s + tv_nsec ts)"
  using assms by (simp add: nowNs_def int_range)

lemma nowNs_None: "clk t = None \<Longrightarrow> nowNs clk t = Inl (Check_failed ''r == 0'')"
  by (simp add: nowNs_def)

lemma nowNs_range: "nowNs clk t = Inr n \<Longrightarrow> in_int64 n"
  by (auto simp: nowNs_def res_bind_eq_Inr check_int64_eq_Inr split: option.splits)

section \<open>Reading a line\<close>

lemma readLine_first_index: "2 \<le> n \<Longrightarrow> readLine rd buf n = Inl (Undefined Out_of_bounds)"
  unfolding readLine_def
  by (subst readLine_loop.simps)
    (auto simp: readLine_store_def readLine_continue_def char_at_def split: option.splits)

section \<open>Reading and writing a block\<close>

lemma overwrite_length: "off + length bs \<le> length buf \<Longrightarrow> length (overwrite buf off bs) = length buf"
  by (simp add: overwrite_def)

lemma overwrite_overwrite:
  assumes "off + length as + length bs \<le> length buf"
  shows "overwrite (overwrite buf off as) (off + length as) bs = overwrite buf off (as @ bs)"
proof -
  have "off \<le> length buf" using assms by simp
  then show ?thesis by (simp add: overwrite_def ac_simps)
qed

lemma overwrite_Nil [simp]: "overwrite buf off [] = buf"
  by (simp add: overwrite_def)

text \<open>A run of reads: the chunks that consecutive calls, starting with call \<open>k\<close>, deliver for \<open>n\<close> bytes.\<close>

fun read_chunks :: "read_call \<Rightarrow> nat \<Rightarrow> nat \<Rightarrow> byte list list \<Rightarrow> bool" where
  "read_chunks rd k n [] \<longleftrightarrow> n = 0"
| "read_chunks rd k n (c # cs) \<longleftrightarrow>
     0 < n \<and> rd k n = Some c \<and> length c \<le> n \<and> read_chunks rd (k + 1) (n - length c) cs"

lemma read_chunks_length: "read_chunks rd k n cs \<Longrightarrow> length (concat cs) = n"
  by (induction cs arbitrary: k n) auto

lemma readBlock_loop_chunks:
  assumes "read_chunks rd k (n - got) cs" "got \<le> n" "n \<le> length buf"
  shows "readBlock_loop rd buf n k got = Some (Inr (overwrite buf got (concat cs)))"
  using assms
proof (induction cs arbitrary: k got buf)
  case Nil
  then show ?case by (simp add: readBlock_loop.simps)
next
  case (Cons c cs)
  then have c: "rd k (n - got) = Some c" "got \<noteq> n" "got + length c \<le> n"
    and cs: "read_chunks rd (k + 1) (n - (got + length c)) cs" by auto
  have len: "got + length c + length (concat cs) \<le> length buf"
    using read_chunks_length [OF cs] c(3) Cons.prems(3) by linarith
  have "readBlock_loop rd buf n k got = readBlock_loop rd (overwrite buf got c) n (k + 1) (got + length c)"
    using c by (subst readBlock_loop.simps) simp
  also have "\<dots> = Some (Inr (overwrite (overwrite buf got c) (got + length c) (concat cs)))"
    using cs c(3) Cons.prems(3) by (intro Cons.IH) (simp_all add: overwrite_length)
  finally show ?case using len by (simp add: overwrite_overwrite)
qed

lemma read_chunks_exists:
  assumes "\<And>k m. 0 < m \<Longrightarrow> \<exists>bs. rd k m = Some bs \<and> 0 < length bs \<and> length bs \<le> m"
  shows "\<exists>cs. read_chunks rd k n cs"
proof (induction n arbitrary: k rule: less_induct)
  case (less n)
  show ?case
  proof (cases "n = 0")
    case True
    then have "read_chunks rd k n []" by simp
    then show ?thesis ..
  next
    case False
    then obtain bs where bs: "rd k n = Some bs" "0 < length bs" "length bs \<le> n"
      using assms [of n k] by auto
    then obtain cs where "read_chunks rd (k + 1) (n - length bs) cs"
      using less.IH [of "n - length bs" "k + 1"] False by auto
    then have "read_chunks rd k n (bs # cs)" using bs False by simp
    then show ?thesis ..
  qed
qed

lemma readBlock_loop_eof:
  assumes "readBlock_loop rd buf n k got = Some r" "\<And>j m. k \<le> j \<Longrightarrow> rd j m = Some []"
  shows "got = n"
proof -
  have "(\<forall>j m. k \<le> j \<longrightarrow> rd j m = Some []) \<longrightarrow> got = n"
  proof (rule readBlock_loop.raw_induct
      [where P = "\<lambda>rd buf n k got r. (\<forall>j m. k \<le> j \<longrightarrow> rd j m = Some []) \<longrightarrow> got = n", OF _ assms(1)])
    fix f :: "read_call \<Rightarrow> byte list \<Rightarrow> nat \<Rightarrow> nat \<Rightarrow> nat \<Rightarrow> byte list res option" and rd buf n k got r
    assume IH: "\<And>rd buf n k got r. f rd buf n k got = Some r \<Longrightarrow>
        (\<forall>j m. k \<le> j \<longrightarrow> rd j m = Some []) \<longrightarrow> got = n"
      and eq: "(if got \<noteq> n
        then case rd k (n - got) of
               None \<Rightarrow> Some (Inl (Fatal ''Read syscall failed: ''))
             | Some bs \<Rightarrow> f rd (overwrite buf got bs) n (k + 1) (got + length bs)
        else if got < n
             then Some (Inl (Fatal ''Read loop exited before all bytes were written.This should never happen''))
             else Some (Inr buf)) = Some r"
    show "(\<forall>j m. k \<le> j \<longrightarrow> rd j m = Some []) \<longrightarrow> got = n"
    proof
      assume eof: "\<forall>j m. k \<le> j \<longrightarrow> rd j m = Some []"
      then have "rd k (n - got) = Some []" by simp
      then show "got = n" using eq eof IH [of rd buf n "k + 1" got r] by (auto split: if_splits)
    qed
  qed
  then show ?thesis using assms(2) by blast
qed

lemma writeBlock_loop_writes:
  assumes "\<And>k bs. bs \<noteq> [] \<Longrightarrow> \<exists>w. wr k bs = Some w \<and> 0 < w \<and> w \<le> length bs"
    and "got \<le> n" "n \<le> length buf"
  shows "writeBlock_loop wr buf n k got out = Some (Inr (out @ take (n - got) (drop got buf)))"
  using assms(2,3)
proof (induction "n - got" arbitrary: k got out rule: less_induct)
  case less
  show ?case
  proof (cases "got = n")
    case True
    then show ?thesis by (simp add: writeBlock_loop.simps)
  next
    case False
    let ?bs = "take (n - got) (drop got buf)"
    have len: "length ?bs = n - got" and ne: "?bs \<noteq> []" using less.prems False by auto
    then obtain w where w: "wr k ?bs = Some w" "0 < w" "w \<le> n - got"
      using assms(1) [OF ne, of k] by auto
    have "writeBlock_loop wr buf n k got out =
        writeBlock_loop wr buf n (k + 1) (got + w) (out @ take w (drop got buf))"
      using w False by (subst writeBlock_loop.simps) simp
    also have "\<dots> = Some (Inr ((out @ take w (drop got buf)) @ take (n - (got + w)) (drop (got + w) buf)))"
      using w less.prems False by (intro less.hyps) auto
    also have "(out @ take w (drop got buf)) @ take (n - (got + w)) (drop (got + w) buf) = out @ ?bs"
      using w take_add [of w "n - (got + w)" "drop got buf"] by (simp add: add.commute)
    finally show ?thesis .
  qed
qed

section \<open>Name lookup\<close>

lemma lookup_attempts_unfold:
  "lookup_attempts gai 0 (Inl e) =
     (case gai 0 of Inr a \<Rightarrow> (Inr a, 1) | Inl _ \<Rightarrow>
      case gai 1 of Inr a \<Rightarrow> (Inr a, 2) | Inl _ \<Rightarrow> (gai 2, 3))"
  by (simp add: lookup_attempts.simps numeral_2_eq_2 split: sum.splits)


lemma nsLookUp_attempts:
  "nsLookUp gai ntop strerror =
     (case gai 0 of Inr a \<Rightarrow> Inr (ntop a) | Inl _ \<Rightarrow>
      case gai 1 of Inr a \<Rightarrow> Inr (ntop a) | Inl _ \<Rightarrow>
      case gai 2 of Inr a \<Rightarrow> Inr (ntop a) | Inl e \<Rightarrow> Inl (Fatal (''DNS error: '' @ strerror e)))"
  by (simp add: nsLookUp_def lookup_attempts_unfold numeral_2_eq_2 split: sum.splits)

section \<open>Properties\<close>

text \<open>
  C24. A block survives the transfer. If every \<open>write\<close> takes at least one byte and every \<open>read\<close> delivers
  between one and as many bytes as it was asked for, both in pieces of any size, then \<open>writeBlock\<close>
  returns having written exactly the first \<open>n\<close> bytes of its buffer, and \<open>readBlock\<close> on a descriptor that
  delivers the written bytes in order returns with them in the first \<open>n\<close> places of its own buffer, the
  rest of which is unchanged.
\<close>

theorem block_transfer:
  assumes "\<And>k bs. bs \<noteq> [] \<Longrightarrow> \<exists>w. wr k bs = Some w \<and> 0 < w \<and> w \<le> length bs"
    and "\<And>k m. 0 < m \<Longrightarrow> \<exists>bs. rd k m = Some bs \<and> 0 < length bs \<and> length bs \<le> m"
    and "\<And>out cs. writeBlock wr buf n = Some (Inr out) \<Longrightarrow> read_chunks rd 0 n cs \<Longrightarrow> concat cs = out"
    and "n \<le> length buf" "n \<le> length buf'"
  shows "writeBlock wr buf n = Some (Inr (take n buf)) \<and>
    readBlock rd buf' n = Some (Inr (take n buf @ drop n buf'))"
proof -
  have w: "writeBlock wr buf n = Some (Inr (take n buf))"
    using writeBlock_loop_writes [where wr = wr and got = 0 and n = n and buf = buf and k = 0 and out = "[]"] assms(1,4) by (simp add: writeBlock_def)
  obtain cs where cs: "read_chunks rd 0 n cs" using read_chunks_exists [of rd 0 n] assms(2) by blast
  then have "readBlock rd buf' n = Some (Inr (overwrite buf' 0 (concat cs)))"
    using readBlock_loop_chunks [of rd 0 n 0 cs buf'] assms(5) by (simp add: readBlock_def)
  moreover have "concat cs = take n buf" using assms(3) [OF w cs] .
  ultimately show ?thesis using w read_chunks_length [OF cs] assms(4) by (simp add: overwrite_def)
qed

lemma read_chunks_bytes:
  assumes "read_chunks (\<lambda>k m. Some [s ! k]) k n cs" "k + n \<le> length s"
  shows "concat cs = take n (drop k s)"
  using assms
proof (induction cs arbitrary: k n)
  case (Cons c cs)
  then have "0 < n" "c = [s ! k]" "read_chunks (\<lambda>k m. Some [s ! k]) (k + 1) (n - 1) cs" by auto
  then show ?case using Cons.IH [of "k + 1" "n - 1"] Cons.prems(2)
    by (cases n) (auto simp: Cons_nth_drop_Suc [symmetric])
qed simp

theorem block_transfer_witness:
  "writeBlock (\<lambda>_ bs. Some (min 2 (length bs))) [1, 2, 3, 4] 3 = Some (Inr [1, 2, 3]) \<and>
   readBlock (\<lambda>k m. Some [[1, 2, 3] ! k]) [9, 9, 9, 9] 3 = Some (Inr [1, 2, 3, 9])"
proof -
  let ?wr = "\<lambda>(_ :: nat) (bs :: byte list). Some (min 2 (length bs))"
  have w: "\<exists>w. ?wr k bs = Some w \<and> 0 < w \<and> w \<le> length bs" if "bs \<noteq> []" for k bs
    using that by (cases bs) auto
  have "writeBlock ?wr [1, 2, 3, 4] 3 = Some (Inr [1, 2, 3])"
    using writeBlock_loop_writes [where wr = ?wr and got = 0 and n = 3 and buf = "[1, 2, 3, 4]" and k = 0 and out = "[]"] w by (simp add: writeBlock_def numeral_eq_Suc)
  then have "concat cs = out" if "writeBlock ?wr [1, 2, 3, 4] 3 = Some (Inr out)"
    "read_chunks (\<lambda>k m. Some [[1, 2, 3] ! k]) 0 3 cs" for out cs
    using that read_chunks_bytes [of "[1, 2, 3]" 0 3 cs] by simp
  from block_transfer [of ?wr "\<lambda>k m. Some [[1, 2, 3] ! k]" "[1, 2, 3, 4]" 3 "[9, 9, 9, 9]", OF w _ this]
  show ?thesis by (simp add: numeral_eq_Suc)
qed

text \<open>
  C39. \<open>readBlock\<close> does not return at end of file: when \<open>read\<close> keeps answering zero bytes, a call for a
  non-empty block loops forever instead of reporting an error.
\<close>

theorem readBlock_spins_at_eof:
  assumes "\<And>k m. rd k m = Some []" "0 < n"
  shows "readBlock rd buf n = None"
proof (cases "readBlock rd buf n")
  case (Some r)
  then have "0 = n" using readBlock_loop_eof [of rd buf n 0 0 r] assms(1) by (simp add: readBlock_def)
  then show ?thesis using assms(2) by simp
qed

theorem readBlock_spins_at_eof_witness: "readBlock (\<lambda>_ _. Some []) [0, 0] 2 = None"
  by (rule readBlock_spins_at_eof) simp_all

text \<open>
  C37. Configurations survive a file. With a JSON printer and parser that agree on \<open>object\<close>, a write
  that succeeds and a readable file, \<open>readDynamicFromFile\<close> after \<open>writeDynamicToFile\<close> returns the
  object, and what any other file holds is as before; a failed write ends the program.
\<close>

theorem dynamic_file_roundtrip:
  assumes "parseJson (toJson object) = Inr object" "is_readable filename"
  shows "(os filename (toJson object) = Written \<longrightarrow>
      (\<exists>fs'. writeDynamicToFile toJson os filename object fs = Inr fs' \<and>
         readDynamicFromFile parseJson is_readable filename fs' = Inr object \<and>
         (\<forall>other. other \<noteq> filename \<longrightarrow>
            readDynamicFromFile parseJson is_readable other fs' = readDynamicFromFile parseJson is_readable other fs))) \<and>
    (os filename (toJson object) \<noteq> Written \<longrightarrow>
      (\<exists>msg. writeDynamicToFile toJson os filename object fs = Inl (Fatal msg)))"
  using assms
  by (auto simp: writeDynamicToFile_def writeStringToFile_def readDynamicFromFile_def readFileToString_def
      split: write_outcome.splits)

theorem dynamic_file_roundtrip_witness:
  "\<exists>fs'. writeDynamicToFile (\<lambda>j. j) (\<lambda>_ _. Written) ''out'' ''{}'' Map.empty = Inr fs' \<and>
     readDynamicFromFile Inr (\<lambda>_. True) ''out'' fs' = Inr ''{}''"
  using dynamic_file_roundtrip [where parseJson = Inr and toJson = "\<lambda>j. j" and object = "''{}''" and
      is_readable = "\<lambda>_. True" and filename = "''out''" and os = "\<lambda>_ _. Written" and fs = Map.empty] by auto

end
