(* ===== verification/Scheduler.thy ===== *)
theory Scheduler
  imports Flags Event Notification_Queue Util
begin

text \<open>
  \<open>Scheduler.h\<close> and \<open>Scheduler.cpp\<close>: the component that decides when a request is sent. Its state
  is the record \<open>scheduler\<close>, with the fields of the class; the public operations are functions on
  it. The thread's body \<open>loop()\<close> is the function \<open>loop_step\<close> on a program counter, the local
  variables and the object: one step per access to the members that other threads also use
  (\<open>state_\<close>, \<open>rps_\<close>, \<open>queues_\<close>) and per poll of the clock, so that the other threads can be
  interleaved between any two of them.

  The clock, the uniform draws of the random engine and the logarithm of the C library are the
  arguments \<open>env_clock\<close>, \<open>env_draw\<close> and \<open>env_log\<close>; the queues are the interface of
  \<open>Notification_Queue\<close> and event payloads that of \<open>Event\<close>.
\<close>

section \<open>State and public operations\<close>

datatype RunState = RUNNING | PAUSED | STOPPING

datatype thread_handle = No_thread | Joinable | Joined

record 'q scheduler =
  sch_logging_threshold :: uint32
  sch_next :: uint32
  sch_rps :: uint32
  sch_max_outstanding_requests :: uint32
  sch_logged :: "uint64 list"
  sch_queues :: "'q list"
  sch_state :: RunState
  sch_thread :: thread_handle
  sch_future_retrieved :: bool
  sch_promise_fulfilled :: bool

definition initial_run_state :: "flags \<Rightarrow> RunState" where
  "initial_run_state F = (if FLAGS_wait_for_runner_ready F then PAUSED else RUNNING)"

definition Scheduler4 ::
  "flags \<Rightarrow> ('q, 'd event) queue_ops \<Rightarrow> uint32 \<Rightarrow> uint32 \<Rightarrow> uint32 \<Rightarrow> uint32 \<Rightarrow> 'q scheduler" where
  "Scheduler4 F Q rps number_of_workers max_outstanding_requests logging_threshold = \<lparr>
     sch_logging_threshold = logging_threshold,
     sch_next = 0,
     sch_rps = rps,
     sch_max_outstanding_requests = max_outstanding_requests,
     sch_logged = replicate (unat number_of_workers) 1,
     sch_queues = replicate (unat number_of_workers) (q_new Q),
     sch_state = initial_run_state F,
     sch_thread = No_thread,
     sch_future_retrieved = False,
     sch_promise_fulfilled = False\<rparr>"

definition Scheduler3 ::
  "flags \<Rightarrow> ('q, 'd event) queue_ops \<Rightarrow> uint32 \<Rightarrow> uint32 \<Rightarrow> uint32 \<Rightarrow> 'q scheduler" where
  "Scheduler3 F Q rps number_of_workers logging_threshold =
     Scheduler4 F Q rps number_of_workers 0 logging_threshold"

definition compare_exchange_strong :: "RunState \<Rightarrow> RunState \<Rightarrow> 'q scheduler \<Rightarrow> 'q scheduler" where
  "compare_exchange_strong expected desired s =
     (if sch_state s = expected then s\<lparr>sch_state := desired\<rparr> else s)"

text \<open>
  \<open>run\<close> replaces the thread handle and hands out the future of the promise. Replacing a handle
  that is still joinable terminates the process; a future can be taken once.
\<close>

definition run :: "'q scheduler \<Rightarrow> 'q scheduler res" where
  "run s =
     (if sch_thread s = Joinable then Inl Aborted
      else if sch_future_retrieved s then Inl (Thrown ''FutureAlreadyRetrieved'')
      else Inr (s\<lparr>sch_thread := Joinable, sch_future_retrieved := True\<rparr>))"

definition pause :: "'q scheduler \<Rightarrow> 'q scheduler" where
  "pause s = compare_exchange_strong RUNNING PAUSED s"

definition isRunning :: "'q scheduler \<Rightarrow> bool" where
  "isRunning s \<longleftrightarrow> sch_state s = RUNNING"

definition resume :: "'q scheduler \<Rightarrow> bool \<times> 'q scheduler" where
  "resume s = (let s' = compare_exchange_strong PAUSED RUNNING s in (sch_state s' = RUNNING, s'))"

definition message_worker :: "('q, 'd event) queue_ops \<Rightarrow> 'd event \<Rightarrow> nat \<Rightarrow> 'q scheduler \<Rightarrow> 'q scheduler" where
  "message_worker Q e i s = s\<lparr>sch_queues := (sch_queues s)[i := q_putMessage Q e (sch_queues s ! i)]\<rparr>"

definition messageAllWorkers :: "('q, 'd event) queue_ops \<Rightarrow> 'd event \<Rightarrow> 'q scheduler \<Rightarrow> 'q scheduler" where
  "messageAllWorkers Q e s = fold (message_worker Q e) [0..<length (sch_queues s)] s"

definition setPhase ::
  "flags \<Rightarrow> ('q, 'd event) queue_ops \<Rightarrow> 'd dynamic_ops \<Rightarrow> string \<Rightarrow> 'q scheduler \<Rightarrow> 'q scheduler res" where
  "setPhase F Q D phase_name s =
     (if FLAGS_wait_for_runner_ready F \<and> sch_state s \<noteq> PAUSED
      then Inl (Check_failed ''state_ == PAUSED'')
      else Inr (messageAllWorkers Q (Event_with SET_PHASE (dyn_of_string D phase_name)) s))"

definition getMaxOutstandingRequests :: "'q scheduler \<Rightarrow> int32" where
  "getMaxOutstandingRequests s = uint32_to_int32 (sch_max_outstanding_requests s)"

definition setMaxOutstandingRequests ::
  "('q, 'd event) queue_ops \<Rightarrow> 'd dynamic_ops \<Rightarrow> int32 \<Rightarrow> 'q scheduler \<Rightarrow> 'q scheduler" where
  "setMaxOutstandingRequests Q D max_outstanding_requests s =
     (let s' = s\<lparr>sch_max_outstanding_requests := int32_to_uint32 max_outstanding_requests\<rparr>
      in messageAllWorkers Q
           (Event_with SET_MAX_OUTSTANDING (dyn_of_int D (uint (sch_max_outstanding_requests s')))) s')"

definition stop :: "'q scheduler \<Rightarrow> 'q scheduler" where
  "stop s = s\<lparr>sch_state := STOPPING\<rparr>"

definition join :: "'q scheduler \<Rightarrow> 'q scheduler res" where
  "join s =
     (if sch_state s \<noteq> STOPPING then Inl (Check_failed ''state_ == STOPPING'')
      else case sch_thread s of
             No_thread \<Rightarrow> Inl (Undefined Null_dereference)
           | Joinable \<Rightarrow> Inr (s\<lparr>sch_thread := Joined\<rparr>)
           | Joined \<Rightarrow> Inl (Thrown ''std::system_error''))"

definition getWorkerQueue :: "uint32 \<Rightarrow> 'q scheduler \<Rightarrow> 'q res" where
  "getWorkerQueue i s = vec_at (sch_queues s) (unat i)"

definition getRps :: "'q scheduler \<Rightarrow> int32" where
  "getRps s = uint32_to_int32 (sch_rps s)"

definition setRps :: "int32 \<Rightarrow> 'q scheduler \<Rightarrow> 'q scheduler" where
  "setRps rps s = s\<lparr>sch_rps := int32_to_uint32 rps\<rparr>"

section \<open>Pacing\<close>

definition randomExponentialInterval :: "(double \<Rightarrow> double) \<Rightarrow> double \<Rightarrow> double \<Rightarrow> double" where
  "randomExponentialInterval libm_log u mean = - libm_log (std_max u (double_of (1 / 1000000000))) * mean"

text \<open>\<open>int64_t interval_ns = 1.0 / rps * k_ns_per_s\<close>\<close>

definition interval_ns_of :: "int32 \<Rightarrow> int64 res" where
  "interval_ns_of rps = double_to_int64 (double_of 1 / double_of_int rps * double_of_int k_ns_per_s)"

text \<open>\<open>waitNs\<close>, one poll: does the spin loop that began at \<open>start\<close> go on?\<close>

definition waitNs_poll :: "clock \<Rightarrow> nat \<Rightarrow> int64 \<Rightarrow> int64 \<Rightarrow> bool res" where
  "waitNs_poll clk t start ns =
     res_bind (nowNs clk t) (\<lambda>now. res_map (\<lambda>d. d < ns) (check_int64 (now - start)))"

section \<open>The thread\<close>

record ('q, 'd) sched_env =
  env_queue :: "('q, 'd event) queue_ops"
  env_dynamic :: "'d dynamic_ops"
  env_clock :: clock
  env_draw :: "nat \<Rightarrow> double"
  env_log :: "double \<Rightarrow> double"

text \<open>The environment with the list queue and the tagged union, for runs on concrete inputs.\<close>

definition list_env ::
  "clock \<Rightarrow> (nat \<Rightarrow> double) \<Rightarrow> (double \<Rightarrow> double) \<Rightarrow> (dynamic_value event list, dynamic_value) sched_env" where
  "list_env clk draws libm_log = \<lparr>env_queue = list_queue, env_dynamic = dynamic_value_ops,
     env_clock = clk, env_draw = draws, env_log = libm_log\<rparr>"

record loop_locals =
  lp_rps :: int32
  lp_interval_ns :: int64
  lp_a :: int64
  lp_b :: int64
  lp_budget :: int64
  lp_ticks :: nat
  lp_draws :: nat

datatype loop_pc =
    Loop_reset nat
  | Loop_init
  | Loop_while
  | Loop_body
  | Loop_wait int64 int64
  | Loop_woken
  | Loop_put
  | Loop_log
  | Loop_next
  | Loop_rps
  | Loop_paused
  | Loop_paused_wait int64
  | Loop_test
  | Loop_stop nat
  | Loop_promise
  | Loop_exit

type_synonym 'q loop_state = "loop_pc \<times> loop_locals \<times> 'q scheduler"

definition initial_locals :: loop_locals where
  "initial_locals = \<lparr>lp_rps = 0, lp_interval_ns = 0, lp_a = 0, lp_b = 0, lp_budget = 0,
     lp_ticks = 0, lp_draws = 0\<rparr>"

definition draw_interval :: "('q, 'd) sched_env \<Rightarrow> loop_locals \<Rightarrow> int64 \<Rightarrow> double" where
  "draw_interval E l interval_ns =
     randomExponentialInterval (env_log E) (env_draw E (lp_draws l)) (double_of_int interval_ns)"

definition step_reset :: "('q, 'd) sched_env \<Rightarrow> nat \<Rightarrow> loop_locals \<Rightarrow> 'q scheduler \<Rightarrow> 'q loop_state res" where
  "step_reset E i l s =
     (if i < length (sch_queues s)
      then Inr (Loop_reset (i + 1), l, message_worker (env_queue E) (Event_of (env_dynamic E) RESET) i s)
      else Inr (Loop_init, l, s))"

definition step_init :: "('q, 'd) sched_env \<Rightarrow> loop_locals \<Rightarrow> 'q scheduler \<Rightarrow> 'q loop_state res" where
  "step_init E l s =
     (let rps = uint32_to_int32 (sch_rps s)
      in res_bind (interval_ns_of rps) (\<lambda>interval_ns.
           res_bind (double_to_int64 (draw_interval E l interval_ns)) (\<lambda>budget.
             Inr (Loop_while,
                  l\<lparr>lp_rps := rps, lp_interval_ns := interval_ns, lp_a := 0, lp_b := 0,
                    lp_budget := budget, lp_draws := lp_draws l + 1\<rparr>,
                  s\<lparr>sch_next := 0\<rparr>))))"

text \<open>\<open>b = nowNs(); if (a) budget -= (b - a);\<close> and the start of \<open>waitNs(std::max(budget, 0L))\<close>\<close>

definition step_body :: "('q, 'd) sched_env \<Rightarrow> loop_locals \<Rightarrow> 'q scheduler \<Rightarrow> 'q loop_state res" where
  "step_body E l s =
     res_bind (nowNs (env_clock E) (lp_ticks l)) (\<lambda>b.
     res_bind (if lp_a l \<noteq> 0
               then res_bind (check_int64 (b - lp_a l)) (\<lambda>d. check_int64 (lp_budget l - d))
               else Inr (lp_budget l)) (\<lambda>budget.
     res_bind (nowNs (env_clock E) (lp_ticks l + 1)) (\<lambda>start.
       Inr (Loop_wait start (max budget 0),
            l\<lparr>lp_b := b, lp_budget := budget, lp_ticks := lp_ticks l + 2\<rparr>, s))))"

definition step_wait ::
  "('q, 'd) sched_env \<Rightarrow> int64 \<Rightarrow> int64 \<Rightarrow> loop_locals \<Rightarrow> 'q scheduler \<Rightarrow> 'q loop_state res" where
  "step_wait E start ns l s =
     res_bind (waitNs_poll (env_clock E) (lp_ticks l) start ns) (\<lambda>again.
       Inr (if again then Loop_wait start ns else Loop_woken, l\<lparr>lp_ticks := lp_ticks l + 1\<rparr>, s))"

text \<open>\<open>a = nowNs(); budget += randomExponentialInterval(interval_ns) - (a - b);\<close>\<close>

definition step_woken :: "('q, 'd) sched_env \<Rightarrow> loop_locals \<Rightarrow> 'q scheduler \<Rightarrow> 'q loop_state res" where
  "step_woken E l s =
     res_bind (nowNs (env_clock E) (lp_ticks l)) (\<lambda>a.
     res_bind (check_int64 (a - lp_b l)) (\<lambda>slept.
     res_bind (double_to_int64 (double_of_int (lp_budget l) +
                 (draw_interval E l (lp_interval_ns l) - double_of_int slept))) (\<lambda>budget.
       Inr (Loop_put,
            l\<lparr>lp_a := a, lp_budget := budget, lp_ticks := lp_ticks l + 1, lp_draws := lp_draws l + 1\<rparr>,
            s))))"

definition step_put :: "('q, 'd) sched_env \<Rightarrow> loop_locals \<Rightarrow> 'q scheduler \<Rightarrow> 'q loop_state res" where
  "step_put E l s =
     res_bind (vec_at (sch_queues s) (unat (sch_next s))) (\<lambda>_.
       Inr (Loop_log, l,
            message_worker (env_queue E) (Event_of (env_dynamic E) SEND_REQUEST) (unat (sch_next s)) s))"

definition step_log :: "('q, 'd) sched_env \<Rightarrow> loop_locals \<Rightarrow> 'q scheduler \<Rightarrow> 'q loop_state res" where
  "step_log E l s =
     res_bind (vec_at (sch_queues s) (unat (sch_next s))) (\<lambda>q.
     res_bind (vec_at (sch_logged s) (unat (sch_next s))) (\<lambda>factor.
       Inr (Loop_next, l,
            if unat ((ucast (sch_logging_threshold s) :: uint64) * factor) < q_size (env_queue E) q
            then s\<lparr>sch_logged := (sch_logged s)[unat (sch_next s) := factor * 2]\<rparr> else s)))"

definition step_next :: "loop_locals \<Rightarrow> 'q scheduler \<Rightarrow> 'q loop_state res" where
  "step_next l s =
     (let n = sch_next s + 1
      in Inr (Loop_rps, l, s\<lparr>sch_next := (if unat n = length (sch_queues s) then 0 else n)\<rparr>))"

definition step_rps :: "loop_locals \<Rightarrow> 'q scheduler \<Rightarrow> 'q loop_state res" where
  "step_rps l s =
     (if int32_to_uint32 (lp_rps l) \<noteq> sch_rps s
      then res_bind (interval_ns_of (uint32_to_int32 (sch_rps s))) (\<lambda>interval_ns.
             Inr (Loop_while,
                  l\<lparr>lp_rps := uint32_to_int32 (sch_rps s), lp_interval_ns := interval_ns\<rparr>, s))
      else Inr (Loop_while, l, s))"

definition step_paused :: "('q, 'd) sched_env \<Rightarrow> loop_locals \<Rightarrow> 'q scheduler \<Rightarrow> 'q loop_state res" where
  "step_paused E l s =
     (if sch_state s = PAUSED
      then res_bind (nowNs (env_clock E) (lp_ticks l)) (\<lambda>start.
             Inr (Loop_paused_wait start, l\<lparr>lp_ticks := lp_ticks l + 1\<rparr>, s))
      else Inr (Loop_test, l, s))"

definition step_paused_wait ::
  "('q, 'd) sched_env \<Rightarrow> int64 \<Rightarrow> loop_locals \<Rightarrow> 'q scheduler \<Rightarrow> 'q loop_state res" where
  "step_paused_wait E start l s =
     res_bind (waitNs_poll (env_clock E) (lp_ticks l) start 1000) (\<lambda>again.
       Inr (if again then Loop_paused_wait start else Loop_paused, l\<lparr>lp_ticks := lp_ticks l + 1\<rparr>, s))"

definition step_stop :: "('q, 'd) sched_env \<Rightarrow> nat \<Rightarrow> loop_locals \<Rightarrow> 'q scheduler \<Rightarrow> 'q loop_state res" where
  "step_stop E i l s =
     (if i < length (sch_queues s)
      then Inr (Loop_stop (i + 1), l, message_worker (env_queue E) (Event_of (env_dynamic E) STOP) i s)
      else Inr (Loop_promise, l, s))"

definition step_promise :: "loop_locals \<Rightarrow> 'q scheduler \<Rightarrow> 'q loop_state res" where
  "step_promise l s =
     (if sch_promise_fulfilled s then Inl (Thrown ''PromiseAlreadySatisfied'')
      else Inr (Loop_exit, l, s\<lparr>sch_promise_fulfilled := True\<rparr>))"

text \<open>\<open>loop()\<close>: the statements in the order of the source, each continuing at the next.\<close>

fun loop_step :: "('q, 'd) sched_env \<Rightarrow> 'q loop_state \<Rightarrow> 'q loop_state res" where
  "loop_step E (Loop_reset i, l, s) = step_reset E i l s"
| "loop_step E (Loop_init, l, s) = step_init E l s"
| "loop_step E (Loop_while, l, s) =
     Inr (if sch_state s = RUNNING then Loop_body else Loop_paused, l, s)"
| "loop_step E (Loop_body, l, s) = step_body E l s"
| "loop_step E (Loop_wait start ns, l, s) = step_wait E start ns l s"
| "loop_step E (Loop_woken, l, s) = step_woken E l s"
| "loop_step E (Loop_put, l, s) = step_put E l s"
| "loop_step E (Loop_log, l, s) = step_log E l s"
| "loop_step E (Loop_next, l, s) = step_next l s"
| "loop_step E (Loop_rps, l, s) = step_rps l s"
| "loop_step E (Loop_paused, l, s) = step_paused E l s"
| "loop_step E (Loop_paused_wait start, l, s) = step_paused_wait E start l s"
| "loop_step E (Loop_test, l, s) =
     Inr (if sch_state s \<noteq> STOPPING then Loop_reset 0 else Loop_stop 0, l, s)"
| "loop_step E (Loop_stop i, l, s) = step_stop E i l s"
| "loop_step E (Loop_promise, l, s) = step_promise l s"
| "loop_step E (Loop_exit, l, s) = Inr (Loop_exit, l, s)"

text \<open>The thread on its own: \<open>n\<close> steps, and the state in which \<open>run\<close> starts it.\<close>

fun loop_steps :: "('q, 'd) sched_env \<Rightarrow> nat \<Rightarrow> 'q loop_state \<Rightarrow> 'q loop_state res" where
  "loop_steps E 0 x = Inr x"
| "loop_steps E (Suc n) x = res_bind (loop_step E x) (loop_steps E n)"

definition loop_start :: "'q scheduler \<Rightarrow> 'q loop_state" where
  "loop_start s = (Loop_reset 0, initial_locals, s)"

lemma list_env_simps [simp]:
  "env_queue (list_env clk draws libm_log) = list_queue"
  "env_dynamic (list_env clk draws libm_log) = dynamic_value_ops"
  "env_clock (list_env clk draws libm_log) = clk"
  "env_draw (list_env clk draws libm_log) = draws"
  "env_log (list_env clk draws libm_log) = libm_log"
  by (simp_all add: list_env_def)

section \<open>Broadcasts\<close>

lemma message_worker_simps [simp]:
  "sch_logging_threshold (message_worker Q e i s) = sch_logging_threshold s"
  "sch_next (message_worker Q e i s) = sch_next s"
  "sch_rps (message_worker Q e i s) = sch_rps s"
  "sch_max_outstanding_requests (message_worker Q e i s) = sch_max_outstanding_requests s"
  "sch_logged (message_worker Q e i s) = sch_logged s"
  "sch_state (message_worker Q e i s) = sch_state s"
  "sch_thread (message_worker Q e i s) = sch_thread s"
  "sch_future_retrieved (message_worker Q e i s) = sch_future_retrieved s"
  "sch_promise_fulfilled (message_worker Q e i s) = sch_promise_fulfilled s"
  "length (sch_queues (message_worker Q e i s)) = length (sch_queues s)"
  by (simp_all add: message_worker_def)

lemma message_worker_queues:
  "sch_queues (message_worker Q e i s) = (sch_queues s)[i := q_putMessage Q e (sch_queues s ! i)]"
  by (simp add: message_worker_def)

lemma message_worker_nth:
  "j < length (sch_queues s) \<Longrightarrow>
     sch_queues (message_worker Q e i s) ! j =
       (if j = i then q_putMessage Q e (sch_queues s ! j) else sch_queues s ! j)"
  by (simp add: message_worker_def nth_list_update)

lemma fold_message_worker:
  assumes "i \<le> length (sch_queues s)"
  shows "fold (message_worker Q e) [0..<i] s =
    s\<lparr>sch_queues := map (q_putMessage Q e) (take i (sch_queues s)) @ drop i (sch_queues s)\<rparr>"
  using assms
proof (induction i)
  case (Suc i)
  let ?qs = "sch_queues s"
  have i: "i < length ?qs" using Suc.prems by simp
  have "(map (q_putMessage Q e) (take i ?qs) @ drop i ?qs)[i := q_putMessage Q e (?qs ! i)] =
      map (q_putMessage Q e) (take (Suc i) ?qs) @ drop (Suc i) ?qs"
    using i by (simp add: take_Suc_conv_app_nth list_update_append Cons_nth_drop_Suc [symmetric])
  then show ?case
    using Suc i by (simp add: message_worker_def nth_append min_def)
qed simp

lemma messageAllWorkers_eq:
  "messageAllWorkers Q e s = s\<lparr>sch_queues := map (q_putMessage Q e) (sch_queues s)\<rparr>"
  unfolding messageAllWorkers_def by (simp add: fold_message_worker)

lemma messageAllWorkers_simps [simp]:
  "sch_queues (messageAllWorkers Q e s) = map (q_putMessage Q e) (sch_queues s)"
  "sch_state (messageAllWorkers Q e s) = sch_state s"
  "sch_rps (messageAllWorkers Q e s) = sch_rps s"
  "sch_max_outstanding_requests (messageAllWorkers Q e s) = sch_max_outstanding_requests s"
  by (simp_all add: messageAllWorkers_eq)

lemma loop_steps_add: "loop_steps E (m + n) x = res_bind (loop_steps E m x) (loop_steps E n)"
  by (induction m arbitrary: x) (simp_all add: res_bind_assoc cong: res_bind_cong)

text \<open>A broadcast of the thread (the pc \<open>c i\<close> is about to message worker \<open>i\<close>), run to its end.\<close>

lemma loop_steps_broadcast:
  assumes "\<And>i l s. i < length (sch_queues s) \<Longrightarrow>
      loop_step E (c i, l, s) = Inr (c (i + 1), l, message_worker (env_queue E) e i s)"
    and "i \<le> length (sch_queues s)"
  shows "loop_steps E (length (sch_queues s) - i) (c i, l, s) =
    Inr (c (length (sch_queues s)), l, fold (message_worker (env_queue E) e) [i..<length (sch_queues s)] s)"
  using assms(2)
proof (induction "length (sch_queues s) - i" arbitrary: i s)
  case (Suc n)
  let ?s = "message_worker (env_queue E) e i s"
  from Suc have i: "i < length (sch_queues s)" and n: "n = length (sch_queues ?s) - Suc i" by auto
  have "loop_steps E (length (sch_queues ?s) - Suc i) (c (Suc i), l, ?s) =
    Inr (c (length (sch_queues ?s)), l, fold (message_worker (env_queue E) e) [Suc i..<length (sch_queues ?s)] ?s)"
    using n i by (intro Suc.hyps) simp_all
  then show ?case
    using i n by (simp add: assms(1) upt_conv_Cons flip: Suc.hyps(2))
qed simp

lemma loop_steps_stop:
  "loop_steps E (length (sch_queues s)) (Loop_stop 0, l, s) =
     Inr (Loop_stop (length (sch_queues s)), l,
       messageAllWorkers (env_queue E) (Event_of (env_dynamic E) STOP) s)"
  using loop_steps_broadcast [of E Loop_stop "Event_of (env_dynamic E) STOP" 0 s l]
  by (simp add: step_stop_def messageAllWorkers_def)

lemma loop_steps_reset:
  "loop_steps E (length (sch_queues s)) (Loop_reset 0, l, s) =
     Inr (Loop_reset (length (sch_queues s)), l,
       messageAllWorkers (env_queue E) (Event_of (env_dynamic E) RESET) s)"
  using loop_steps_broadcast [of E Loop_reset "Event_of (env_dynamic E) RESET" 0 s l]
  by (simp add: step_reset_def messageAllWorkers_def)

text \<open>
  Once the scheduler is stopping, the loop head leads to the end of the thread in a number of
  steps that depends only on the number of workers.
\<close>

lemma loop_steps_shutdown:
  assumes "sch_state s = STOPPING" "\<not> sch_promise_fulfilled s"
  shows "loop_steps E (length (sch_queues s) + 5) (Loop_while, l, s) =
    Inr (Loop_exit, l,
      (messageAllWorkers (env_queue E) (Event_of (env_dynamic E) STOP) s)\<lparr>sch_promise_fulfilled := True\<rparr>)"
proof -
  let ?n = "length (sch_queues s)"
  let ?s = "messageAllWorkers (env_queue E) (Event_of (env_dynamic E) STOP) s"
  have a: "loop_steps E 3 (Loop_while, l, s) = Inr (Loop_stop 0, l, s)"
    using assms(1) by (simp add: numeral_3_eq_3 step_paused_def)
  have c: "loop_steps E 2 (Loop_stop ?n, l, ?s) = Inr (Loop_exit, l, ?s\<lparr>sch_promise_fulfilled := True\<rparr>)"
    using assms(2) by (simp add: numeral_2_eq_2 step_stop_def step_promise_def messageAllWorkers_eq)
  have "loop_steps E (?n + 5) (Loop_while, l, s) = loop_steps E (3 + (?n + 2)) (Loop_while, l, s)"
    by (simp only: add.commute add.left_commute numeral_plus_numeral add_num_simps)
  also have "\<dots> = loop_steps E (?n + 2) (Loop_stop 0, l, s)"
    unfolding loop_steps_add [of E 3] a by simp
  also have "\<dots> = loop_steps E 2 (Loop_stop ?n, l, ?s)"
    unfolding loop_steps_add loop_steps_stop by simp
  finally show ?thesis using c by simp
qed

end
