(* ===== verification/Workload.thy ===== *)
theory Workload
  imports Flags Decimal
begin

text \<open>
  \<open>Workload.h\<close> and its two specialisations, \<open>services/memcached/Workload.h\<close> and
  \<open>services/sleep/Workload.h\<close>, with the request classes of both services. A workload is what a
  worker asks for the next request. The operations that a worker calls are the record
  \<open>workload_ops\<close>; the locale \<open>workload\<close> is what the worker relies on, and it is interpreted on both
  services.
\<close>

section \<open>The interface\<close>

text \<open>
  \<open>wl_getNextRequest\<close> returns \<open>None\<close> for the null request by which a workload asks the worker to
  terminate. The promise and future of the tuple carry no state of the workload and are modelled
  in the worker.
\<close>

record ('w, 'r) workload_ops =
  wl_reset :: "'w \<Rightarrow> 'w"
  wl_setPhase :: "string \<Rightarrow> 'w \<Rightarrow> 'w"
  wl_getNextRequest :: "'w \<Rightarrow> ('r option \<times> 'w) res"

record workload_base =
  wl_phase :: string

definition WorkloadBase_setPhase :: "string \<Rightarrow> 'a workload_base_scheme \<Rightarrow> 'a workload_base_scheme" where
  "WorkloadBase_setPhase phase w = w\<lparr>wl_phase := phase\<rparr>"

definition WorkloadBase_getPhase :: "'a workload_base_scheme \<Rightarrow> string" where
  "WorkloadBase_getPhase w = wl_phase w"

locale workload =
  fixes W :: "('w, 'r) workload_ops"
    and wl_inv :: "'w \<Rightarrow> bool"
  assumes reset_inv: "wl_inv w \<Longrightarrow> wl_inv (wl_reset W w)"
    and setPhase_inv: "wl_inv w \<Longrightarrow> wl_inv (wl_setPhase W p w)"
    and next_inv: "wl_inv w \<Longrightarrow> \<exists>r w'. wl_getNextRequest W w = Inr (r, w') \<and> wl_inv w'"

section \<open>Memcached\<close>

datatype memcached_operation = GET | SET | DELETE

record memcached_request =
  mr_type :: memcached_operation
  mr_key :: string
  mr_value :: string

definition MemcachedRequest :: "memcached_operation \<Rightarrow> string \<Rightarrow> memcached_request" where
  "MemcachedRequest type key = \<lparr>mr_type = type, mr_key = key, mr_value = []\<rparr>"

definition setValue :: "string \<Rightarrow> memcached_request \<Rightarrow> memcached_request" where
  "setValue value r = r\<lparr>mr_value := value\<rparr>"

definition which :: "memcached_request \<Rightarrow> memcached_operation" where
  "which r = mr_type r"

datatype memcached_state = Warmup_state | Get_state

record memcached_workload = workload_base +
  mw_state :: memcached_state
  mw_index :: int32

definition Memcached_Workload :: memcached_workload where
  "Memcached_Workload = \<lparr>wl_phase = [], mw_state = Warmup_state, mw_index = 0\<rparr>"

definition memcached_reset :: "memcached_workload \<Rightarrow> memcached_workload" where
  "memcached_reset w = w\<lparr>mw_index := 0\<rparr>"

text \<open>
  The request of one call, and the state after it; \<open>number_of_keys\<close> is a 64-bit flag while the
  index is an \<open>int\<close>.
\<close>

definition memcached_request_of :: "int64 \<Rightarrow> memcached_workload \<Rightarrow> (memcached_request \<times> memcached_workload) res" where
  "memcached_request_of number_of_keys w =
     (let key = string_of_int (mw_index w)
      in case mw_state w of
           Warmup_state \<Rightarrow>
             res_bind (check_int64 (number_of_keys - 1)) (\<lambda>last.
               Inr (setValue (string_of_int (mw_index w)) (MemcachedRequest SET key),
                    if mw_index w = last then w\<lparr>mw_state := Get_state\<rparr> else w))
         | Get_state \<Rightarrow> Inr (MemcachedRequest GET key, w))"

definition memcached_getNextRequest ::
  "flags \<Rightarrow> memcached_workload \<Rightarrow> (memcached_request option \<times> memcached_workload) res" where
  "memcached_getNextRequest F w =
     (let w1 = (if mw_index w = FLAGS_number_of_keys F then w\<lparr>mw_index := 0\<rparr> else w)
      in res_bind (memcached_request_of (FLAGS_number_of_keys F) w1) (\<lambda>(request, w2).
           res_bind (check_int32 (mw_index w2 + 1)) (\<lambda>i.
             Inr (Some request, w2\<lparr>mw_index := i\<rparr>))))"

text \<open>\<open>makeConfigOutputs\<close> returns an empty object of folly, whatever the workloads.\<close>

definition memcached_makeConfigOutputs :: "'j \<Rightarrow> memcached_workload list \<Rightarrow> memcached_workload \<Rightarrow> 'j" where
  "memcached_makeConfigOutputs empty_object workloads w = empty_object"

definition memcached_ops :: "flags \<Rightarrow> (memcached_workload, memcached_request) workload_ops" where
  "memcached_ops F = \<lparr>
     wl_reset = memcached_reset,
     wl_setPhase = WorkloadBase_setPhase,
     wl_getNextRequest = memcached_getNextRequest F\<rparr>"

definition memcached_inv :: "flags \<Rightarrow> memcached_workload \<Rightarrow> bool" where
  "memcached_inv F w \<longleftrightarrow> 1 \<le> FLAGS_number_of_keys F \<and> FLAGS_number_of_keys F \<le> int32_max \<and>
     0 \<le> mw_index w \<and> mw_index w \<le> FLAGS_number_of_keys F"

section \<open>Sleep\<close>

datatype sleep_operation = SLEEP

record sleep_request =
  sr_type :: sleep_operation
  sr_sleep_time :: int64

definition SleepRequest :: "sleep_operation \<Rightarrow> int64 \<Rightarrow> sleep_request" where
  "SleepRequest type sleep_time = \<lparr>sr_type = type, sr_sleep_time = sleep_time\<rparr>"

definition Sleep_Workload :: workload_base where
  "Sleep_Workload = \<lparr>wl_phase = []\<rparr>"

definition sleep_makeConfigOutputs :: "'j \<Rightarrow> workload_base list \<Rightarrow> workload_base \<Rightarrow> 'j" where
  "sleep_makeConfigOutputs empty_object workloads w = empty_object"

definition sleep_getNextRequest :: "flags \<Rightarrow> workload_base \<Rightarrow> (sleep_request option \<times> workload_base) res" where
  "sleep_getNextRequest F w = Inr (Some (SleepRequest SLEEP (FLAGS_sleep_time F)), w)"

definition sleep_ops :: "flags \<Rightarrow> (workload_base, sleep_request) workload_ops" where
  "sleep_ops F = \<lparr>
     wl_reset = (\<lambda>w. w),
     wl_setPhase = WorkloadBase_setPhase,
     wl_getNextRequest = sleep_getNextRequest F\<rparr>"

section \<open>Both services meet the interface\<close>

lemma workload_ops_simps [simp]:
  "wl_reset (memcached_ops F) = memcached_reset"
  "wl_setPhase (memcached_ops F) = WorkloadBase_setPhase"
  "wl_getNextRequest (memcached_ops F) = memcached_getNextRequest F"
  "wl_reset (sleep_ops F) = (\<lambda>v. v)"
  "wl_setPhase (sleep_ops F) = WorkloadBase_setPhase"
  "wl_getNextRequest (sleep_ops F) = sleep_getNextRequest F"
  by (simp_all add: memcached_ops_def sleep_ops_def)

text \<open>The request that a workload at index \<open>i\<close> generates, once \<open>number_of_keys\<close> has wrapped to 0.\<close>

definition wrapped_index :: "flags \<Rightarrow> memcached_workload \<Rightarrow> int" where
  "wrapped_index F w = (if mw_index w = FLAGS_number_of_keys F then 0 else mw_index w)"

definition set_request :: "int \<Rightarrow> memcached_request" where
  "set_request i = \<lparr>mr_type = SET, mr_key = string_of_int i, mr_value = string_of_int i\<rparr>"

definition get_request :: "int \<Rightarrow> memcached_request" where
  "get_request i = \<lparr>mr_type = GET, mr_key = string_of_int i, mr_value = []\<rparr>"

lemma memcached_getNextRequest_ok:
  assumes "memcached_inv F w"
  shows "memcached_getNextRequest F w =
    Inr (Some (case mw_state w of Warmup_state \<Rightarrow> set_request (wrapped_index F w)
                                | Get_state \<Rightarrow> get_request (wrapped_index F w)),
         w\<lparr>mw_index := wrapped_index F w + 1,
           mw_state := (if wrapped_index F w = FLAGS_number_of_keys F - 1 then Get_state else mw_state w)\<rparr>)"
  using assms
  by (cases "mw_state w")
    (auto simp: memcached_getNextRequest_def memcached_request_of_def memcached_inv_def wrapped_index_def
      set_request_def get_request_def MemcachedRequest_def setValue_def Let_def int_range)

lemma wrapped_index_range:
  "memcached_inv F w \<Longrightarrow> 0 \<le> wrapped_index F w \<and> wrapped_index F w < FLAGS_number_of_keys F"
  by (auto simp: memcached_inv_def wrapped_index_def)

interpretation memcached: workload "memcached_ops F" "memcached_inv F" for F
proof unfold_locales
  fix w :: memcached_workload and p
  assume inv: "memcached_inv F w"
  then show "memcached_inv F (wl_reset (memcached_ops F) w)" "memcached_inv F (wl_setPhase (memcached_ops F) p w)"
    by (simp_all add: memcached_inv_def memcached_reset_def WorkloadBase_setPhase_def)
  show "\<exists>r w'. wl_getNextRequest (memcached_ops F) w = Inr (r, w') \<and> memcached_inv F w'"
    using wrapped_index_range [OF inv] inv
    by (simp add: memcached_getNextRequest_ok [OF inv]) (simp add: memcached_inv_def)
qed

interpretation sleep: workload "sleep_ops F" "\<lambda>_. True" for F
  by unfold_locales (auto simp: sleep_getNextRequest_def)

section \<open>Runs of a workload\<close>

text \<open>The calls a worker makes, in the order of its messages, and the requests they yield.\<close>

datatype wl_call = Next_request | Reset | Set_phase string

primrec wl_run :: "('w, 'r) workload_ops \<Rightarrow> wl_call list \<Rightarrow> 'w \<Rightarrow> ('r list \<times> 'w) res" where
  "wl_run W [] w = Inr ([], w)"
| "wl_run W (c # cs) w = (case c of
     Reset \<Rightarrow> wl_run W cs (wl_reset W w)
   | Set_phase p \<Rightarrow> wl_run W cs (wl_setPhase W p w)
   | Next_request \<Rightarrow> res_bind (wl_getNextRequest W w) (\<lambda>(r, w').
       res_map (\<lambda>(rs, w''). (case r of None \<Rightarrow> rs | Some q \<Rightarrow> q # rs, w'')) (wl_run W cs w')))"

context workload
begin

lemma run_defined: "wl_inv w \<Longrightarrow> \<exists>rs w'. wl_run W cs w = Inr (rs, w') \<and> wl_inv w'"
proof (induction cs arbitrary: w)
  case (Cons c cs)
  show ?case
  proof (cases c)
    case Next_request
    obtain r w1 where "wl_getNextRequest W w = Inr (r, w1)" "wl_inv w1" using next_inv [OF Cons.prems] by auto
    then show ?thesis using Cons.IH [of w1] Next_request by auto
  qed (use Cons reset_inv setPhase_inv in auto)
qed simp

end

section \<open>What the memcached workload asks for\<close>

text \<open>The keys that must have been written before the state can be as it is.\<close>

definition written_keys :: "flags \<Rightarrow> memcached_workload \<Rightarrow> int set" where
  "written_keys F w = (case mw_state w of
     Warmup_state \<Rightarrow> {0..<mw_index w} | Get_state \<Rightarrow> {0..<FLAGS_number_of_keys F})"

text \<open>Every GET of a list of requests reads a key that a SET before it, or one of \<open>S\<close>, wrote.\<close>

fun gets_hit :: "memcached_request set \<Rightarrow> memcached_request list \<Rightarrow> bool" where
  "gets_hit S [] \<longleftrightarrow> True"
| "gets_hit S (r # rs) \<longleftrightarrow>
     (which r = GET \<longrightarrow> (\<exists>q\<in>S. which q = SET \<and> mr_key q = mr_key r \<and> mr_value q = mr_key r)) \<and>
     gets_hit (insert r S) rs"

lemma gets_hit_split:
  "gets_hit S (us @ r # vs) \<Longrightarrow> which r = GET \<Longrightarrow>
     \<exists>q\<in>S \<union> set us. which q = SET \<and> mr_key q = mr_key r \<and> mr_value q = mr_key r"
  by (induction us arbitrary: S) fastforce+

definition memcached_warm :: "flags \<Rightarrow> memcached_workload \<Rightarrow> memcached_request set \<Rightarrow> bool" where
  "memcached_warm F w S \<longleftrightarrow> memcached_inv F w \<and> set_request ` written_keys F w \<subseteq> S \<and>
     (mw_state w = Warmup_state \<longrightarrow> mw_index w < FLAGS_number_of_keys F)"

lemma request_simps [simp]:
  "which (set_request i) = SET" "mr_key (set_request i) = string_of_int i" "mr_value (set_request i) = string_of_int i"
  "which (get_request i) = GET" "mr_key (get_request i) = string_of_int i"
  by (simp_all add: which_def set_request_def get_request_def)

lemma memcached_warm_next:
  assumes "memcached_warm F w S"
  shows "\<exists>r w'. memcached_getNextRequest F w = Inr (Some r, w') \<and> memcached_warm F w' (insert r S) \<and>
    (which r = GET \<longrightarrow> (\<exists>q\<in>S. which q = SET \<and> mr_key q = mr_key r \<and> mr_value q = mr_key r))"
proof -
  have inv: "memcached_inv F w" using assms by (simp add: memcached_warm_def)
  note range = wrapped_index_range [OF inv]
  show ?thesis
  proof (cases "mw_state w")
    case Warmup_state
    have i: "wrapped_index F w = mw_index w" and less: "mw_index w < FLAGS_number_of_keys F"
      and nn: "0 \<le> mw_index w"
      using assms inv Warmup_state by (auto simp: memcached_warm_def wrapped_index_def memcached_inv_def)
    have up: "{0..<mw_index w + 1} = insert (mw_index w) {0..<mw_index w}" using nn by auto
    have "set_request ` {0..<mw_index w + 1} \<subseteq> insert (set_request (mw_index w)) S"
      using assms Warmup_state unfolding up by (auto simp: memcached_warm_def written_keys_def)
    then show ?thesis
      using less nn Warmup_state inv unfolding memcached_getNextRequest_ok [OF inv] i
      by (cases "mw_index w = FLAGS_number_of_keys F - 1")
        (simp_all add: memcached_warm_def memcached_inv_def written_keys_def)
  next
    case Get_state
    have "set_request (wrapped_index F w) \<in> S"
      using assms range Get_state by (auto simp: memcached_warm_def written_keys_def)
    then have "\<exists>q\<in>S. which q = SET \<and> mr_key q = string_of_int (wrapped_index F w) \<and>
        mr_value q = string_of_int (wrapped_index F w)" by (intro bexI) simp_all
    then show ?thesis
      using assms range Get_state inv unfolding memcached_getNextRequest_ok [OF inv]
      by (auto simp: memcached_warm_def memcached_inv_def written_keys_def)
  qed
qed

lemma memcached_warm_reset: "memcached_warm F w S \<Longrightarrow> memcached_warm F (memcached_reset w) S"
  by (auto simp: memcached_warm_def memcached_inv_def memcached_reset_def written_keys_def
      split: memcached_state.splits)

lemma memcached_warm_setPhase: "memcached_warm F w S \<Longrightarrow> memcached_warm F (WorkloadBase_setPhase p w) S"
  by (auto simp: memcached_warm_def memcached_inv_def WorkloadBase_setPhase_def written_keys_def
      split: memcached_state.splits)

lemma memcached_run_hits:
  "memcached_warm F w S \<Longrightarrow> wl_run (memcached_ops F) cs w = Inr (rs, w') \<Longrightarrow> gets_hit S rs"
proof (induction cs arbitrary: w S rs)
  case (Cons c cs)
  show ?case
  proof (cases c)
    case Next_request
    obtain r w1 where r: "memcached_getNextRequest F w = Inr (Some r, w1)" "memcached_warm F w1 (insert r S)"
      "which r = GET \<longrightarrow> (\<exists>q\<in>S. which q = SET \<and> mr_key q = mr_key r \<and> mr_value q = mr_key r)"
      using memcached_warm_next [OF Cons.prems(1)] by blast
    then show ?thesis
      using Cons.IH [OF r(2)] Cons.prems(2) Next_request by (auto simp: res_map_eq_Inr)
  next
    case Reset
    then show ?thesis using Cons.IH [OF memcached_warm_reset [OF Cons.prems(1)]] Cons.prems(2) by simp
  next
    case (Set_phase p)
    then show ?thesis using Cons.IH [OF memcached_warm_setPhase [OF Cons.prems(1)]] Cons.prems(2) by simp
  qed
qed simp

text \<open>Without a reset: the state after \<open>n\<close> requests.\<close>

definition memcached_after :: "flags \<Rightarrow> nat \<Rightarrow> memcached_workload" where
  "memcached_after F n = \<lparr>wl_phase = [],
     mw_state = (if int n < FLAGS_number_of_keys F then Warmup_state else Get_state),
     mw_index = (if n = 0 then 0 else (int n - 1) mod FLAGS_number_of_keys F + 1)\<rparr>"

definition nth_request :: "flags \<Rightarrow> nat \<Rightarrow> memcached_request" where
  "nth_request F n = (if int n < FLAGS_number_of_keys F then set_request (int n)
     else get_request (int n mod FLAGS_number_of_keys F))"

lemma wrapped_after:
  assumes "1 \<le> FLAGS_number_of_keys F"
  shows "wrapped_index F (memcached_after F n) = int n mod FLAGS_number_of_keys F"
proof (cases "n = 0")
  case False
  let ?k = "FLAGS_number_of_keys F"
  have "int n mod ?k = ((int n - 1) mod ?k + 1) mod ?k" by (simp add: mod_simps)
  moreover have "(int n - 1) mod ?k < ?k" "0 \<le> (int n - 1) mod ?k" using assms by simp_all
  ultimately show ?thesis using False assms
    by (cases "(int n - 1) mod ?k = ?k - 1") (simp_all add: wrapped_index_def memcached_after_def)
qed (use assms in \<open>auto simp: wrapped_index_def memcached_after_def\<close>)

lemma memcached_after_step:
  assumes k: "1 \<le> FLAGS_number_of_keys F" "FLAGS_number_of_keys F \<le> int32_max"
  shows "memcached_getNextRequest F (memcached_after F n) = Inr (Some (nth_request F n), memcached_after F (Suc n))"
proof -
  let ?k = "FLAGS_number_of_keys F"
  have r: "0 \<le> (int n - 1) mod ?k" "(int n - 1) mod ?k < ?k" using k by simp_all
  then have inv: "memcached_inv F (memcached_after F n)"
    using k by (simp add: memcached_inv_def memcached_after_def del: pos_mod_bound pos_mod_sign)
  have "int n mod ?k = int n" if "int n < ?k" using that by simp
  moreover have "int n mod ?k = ?k - 1 \<longrightarrow> ?k \<le> 1 + int n"
    using zmod_le_nonneg_dividend [of "int n" ?k] by auto
  moreover have "int n < ?k \<Longrightarrow> \<not> 1 + int n < ?k \<Longrightarrow> int n mod ?k = ?k - 1" by simp
  ultimately show ?thesis
    unfolding memcached_getNextRequest_ok [OF inv] wrapped_after [OF k(1)]
    by (auto simp: nth_request_def memcached_after_def)
qed

lemma memcached_run_after:
  assumes "1 \<le> FLAGS_number_of_keys F" "FLAGS_number_of_keys F \<le> int32_max"
  shows "wl_run (memcached_ops F) (replicate n Next_request) (memcached_after F m) =
    Inr (map (nth_request F) [m..<m + n], memcached_after F (m + n))"
proof (induction n arbitrary: m)
  case (Suc n)
  have "[m..<m + Suc n] = m # [Suc m..<Suc m + n]" by (simp add: upt_conv_Cons)
  then show ?case using Suc [of "Suc m"] by (simp add: memcached_after_step [OF assms] del: upt_Suc)
qed simp

text \<open>With a number of keys that the \<open>int\<close> index never reaches, the warm-up never ends.\<close>

definition unreachable_keys :: "int64 \<Rightarrow> bool" where
  "unreachable_keys k \<longleftrightarrow> in_int64 (k - 1) \<and> (k \<le> 0 \<or> int32_max < k)"

definition endless_warmup :: "nat \<Rightarrow> memcached_workload" where
  "endless_warmup n = \<lparr>wl_phase = [], mw_state = Warmup_state, mw_index = int n\<rparr>"

lemma endless_warmup_step:
  assumes "unreachable_keys (FLAGS_number_of_keys F)"
  shows "int n < int32_max \<Longrightarrow>
      memcached_getNextRequest F (endless_warmup n) = Inr (Some (set_request (int n)), endless_warmup (Suc n))"
    "int n = int32_max \<Longrightarrow> memcached_getNextRequest F (endless_warmup n) = Inl (Undefined Signed_overflow)"
  using assms
  by (auto simp: memcached_getNextRequest_def memcached_request_of_def endless_warmup_def unreachable_keys_def
      set_request_def MemcachedRequest_def setValue_def Let_def res_defs in_int32_def in_int64_def)

lemma endless_warmup_run:
  assumes "unreachable_keys (FLAGS_number_of_keys F)" "int (m + n) \<le> int32_max"
  shows "wl_run (memcached_ops F) (replicate n Next_request @ cs) (endless_warmup m) =
    res_map (\<lambda>(rs, w). (map (\<lambda>i. set_request (int i)) [m..<m + n] @ rs, w)) (wl_run (memcached_ops F) cs (endless_warmup (m + n)))"
  using assms(2)
proof (induction n arbitrary: m)
  case 0
  then show ?case by (cases "wl_run (memcached_ops F) cs (endless_warmup m)") auto
next
  case (Suc n)
  have up: "[m..<m + Suc n] = m # [Suc m..<Suc m + n]" by (simp add: upt_conv_Cons)
  have "int m < int32_max" using Suc.prems by simp
  then show ?case
    using Suc.IH [of "Suc m"] Suc.prems unfolding up
    by (cases "wl_run (memcached_ops F) cs (endless_warmup (m + Suc n))")
      (auto simp: endless_warmup_step [OF assms(1)] simp del: upt_Suc)
qed

section \<open>Properties\<close>

text \<open>
  C23. The requests of a memcached workload. With between 1 and \<open>INT_MAX\<close> keys, the first \<open>K\<close>
  requests of a fresh workload write the keys \<open>0\<close> to \<open>K - 1\<close>, each with its own name as value, and
  every later request number \<open>i\<close> reads the key \<open>i mod K\<close>: no call fails and none asks the worker to
  terminate.
\<close>

theorem memcached_sequence:
  assumes "1 \<le> FLAGS_number_of_keys F" "FLAGS_number_of_keys F \<le> int32_max"
  shows "\<exists>w. wl_run (memcached_ops F) (replicate n Next_request) Memcached_Workload =
    Inr (map (\<lambda>i. if int i < FLAGS_number_of_keys F
           then setValue (string_of_int (int i)) (MemcachedRequest SET (string_of_int (int i)))
           else MemcachedRequest GET (string_of_int (int i mod FLAGS_number_of_keys F))) [0..<n], w)"
proof -
  have "Memcached_Workload = memcached_after F 0"
    using assms by (simp add: Memcached_Workload_def memcached_after_def)
  moreover have "nth_request F = (\<lambda>i. if int i < FLAGS_number_of_keys F
           then setValue (string_of_int (int i)) (MemcachedRequest SET (string_of_int (int i)))
           else MemcachedRequest GET (string_of_int (int i mod FLAGS_number_of_keys F)))"
    by (rule ext) (simp add: nth_request_def set_request_def get_request_def setValue_def MemcachedRequest_def)
  ultimately show ?thesis using memcached_run_after [OF assms, of n 0] by simp
qed

theorem memcached_sequence_witness:
  "\<exists>w. wl_run (memcached_ops (default_flags\<lparr>FLAGS_number_of_keys := 2\<rparr>)) (replicate 4 Next_request) Memcached_Workload =
     Inr ([\<lparr>mr_type = SET, mr_key = ''0'', mr_value = ''0''\<rparr>, \<lparr>mr_type = SET, mr_key = ''1'', mr_value = ''1''\<rparr>,
           \<lparr>mr_type = GET, mr_key = ''0'', mr_value = []\<rparr>, \<lparr>mr_type = GET, mr_key = ''1'', mr_value = []\<rparr>], w)"
  using memcached_sequence [of "default_flags\<lparr>FLAGS_number_of_keys := 2\<rparr>" 4]
  by (simp add: upt_rec setValue_def MemcachedRequest_def string_of_int_def string_of_nat.simps
      del: wl_run.simps)

text \<open>
  C36. Reads hit, whatever the interleaving of resets. For any sequence of request, reset and phase
  calls on a fresh memcached workload, every call is defined, and every GET it issues reads a key
  that the same workload wrote with an earlier SET: a RESET in the middle of the warm-up restarts
  the keys but never lets a GET overtake its SET.
\<close>

theorem memcached_reads_written_keys:
  assumes "1 \<le> FLAGS_number_of_keys F" "FLAGS_number_of_keys F \<le> int32_max"
  shows "\<exists>rs w. wl_run (memcached_ops F) cs Memcached_Workload = Inr (rs, w) \<and>
    (\<forall>us r vs. rs = us @ r # vs \<and> which r = GET \<longrightarrow>
       (\<exists>q\<in>set us. which q = SET \<and> mr_key q = mr_key r \<and> mr_value q = mr_key r))"
proof -
  have warm: "memcached_warm F Memcached_Workload {}"
    using assms by (simp add: memcached_warm_def memcached_inv_def Memcached_Workload_def written_keys_def)
  then obtain rs w where run: "wl_run (memcached_ops F) cs Memcached_Workload = Inr (rs, w)"
    using memcached.run_defined [of F Memcached_Workload cs] by (auto simp: memcached_warm_def)
  have "gets_hit {} rs" by (rule memcached_run_hits [OF warm run])
  then show ?thesis using run gets_hit_split [of "{}"] by fastforce
qed

theorem memcached_reads_written_keys_witness:
  "\<exists>rs w. wl_run (memcached_ops default_flags) (Next_request # Reset # replicate 2000 Next_request)
       Memcached_Workload = Inr (rs, w) \<and>
     (\<forall>us r vs. rs = us @ r # vs \<and> which r = GET \<longrightarrow>
       (\<exists>q\<in>set us. which q = SET \<and> mr_key q = mr_key r \<and> mr_value q = mr_key r))"
  using memcached_reads_written_keys [of default_flags "Next_request # Reset # replicate 2000 Next_request"]
  by (simp only: default_flags_simps)

text \<open>
  The key count must fit the index. When \<open>--number_of_keys\<close> (64 bits) is not positive or exceeds
  \<open>INT_MAX\<close>, the \<open>int\<close> index never meets it: the workload writes ever new keys, never reaches a GET,
  and the request after \<open>INT_MAX\<close> of them overflows the index, which is undefined behaviour.
\<close>

lemma memcached_key_count_out_of_range:
  assumes "in_int64 (FLAGS_number_of_keys F - 1)"
    and "FLAGS_number_of_keys F \<le> 0 \<or> int32_max < FLAGS_number_of_keys F"
  shows "(int n \<le> int32_max \<longrightarrow> (\<exists>w. wl_run (memcached_ops F) (replicate n Next_request) Memcached_Workload =
      Inr (map (\<lambda>i. \<lparr>mr_type = SET, mr_key = string_of_int (int i), mr_value = string_of_int (int i)\<rparr>) [0..<n], w))) \<and>
    (int n = int32_max \<longrightarrow> wl_run (memcached_ops F) (replicate n Next_request @ [Next_request]) Memcached_Workload =
      Inl (Undefined Signed_overflow))"
proof -
  have u: "unreachable_keys (FLAGS_number_of_keys F)" using assms by (simp add: unreachable_keys_def)
  have start: "Memcached_Workload = endless_warmup 0"
    by (simp add: Memcached_Workload_def endless_warmup_def)
  have "wl_run (memcached_ops F) (replicate n Next_request @ [Next_request]) Memcached_Workload =
      Inl (Undefined Signed_overflow)" if "int n = int32_max"
    using that endless_warmup_run [OF u, of 0 n "[Next_request]"] endless_warmup_step(2) [OF u that]
    by (simp only: start) simp
  then show ?thesis
    using endless_warmup_run [OF u, of 0 n "[]"] by (simp add: start set_request_def)
qed

end
