(* ===== verification/Statistics.thy ===== *)
theory Statistics
  imports Decimal Binary64 "HOL-Library.AList"
begin

text \<open>
  \<open>CounterStatistic\<close> and \<open>StatisticsManager\<close>. A counter keeps a total and a breakdown by subkey; the
  manager hands out one shared object per name. Objects behind \<open>shared_ptr\<close> live in a heap: a list
  of objects whose index is the pointer.

  The insert-only concurrent map of folly that holds the breakdown is the parameter
  \<open>insert_map_ops\<close> with the locale \<open>atomic_insert_map\<close> as its contract, interpreted on an
  association list with a capacity; the quantile estimator of folly is the parameter
  \<open>histogram_ops\<close>.
\<close>

section \<open>The insert-only map\<close>

record 'm insert_map_ops =
  im_new :: "nat \<Rightarrow> 'm"
  im_findOrConstruct :: "string \<Rightarrow> int64 \<Rightarrow> 'm \<Rightarrow> 'm res"
  im_data :: "string \<Rightarrow> 'm \<Rightarrow> int64"
  im_store :: "string \<Rightarrow> int64 \<Rightarrow> 'm \<Rightarrow> 'm"
  im_entries :: "'m \<Rightarrow> (string \<times> int64) list"

locale atomic_insert_map =
  fixes M :: "'m insert_map_ops"
    and slots :: "'m \<Rightarrow> (string \<rightharpoonup> int64)"
    and capacity :: "'m \<Rightarrow> nat"
  assumes slots_new: "slots (im_new M c) = Map.empty" "capacity (im_new M c) = c"
    and findOrConstruct_present: "slots m k = Some v \<Longrightarrow> im_findOrConstruct M k w m = Inr m"
    and findOrConstruct_absent: "slots m k = None \<Longrightarrow> im_findOrConstruct M k w m = Inr m' \<Longrightarrow>
      slots m' = (slots m)(k \<mapsto> w) \<and> capacity m' = capacity m"
    and findOrConstruct_room: "card (dom (slots m)) < capacity m \<Longrightarrow> \<exists>m'. im_findOrConstruct M k w m = Inr m'"
    and data: "slots m k = Some v \<Longrightarrow> im_data M k m = v"
    and store: "slots m k = Some v \<Longrightarrow> slots (im_store M k w m) = (slots m)(k \<mapsto> w)"
      "slots m k = Some v \<Longrightarrow> capacity (im_store M k w m) = capacity m"
    and entries: "map_of (im_entries M m) = slots m" "distinct (map fst (im_entries M m))"
begin

lemma findOrConstruct_slots:
  assumes "im_findOrConstruct M k w m = Inr m'"
  shows "slots m' = (slots m)(k \<mapsto> (case slots m k of None \<Rightarrow> w | Some v \<Rightarrow> v))" "capacity m' = capacity m"
  using assms findOrConstruct_absent findOrConstruct_present [of m k _ w]
  by (cases "slots m k"; auto)+

lemma finite_slots: "finite (dom (slots m))"
  unfolding entries(1) [of m, symmetric] by (rule finite_dom_map_of)

end

section \<open>Counters\<close>

record 'm counter_statistic =
  cs_count :: int64
  cs_subkey_count :: 'm

definition CounterStatistic :: "'m insert_map_ops \<Rightarrow> string \<Rightarrow> 'm counter_statistic" where
  "CounterStatistic M name = \<lparr>cs_count = 0, cs_subkey_count = im_new M (10 * 1024)\<rparr>"

text \<open>
  \<open>count_ += n\<close> is signed arithmetic (overflow is undefined); \<open>+=\<close> on the atomic of a subkey wraps.
\<close>

definition increase ::
  "'m insert_map_ops \<Rightarrow> int64 \<Rightarrow> string \<Rightarrow> 'm counter_statistic \<Rightarrow> 'm counter_statistic res" where
  "increase M n subkey c =
     res_bind (check_int64 (cs_count c + n)) (\<lambda>count.
       if subkey \<noteq> []
       then res_bind (im_findOrConstruct M subkey 0 (cs_subkey_count c)) (\<lambda>m.
              Inr (c\<lparr>cs_count := count,
                     cs_subkey_count := im_store M subkey (to_int64 (im_data M subkey m + n)) m\<rparr>))
       else Inr (c\<lparr>cs_count := count\<rparr>))"

definition getCount :: "'m counter_statistic \<Rightarrow> int64" where
  "getCount c = cs_count c"

definition getCount_subkey ::
  "'m insert_map_ops \<Rightarrow> string \<Rightarrow> 'm counter_statistic \<Rightarrow> (int64 \<times> 'm counter_statistic) res" where
  "getCount_subkey M subkey c =
     res_bind (im_findOrConstruct M subkey 0 (cs_subkey_count c)) (\<lambda>m.
       Inr (im_data M subkey m, c\<lparr>cs_subkey_count := m\<rparr>))"

text \<open>The lines \<open>printStatistic\<close> logs.\<close>

definition printStatistic :: "'m insert_map_ops \<Rightarrow> 'm counter_statistic \<Rightarrow> string list" where
  "printStatistic M c =
     (''Count: '' @ string_of_int (cs_count c)) #
     map (\<lambda>(k, v). ''Count['' @ k @ '']: '' @ string_of_int v) (im_entries M (cs_subkey_count c))"

text \<open>A sequence of increases by the threads that share the counter, one after the other.\<close>

primrec increase_all ::
  "'m insert_map_ops \<Rightarrow> (int64 \<times> string) list \<Rightarrow> 'm counter_statistic \<Rightarrow> 'm counter_statistic res" where
  "increase_all M [] c = Inr c"
| "increase_all M (x # xs) c = res_bind (increase M (fst x) (snd x) c) (increase_all M xs)"

section \<open>The manager\<close>

definition REQUEST_LATENCY :: string where [simp]: "REQUEST_LATENCY = ''request_latency''"
definition THROUGHPUT :: string where [simp]: "THROUGHPUT = ''throughput''"
definition OUTSTANDING_REQUESTS :: string where [simp]: "OUTSTANDING_REQUESTS = ''outstanding_requests''"
definition EXCEPTIONS :: string where [simp]: "EXCEPTIONS = ''exceptions''"
definition UNCAUGHT_EXCEPTIONS :: string where [simp]: "UNCAUGHT_EXCEPTIONS = ''uncaught_exceptions''"

definition kQuantiles :: "double list" where
  "kQuantiles = map double_of
     [1/100, 5/100, 10/100, 15/100, 20/100, 50/100, 80/100, 85/100, 90/100, 95/100, 99/100, 999/1000, 1]"

record quantile_estimates =
  est_sum :: double
  est_count :: double
  est_quantiles :: "(double \<times> double) list"

record 'h histogram_ops =
  h_new :: 'h
  h_addValue :: "double \<Rightarrow> 'h \<Rightarrow> 'h"
  h_flush :: "'h \<Rightarrow> 'h"
  h_estimateQuantiles :: "double list \<Rightarrow> 'h \<Rightarrow> quantile_estimates"

type_synonym pointer = nat

record ('h, 'm) statistics_manager =
  sm_histo_map :: "string \<rightharpoonup> pointer"
  sm_count_map :: "string \<rightharpoonup> pointer"
  sm_histograms :: "'h list"
  sm_counters :: "'m counter_statistic list"

definition StatisticsManager :: "('h, 'm) statistics_manager" where
  "StatisticsManager = \<lparr>sm_histo_map = Map.empty, sm_count_map = Map.empty, sm_histograms = [], sm_counters = []\<rparr>"

definition getContinuousStat ::
  "'h histogram_ops \<Rightarrow> string \<Rightarrow> ('h, 'm) statistics_manager \<Rightarrow> pointer \<times> ('h, 'm) statistics_manager" where
  "getContinuousStat H name sm = (case sm_histo_map sm name of
     Some p \<Rightarrow> (p, sm)
   | None \<Rightarrow> (let p = length (sm_histograms sm)
             in (p, sm\<lparr>sm_histograms := sm_histograms sm @ [h_new H],
                       sm_histo_map := (sm_histo_map sm)(name \<mapsto> p)\<rparr>)))"

definition getCounterStat ::
  "'m insert_map_ops \<Rightarrow> string \<Rightarrow> ('h, 'm) statistics_manager \<Rightarrow> pointer \<times> ('h, 'm) statistics_manager" where
  "getCounterStat M name sm = (case sm_count_map sm name of
     Some p \<Rightarrow> (p, sm)
   | None \<Rightarrow> (let p = length (sm_counters sm)
             in (p, sm\<lparr>sm_counters := sm_counters sm @ [CounterStatistic M name],
                       sm_count_map := (sm_count_map sm)(name \<mapsto> p)\<rparr>)))"

text \<open>
  \<open>print\<close>: first the counters, then the histograms, each map in its iteration order (an argument,
  which the library leaves open). \<open>show_count\<close> and \<open>show_quantile\<close> are \<open>sformat\<close> with the two float
  formats of the source and \<open>show_double\<close> the stream operator.
\<close>

definition print_counter ::
  "'m insert_map_ops \<Rightarrow> ('h, 'm) statistics_manager \<Rightarrow> string \<times> pointer \<Rightarrow> string list res" where
  "print_counter M sm cp = res_map (\<lambda>c. fst cp # printStatistic M c) (vec_at (sm_counters sm) (snd cp))"

definition print_estimates ::
  "(double \<Rightarrow> string) \<Rightarrow> (double \<Rightarrow> string) \<Rightarrow> (double \<Rightarrow> double \<Rightarrow> string) \<Rightarrow> quantile_estimates \<Rightarrow> string list" where
  "print_estimates show_count show_double show_quantile est =
     (''Count: '' @ show_count (est_count est)) #
     (''Avg: '' @ show_double (est_sum est / std_max (double_of 1) (est_count est))) #
     map (\<lambda>(q, v). show_quantile (q * double_of 100) v) (est_quantiles est)"

definition print_histogram ::
  "'h histogram_ops \<Rightarrow> (quantile_estimates \<Rightarrow> string list) \<Rightarrow> string \<times> pointer \<Rightarrow>
     string list \<times> ('h, 'm) statistics_manager \<Rightarrow> (string list \<times> ('h, 'm) statistics_manager) res" where
  "print_histogram H show_est cp acc = (case acc of (out, sm) \<Rightarrow>
     res_map (\<lambda>h. let h' = h_flush H h
                  in (out @ fst cp # show_est (h_estimateQuantiles H kQuantiles h'),
                      sm\<lparr>sm_histograms := (sm_histograms sm)[snd cp := h']\<rparr>))
       (vec_at (sm_histograms sm) (snd cp)))"

primrec res_fold :: "('a \<Rightarrow> 'b \<Rightarrow> 'b res) \<Rightarrow> 'a list \<Rightarrow> 'b \<Rightarrow> 'b res" where
  "res_fold f [] b = Inr b"
| "res_fold f (x # xs) b = res_bind (f x b) (res_fold f xs)"

definition print ::
  "'m insert_map_ops \<Rightarrow> 'h histogram_ops \<Rightarrow> (quantile_estimates \<Rightarrow> string list) \<Rightarrow>
     (string \<times> pointer) list \<Rightarrow> (string \<times> pointer) list \<Rightarrow> ('h, 'm) statistics_manager \<Rightarrow>
     (string list \<times> ('h, 'm) statistics_manager) res" where
  "print M H show_est counters histograms sm =
     res_bind (res_fold (\<lambda>cp out. res_map (\<lambda>ls. out @ ls) (print_counter M sm cp)) counters [''Statistics:'', []])
       (\<lambda>out. res_fold (print_histogram H show_est) histograms (out, sm))"

section \<open>What a counter holds\<close>

text \<open>The specification: the sum of the increases recorded under a subkey.\<close>

definition subkey_total :: "string \<Rightarrow> (int64 \<times> string) list \<Rightarrow> int" where
  "subkey_total k xs = sum_list (map fst (filter (\<lambda>x. snd x = k) xs))"

definition subkeys :: "(int64 \<times> string) list \<Rightarrow> string set" where
  "subkeys xs = set (map snd xs) - {[]}"

lemma subkeys_simps [simp]:
  "subkeys [] = {}" "subkeys (x # xs) = (if snd x = [] then subkeys xs else insert (snd x) (subkeys xs))"
  by (auto simp: subkeys_def)

lemma finite_subkeys [simp]: "finite (subkeys xs)"
  by (simp add: subkeys_def)

lemma subkey_total_simps [simp]:
  "subkey_total k [] = 0"
  "subkey_total k (x # xs) = (if snd x = k then fst x else 0) + subkey_total k xs"
  by (simp_all add: subkey_total_def)

lemma subkey_total_absent: "k \<notin> set (map snd xs) \<Longrightarrow> subkey_total k xs = 0"
  by (induction xs) auto

lemma sum_subkey_total:
  "sum_list (map fst xs) = subkey_total [] xs + (\<Sum>k\<in>subkeys xs. subkey_total k xs)"
proof -
  have "(\<Sum>k\<in>S. subkey_total k xs) = sum_list (map fst xs)" if "finite S" "set (map snd xs) \<subseteq> S" for S
    using that
  proof (induction xs)
    case (Cons x xs)
    then show ?case by (simp add: sum.distrib)
  qed simp
  from this [of "insert [] (subkeys xs)"]
  have "(\<Sum>k\<in>insert [] (subkeys xs). subkey_total k xs) = sum_list (map fst xs)"
    by (auto simp: subkeys_def)
  moreover have "[] \<notin> subkeys xs" by (simp add: subkeys_def)
  ultimately show ?thesis by simp
qed

lemma subkey_total_bounds:
  assumes "\<forall>x\<in>set xs. 0 \<le> fst x"
  shows "0 \<le> subkey_total k xs" "subkey_total k xs \<le> sum_list (map fst xs)"
  using assms by (induction xs) auto

lemma to_int64_add [simp]: "to_int64 (to_int64 a + b) = to_int64 (a + b)"
  "to_int64 (b + to_int64 a) = to_int64 (b + a)"
  by (simp_all add: to_int64_def mod_simps ac_simps)

lemma sum_list_map_of:
  "distinct (map fst kvs) \<Longrightarrow> sum_list (map snd kvs) = (\<Sum>k\<in>dom (map_of kvs). the (map_of kvs k))"
proof (induction kvs)
  case (Cons kv kvs)
  have new: "fst kv \<notin> dom (map_of kvs)" using Cons.prems by (simp add: dom_map_of_conv_image_fst)
  have "(\<Sum>k\<in>dom (map_of kvs). the (map_of (kv # kvs) k)) = (\<Sum>k\<in>dom (map_of kvs). the (map_of kvs k))"
    using new by (intro sum.cong) auto
  moreover have "dom (map_of (kv # kvs)) = insert (fst kv) (dom (map_of kvs))" by auto
  ultimately show ?case using Cons new by (simp add: finite_dom_map_of del: map_of.simps) simp
qed simp

text \<open>The value of a slot, 0 when the slot does not exist.\<close>

definition slot_value :: "(string \<rightharpoonup> int64) \<Rightarrow> string \<Rightarrow> int64" where
  "slot_value m k = (case m k of None \<Rightarrow> 0 | Some v \<Rightarrow> v)"

context atomic_insert_map
begin

lemma increase_slots:
  assumes "increase M n k c = Inr c'"
  shows "cs_count c' = cs_count c + n" "in_int64 (cs_count c')"
    "slots (cs_subkey_count c') = (if k = [] then slots (cs_subkey_count c)
       else (slots (cs_subkey_count c))(k \<mapsto> to_int64 (slot_value (slots (cs_subkey_count c)) k + n)))"
    "capacity (cs_subkey_count c') = capacity (cs_subkey_count c)"
proof -
  show "cs_count c' = cs_count c + n" "in_int64 (cs_count c')"
    using assms by (auto simp: increase_def res_bind_eq_Inr check_int64_eq_Inr split: if_splits)
  have "slots (cs_subkey_count c') = (if k = [] then slots (cs_subkey_count c)
       else (slots (cs_subkey_count c))(k \<mapsto> to_int64 (slot_value (slots (cs_subkey_count c)) k + n))) \<and>
    capacity (cs_subkey_count c') = capacity (cs_subkey_count c)"
  proof (cases "k = []")
    case True
    then show ?thesis using assms by (auto simp: increase_def res_bind_eq_Inr)
  next
    case False
    then obtain m where m: "im_findOrConstruct M k 0 (cs_subkey_count c) = Inr m"
      and c': "cs_subkey_count c' = im_store M k (to_int64 (im_data M k m + n)) m"
      using assms by (auto simp: increase_def res_bind_eq_Inr)
    have k: "slots m k = Some (slot_value (slots (cs_subkey_count c)) k)"
      using findOrConstruct_slots(1) [OF m] by (simp add: slot_value_def)
    show ?thesis
      using False c' findOrConstruct_slots [OF m] store [OF k] data [OF k] by simp
  qed
  then show "slots (cs_subkey_count c') = (if k = [] then slots (cs_subkey_count c)
       else (slots (cs_subkey_count c))(k \<mapsto> to_int64 (slot_value (slots (cs_subkey_count c)) k + n)))"
    "capacity (cs_subkey_count c') = capacity (cs_subkey_count c)" by simp_all
qed

lemma increase_all_slots:
  assumes "increase_all M xs c = Inr c'" "\<forall>k v. slots (cs_subkey_count c) k = Some v \<longrightarrow> in_int64 v"
  shows "cs_count c' = cs_count c + sum_list (map fst xs) \<and>
    dom (slots (cs_subkey_count c')) = dom (slots (cs_subkey_count c)) \<union> subkeys xs \<and>
    (\<forall>k. k \<noteq> [] \<longrightarrow> slot_value (slots (cs_subkey_count c')) k =
       to_int64 (slot_value (slots (cs_subkey_count c)) k + subkey_total k xs)) \<and>
    capacity (cs_subkey_count c') = capacity (cs_subkey_count c)"
  using assms
proof (induction xs arbitrary: c)
  case Nil
  then show ?case by (auto simp: slot_value_def split: option.splits)
next
  case (Cons x xs)
  obtain c1 where c1: "increase M (fst x) (snd x) c = Inr c1" "increase_all M xs c1 = Inr c'"
    using Cons.prems(1) by (auto simp: res_bind_eq_Inr)
  note one = increase_slots [OF c1(1)]
  have r1: "\<forall>k v. slots (cs_subkey_count c1) k = Some v \<longrightarrow> in_int64 v"
    using Cons.prems(2) one(3) to_int64_range by auto
  have "slot_value (slots (cs_subkey_count c1)) k + subkey_total k xs = (if snd x = k
      then to_int64 (slot_value (slots (cs_subkey_count c)) k + fst x) + subkey_total k xs
      else slot_value (slots (cs_subkey_count c)) k + subkey_total k xs)" if "k \<noteq> []" for k
    using one(3) that by (simp add: slot_value_def)
  then show ?case using Cons.IH [OF c1(2) r1] one by (auto simp: ac_simps)
qed

lemma increase_defined:
  assumes "in_int64 (cs_count c + n)"
    and "card (dom (slots (cs_subkey_count c)) \<union> ({k} - {[]})) \<le> capacity (cs_subkey_count c)"
  shows "\<exists>c'. increase M n k c = Inr c'"
proof (cases "k = [] \<or> k \<in> dom (slots (cs_subkey_count c))")
  case True
  then show ?thesis using assms(1) findOrConstruct_present [of "cs_subkey_count c" k]
    by (auto simp: increase_def)
next
  case False
  then have "dom (slots (cs_subkey_count c)) \<union> ({k} - {[]}) = insert k (dom (slots (cs_subkey_count c)))" by auto
  then have "card (dom (slots (cs_subkey_count c))) < capacity (cs_subkey_count c)"
    using False assms(2) finite_slots [of "cs_subkey_count c"] by simp
  from findOrConstruct_room [OF this, of k 0]
  obtain m where "im_findOrConstruct M k 0 (cs_subkey_count c) = Inr m" ..
  then show ?thesis using assms(1) by (simp add: increase_def)
qed

lemma increase_all_defined:
  assumes "\<forall>x\<in>set xs. 0 \<le> fst x" "0 \<le> cs_count c" "cs_count c + sum_list (map fst xs) \<le> int64_max"
    and "card (dom (slots (cs_subkey_count c)) \<union> subkeys xs) \<le> capacity (cs_subkey_count c)"
  shows "\<exists>c'. increase_all M xs c = Inr c'"
  using assms
proof (induction xs arbitrary: c)
  case (Cons x xs)
  let ?d = "dom (slots (cs_subkey_count c))"
  have fin: "finite ?d" by (rule finite_slots)
  have "0 \<le> sum_list (map fst xs)" using Cons.prems(1) by (intro sum_list_nonneg) auto
  then have "in_int64 (cs_count c + fst x)" using Cons.prems(1-3) by (simp add: in_int64_def)
  moreover have "card (?d \<union> ({snd x} - {[]})) \<le> card (?d \<union> subkeys (x # xs))"
    using fin by (intro card_mono) auto
  ultimately obtain c1 where c1: "increase M (fst x) (snd x) c = Inr c1"
    using increase_defined [of c "fst x" "snd x"] Cons.prems(4) by fastforce
  note one = increase_slots [OF c1]
  have "dom (slots (cs_subkey_count c1)) \<union> subkeys xs = ?d \<union> subkeys (x # xs)"
    using one(3) by auto
  then have "\<exists>c'. increase_all M xs c1 = Inr c'"
    using Cons.prems one by (intro Cons.IH) auto
  then show ?case using c1 by auto
qed simp

lemma counter_breakdown:
  assumes "\<forall>x\<in>set xs. 0 \<le> fst x" "sum_list (map fst xs) \<le> int64_max" "increase_all M xs (CounterStatistic M name) = Inr c"
  shows "k \<noteq> [] \<Longrightarrow> slot_value (slots (cs_subkey_count c)) k = subkey_total k xs"
    "getCount c = subkey_total [] xs + sum_list (map snd (im_entries M (cs_subkey_count c)))"
proof -
  let ?c0 = "CounterStatistic M name"
  have new: "slots (cs_subkey_count ?c0) = Map.empty" "cs_count ?c0 = 0"
    by (simp_all add: CounterStatistic_def slots_new)
  have "\<forall>k v. slots (cs_subkey_count ?c0) k = Some v \<longrightarrow> in_int64 v" by (simp add: new)
  note after = increase_all_slots [OF assms(3) this]
  have val: "slot_value (slots (cs_subkey_count c)) k = subkey_total k xs" if "k \<noteq> []" for k
    using after that new subkey_total_bounds [OF assms(1), of k] assms(2)
    by (simp add: slot_value_def in_int64_def)
  then show "k \<noteq> [] \<Longrightarrow> slot_value (slots (cs_subkey_count c)) k = subkey_total k xs" .
  have "sum_list (map snd (im_entries M (cs_subkey_count c))) = (\<Sum>k\<in>subkeys xs. the (slots (cs_subkey_count c) k))"
    using sum_list_map_of [OF entries(2), of "cs_subkey_count c"] after new by (simp add: entries(1))
  also have "\<dots> = (\<Sum>k\<in>subkeys xs. subkey_total k xs)"
  proof (rule sum.cong [OF refl])
    fix k assume "k \<in> subkeys xs"
    then have "k \<in> dom (slots (cs_subkey_count c))" "k \<noteq> []" using after new by (auto simp: subkeys_def)
    then show "the (slots (cs_subkey_count c) k) = subkey_total k xs"
      using val [of k] by (auto simp: slot_value_def)
  qed
  finally show "getCount c = subkey_total [] xs + sum_list (map snd (im_entries M (cs_subkey_count c)))"
    using after new sum_subkey_total [of xs] by (simp add: getCount_def)
qed

end

section \<open>The map as a bounded association list\<close>

type_synonym bounded_alist = "nat \<times> (string \<times> int64) list"

definition bounded_alist_ops :: "bounded_alist insert_map_ops" where
  "bounded_alist_ops = \<lparr>
     im_new = (\<lambda>c. (c, [])),
     im_findOrConstruct = (\<lambda>k w (c, kvs).
       if k \<in> fst ` set kvs then Inr (c, kvs)
       else if card (fst ` set kvs) < c then Inr (c, (k, w) # kvs)
       else Inl (Thrown ''std::bad_alloc'')),
     im_data = (\<lambda>k (c, kvs). case map_of kvs k of None \<Rightarrow> 0 | Some v \<Rightarrow> v),
     im_store = (\<lambda>k v (c, kvs). (c, AList.update k v kvs)),
     im_entries = (\<lambda>(c, kvs). AList.clearjunk kvs)\<rparr>"

interpretation bal: atomic_insert_map bounded_alist_ops "\<lambda>m. map_of (snd m)" fst
proof unfold_locales
  fix m :: bounded_alist and k v w
  show "map_of (snd m) k = Some v \<Longrightarrow> im_findOrConstruct bounded_alist_ops k w m = Inr m"
    by (cases m) (auto simp: bounded_alist_ops_def dest: map_of_SomeD intro: rev_image_eqI)
  show "card (dom (map_of (snd m))) < fst m \<Longrightarrow> \<exists>m'. im_findOrConstruct bounded_alist_ops k w m = Inr m'"
    by (cases m) (simp add: bounded_alist_ops_def dom_map_of_conv_image_fst)
  show "map_of (snd m) k = None \<Longrightarrow> im_findOrConstruct bounded_alist_ops k w m = Inr m' \<Longrightarrow>
      map_of (snd m') = (map_of (snd m))(k \<mapsto> w) \<and> fst m' = fst m" for m'
    by (cases m) (auto simp: bounded_alist_ops_def map_of_eq_None_iff split: if_splits)
qed (auto simp: bounded_alist_ops_def update_conv' distinct_clearjunk map_of_clearjunk split: prod.splits)

section \<open>What the manager hands out\<close>

datatype stat_call = Get_continuous string | Get_counter string

fun manager_call ::
  "'h histogram_ops \<Rightarrow> 'm insert_map_ops \<Rightarrow> stat_call \<Rightarrow> ('h, 'm) statistics_manager \<Rightarrow>
     pointer \<times> ('h, 'm) statistics_manager" where
  "manager_call H M (Get_continuous name) sm = getContinuousStat H name sm"
| "manager_call H M (Get_counter name) sm = getCounterStat M name sm"

primrec manager_calls ::
  "'h histogram_ops \<Rightarrow> 'm insert_map_ops \<Rightarrow> stat_call list \<Rightarrow> ('h, 'm) statistics_manager \<Rightarrow>
     pointer list \<times> ('h, 'm) statistics_manager" where
  "manager_calls H M [] sm = ([], sm)"
| "manager_calls H M (c # cs) sm =
     (case manager_call H M c sm of (p, sm') \<Rightarrow>
      case manager_calls H M cs sm' of (ps, sm'') \<Rightarrow> (p # ps, sm''))"

text \<open>Where the manager looks a call up.\<close>

fun manager_entry :: "stat_call \<Rightarrow> ('h, 'm) statistics_manager \<Rightarrow> pointer option" where
  "manager_entry (Get_continuous name) sm = sm_histo_map sm name"
| "manager_entry (Get_counter name) sm = sm_count_map sm name"

fun same_kind :: "stat_call \<Rightarrow> stat_call \<Rightarrow> bool" where
  "same_kind (Get_continuous _) (Get_continuous _) = True"
| "same_kind (Get_counter _) (Get_counter _) = True"
| "same_kind _ _ = False"

definition manager_wf :: "('h, 'm) statistics_manager \<Rightarrow> bool" where
  "manager_wf sm \<longleftrightarrow>
     inj_on (sm_histo_map sm) (dom (sm_histo_map sm)) \<and> ran (sm_histo_map sm) \<subseteq> {..<length (sm_histograms sm)} \<and>
     inj_on (sm_count_map sm) (dom (sm_count_map sm)) \<and> ran (sm_count_map sm) \<subseteq> {..<length (sm_counters sm)}"

lemma StatisticsManager_wf: "manager_wf StatisticsManager"
  by (simp add: manager_wf_def StatisticsManager_def)

lemma inj_on_fresh:
  fixes n :: nat
  assumes "inj_on m (dom m)" "ran m \<subseteq> {..<n}" "m k = None"
  shows "inj_on (m(k \<mapsto> n)) (dom (m(k \<mapsto> n)))"
proof -
  have "m a \<noteq> Some n" for a using assms(2) by (meson lessThan_iff less_irrefl ranI subsetD)
  then show ?thesis using assms(1,3) unfolding inj_on_def by (auto simp: dom_def)
qed

lemma ran_fresh: "ran m \<subseteq> {..<n :: nat} \<Longrightarrow> ran (m(k \<mapsto> n)) \<subseteq> {..<Suc n}"
  by (auto simp: ran_def less_Suc_eq)

lemma manager_call_wf:
  "manager_call H M c sm = (p, sm') \<Longrightarrow> manager_wf sm \<Longrightarrow> manager_wf sm'"
  by (cases c) (auto simp: getContinuousStat_def getCounterStat_def manager_wf_def Let_def inj_on_fresh
      simp del: fun_upd_apply dom_fun_upd split: option.splits dest: ran_fresh [THEN subsetD, rotated])

lemma manager_call_entry:
  assumes "manager_call H M c sm = (p, sm')"
  shows "manager_entry c sm' = Some p"
    "manager_entry d sm = Some q \<Longrightarrow> manager_entry d sm' = Some q"
  using assms
  by (cases c; cases d; auto simp: getContinuousStat_def getCounterStat_def Let_def split: option.splits)+

lemma manager_call_heap:
  assumes "manager_call H M c sm = (p, sm')"
  shows "\<exists>hs. sm_histograms sm' = sm_histograms sm @ hs \<and> set hs \<subseteq> {h_new H}"
    "\<exists>cs. sm_counters sm' = sm_counters sm @ cs \<and> set cs \<subseteq> range (CounterStatistic M)"
  using assms
  by (cases c; auto simp: getContinuousStat_def getCounterStat_def Let_def split: option.splits)+

lemma manager_calls_steps:
  assumes "manager_calls H M cs sm = (ps, sm')" "manager_wf sm"
  shows "manager_wf sm' \<and> length ps = length cs \<and> (\<forall>i<length cs. manager_entry (cs ! i) sm' = Some (ps ! i)) \<and>
    (\<forall>d q. manager_entry d sm = Some q \<longrightarrow> manager_entry d sm' = Some q) \<and>
    (\<exists>hs. sm_histograms sm' = sm_histograms sm @ hs \<and> set hs \<subseteq> {h_new H}) \<and>
    (\<exists>ds. sm_counters sm' = sm_counters sm @ ds \<and> set ds \<subseteq> range (CounterStatistic M))"
  using assms
proof (induction cs arbitrary: sm ps)
  case (Cons c cs)
  obtain p sm1 qs where one: "manager_call H M c sm = (p, sm1)"
    and rest: "manager_calls H M cs sm1 = (qs, sm')" "ps = p # qs"
    using Cons.prems(1) by (auto split: prod.splits)
  note step = manager_call_wf [OF one Cons.prems(2)] manager_call_entry [OF one] manager_call_heap [OF one]
  note IH = Cons.IH [OF rest(1) step(1)]
  obtain hs ds where h: "sm_histograms sm1 = sm_histograms sm @ hs" "set hs \<subseteq> {h_new H}"
    and d: "sm_counters sm1 = sm_counters sm @ ds" "set ds \<subseteq> range (CounterStatistic M)"
    using step(4,5) by blast
  obtain hs' ds' where "sm_histograms sm' = sm_histograms sm1 @ hs'" "set hs' \<subseteq> {h_new H}"
    "sm_counters sm' = sm_counters sm1 @ ds'" "set ds' \<subseteq> range (CounterStatistic M)"
    using IH by blast
  then have "sm_histograms sm' = sm_histograms sm @ (hs @ hs')" "set (hs @ hs') \<subseteq> {h_new H}"
    "sm_counters sm' = sm_counters sm @ (ds @ ds')" "set (ds @ ds') \<subseteq> range (CounterStatistic M)"
    using h d by auto
  moreover have "\<forall>i<length (c # cs). manager_entry ((c # cs) ! i) sm' = Some (ps ! i)"
    using IH step(2) rest(2) by (auto simp: nth_Cons split: nat.splits)
  ultimately show ?case using IH step(3) rest(2) by (intro conjI) (auto simp del: append_assoc)
qed auto

lemma manager_entry_inject:
  assumes "manager_wf sm" "same_kind c d" "manager_entry c sm = Some p" "manager_entry d sm = Some p"
  shows "c = d"
  using assms by (cases c; cases d) (auto simp: manager_wf_def inj_on_def dom_def; metis)+

section \<open>Properties\<close>

text \<open>
  C21. A counter counts. For every insert-only map that meets its contract, a fresh counter that is
  increased by any sequence of non-negative amounts whose sum fits an \<open>int64_t\<close>, under fewer than
  10 * 1024 distinct subkeys, ends without an error; its total is the sum of the amounts, the count
  of every non-empty subkey is the sum of the amounts recorded under it (0 for one never used), and
  the breakdown that \<open>printStatistic\<close> lists adds up to the total less what had no subkey.
\<close>

theorem counter_counts:
  assumes "atomic_insert_map M slots capacity"
    and "\<forall>x\<in>set xs. 0 \<le> fst x" "sum_list (map fst xs) \<le> int64_max" "card (subkeys xs) < 10 * 1024"
  shows "\<exists>c. increase_all M xs (CounterStatistic M name) = Inr c \<and>
    getCount c = sum_list (map fst xs) \<and>
    getCount c = subkey_total [] xs + sum_list (map snd (im_entries M (cs_subkey_count c))) \<and>
    (\<forall>k. k \<noteq> [] \<longrightarrow> (\<exists>c'. getCount_subkey M k c = Inr (subkey_total k xs, c')))"
proof -
  have M: "atomic_insert_map M slots capacity" by (rule assms(1))
  let ?c0 = "CounterStatistic M name"
  have new: "slots (cs_subkey_count ?c0) = Map.empty" "capacity (cs_subkey_count ?c0) = 10 * 1024" "cs_count ?c0 = 0"
    by (simp_all add: CounterStatistic_def atomic_insert_map.slots_new [OF M])
  obtain c where c: "increase_all M xs ?c0 = Inr c"
    using atomic_insert_map.increase_all_defined [OF M assms(2), of ?c0] assms(3,4) new by auto
  have "\<forall>k v. slots (cs_subkey_count ?c0) k = Some v \<longrightarrow> in_int64 v" by (simp add: new)
  note after = atomic_insert_map.increase_all_slots [OF M c this]
  note break = atomic_insert_map.counter_breakdown [OF M assms(2,3) c]
  have "\<exists>c'. getCount_subkey M k c = Inr (subkey_total k xs, c')" if "k \<noteq> []" for k
  proof -
    have "card (dom (slots (cs_subkey_count c))) < capacity (cs_subkey_count c)"
      using after new assms(4) by simp
    from atomic_insert_map.findOrConstruct_room [OF M this]
    obtain m where m: "im_findOrConstruct M k 0 (cs_subkey_count c) = Inr m" by blast
    have "slots m k = Some (slot_value (slots (cs_subkey_count c)) k)"
      using atomic_insert_map.findOrConstruct_slots(1) [OF M m] by (simp add: slot_value_def)
    then show ?thesis
      using m break(1) [OF that] atomic_insert_map.data [OF M] by (simp add: getCount_subkey_def)
  qed
  then show ?thesis using c after break(2) new by (auto simp: getCount_def)
qed

theorem counter_counts_witness:
  "\<exists>c. increase_all bounded_alist_ops [(2, ''A''), (1, ''B''), (3, ''A''), (4, [])]
       (CounterStatistic bounded_alist_ops ''exceptions'') = Inr c \<and> getCount c = 10 \<and>
     (\<exists>c'. getCount_subkey bounded_alist_ops ''A'' c = Inr (5, c')) \<and>
     (\<exists>c'. getCount_subkey bounded_alist_ops ''Z'' c = Inr (0, c'))"
proof -
  let ?xs = "[(2, ''A''), (1, ''B''), (3, ''A''), (4, [])] :: (int64 \<times> string) list"
  have "card (subkeys ?xs) < 10 * 1024" by (simp add: insert_commute)
  from counter_counts [OF bal.atomic_insert_map_axioms _ _ this, of "''exceptions''"]
  obtain c where c: "increase_all bounded_alist_ops ?xs (CounterStatistic bounded_alist_ops ''exceptions'') = Inr c"
    "getCount c = 10"
    and k: "\<forall>k. k \<noteq> [] \<longrightarrow> (\<exists>c'. getCount_subkey bounded_alist_ops k c = Inr (subkey_total k ?xs, c'))"
    by auto
  show ?thesis
    using c spec [OF k, of "''A''"] spec [OF k, of "''Z''"] by (intro exI [of _ c]) auto
qed

text \<open>
  C25. One object per name. In any sequence of \<open>getContinuousStat\<close> and \<open>getCounterStat\<close> calls on a
  fresh manager, two calls of the same kind return the same pointer exactly when they ask for the
  same name (so the workers share their statistics and different statistics never alias); every
  pointer is valid; and each object is a newly constructed one, since the calls change none.
\<close>

theorem manager_one_object_per_name:
  assumes "manager_calls H M cs StatisticsManager = (ps, sm)" "i < length cs" "j < length cs"
    "same_kind (cs ! i) (cs ! j)"
  shows "(ps ! i = ps ! j \<longleftrightarrow> cs ! i = cs ! j) \<and>
    (case cs ! i of
       Get_continuous _ \<Rightarrow> vec_at (sm_histograms sm) (ps ! i) = Inr (h_new H)
     | Get_counter name \<Rightarrow> vec_at (sm_counters sm) (ps ! i) = Inr (CounterStatistic M name))"
proof -
  note all = manager_calls_steps [OF assms(1) StatisticsManager_wf]
  have wf: "manager_wf sm" and e: "manager_entry (cs ! i) sm = Some (ps ! i)" "manager_entry (cs ! j) sm = Some (ps ! j)"
    and heap: "set (sm_histograms sm) \<subseteq> {h_new H}" "set (sm_counters sm) \<subseteq> range (CounterStatistic M)"
    using all assms(2,3) by (auto simp: StatisticsManager_def)
  have "ps ! i = ps ! j \<longleftrightarrow> cs ! i = cs ! j"
    using manager_entry_inject [OF wf assms(4), of "ps ! i"] e by auto
  moreover have "vec_at (sm_histograms sm) p = Inr (h_new H)" if "sm_histo_map sm n = Some p" for n p
  proof -
    have "p < length (sm_histograms sm)" using wf ranI [of "sm_histo_map sm", OF that] by (auto simp: manager_wf_def)
    then show ?thesis using heap(1) nth_mem by fastforce
  qed
  moreover have "vec_at (sm_counters sm) p = Inr (CounterStatistic M n)" if "sm_count_map sm n = Some p" for n p
  proof -
    have p: "p < length (sm_counters sm)" using wf ranI [of "sm_count_map sm", OF that] by (auto simp: manager_wf_def)
    then have "sm_counters sm ! p \<in> range (CounterStatistic M)" using heap(2) nth_mem by blast
    then have "sm_counters sm ! p = CounterStatistic M n" by (auto simp: CounterStatistic_def)
    then show ?thesis using p by simp
  qed
  ultimately show ?thesis using e(1) by (cases "cs ! i") simp_all
qed

theorem manager_one_object_per_name_witness:
  "fst (manager_calls \<lparr>h_new = 0 :: nat, h_addValue = (\<lambda>_ h. h + 1), h_flush = (\<lambda>h. h),
       h_estimateQuantiles = (\<lambda>_ _. \<lparr>est_sum = NaN, est_count = NaN, est_quantiles = []\<rparr>)\<rparr> bounded_alist_ops
     [Get_counter EXCEPTIONS, Get_counter UNCAUGHT_EXCEPTIONS, Get_continuous THROUGHPUT, Get_counter EXCEPTIONS]
     StatisticsManager) = [0, 1, 0, 0]"
proof -
  let ?H = "\<lparr>h_new = 0 :: nat, h_addValue = (\<lambda>_ h. h + 1), h_flush = (\<lambda>h. h),
       h_estimateQuantiles = (\<lambda>_ _. \<lparr>est_sum = NaN, est_count = NaN, est_quantiles = []\<rparr>)\<rparr>"
  let ?cs = "[Get_counter EXCEPTIONS, Get_counter UNCAUGHT_EXCEPTIONS, Get_continuous THROUGHPUT, Get_counter EXCEPTIONS]"
  obtain ps sm where r: "manager_calls ?H bounded_alist_ops ?cs StatisticsManager = (ps, sm)" by fastforce
  then have "ps = [0, 1, 0, ps ! 3]"
    by (auto simp: StatisticsManager_def getCounterStat_def getContinuousStat_def Let_def)
  moreover have "ps ! 0 = ps ! 3" using manager_one_object_per_name [OF r, of 0 3] by simp
  ultimately show ?thesis using r by (cases ps) auto
qed

end
