(* ===== verification/Services.thy ===== *)
theory Services
  imports Workload Statistics Util
begin

text \<open>
  The connections of the two services and the sleep server: \<open>Connection.h\<close>,
  \<open>services/memcached/Connection.h\<close>, \<open>services/sleep/Connection.h\<close>, \<open>services/sleep/Request.h\<close>,
  \<open>services/sleep/sleepserver/SleepHandler.h\<close> and \<open>SleepHandler.cpp\<close>. A request that completes yields a \<open>reply_try\<close>
  (folly's \<open>Try\<close>): a value, or an exception with its class name and text. The clients of mcrouter
  and thrift, the monitor client and the operating system's clock and sleep are arguments.
\<close>

section \<open>Replies\<close>

datatype 'r reply_try = Value 'r | Exception string string

section \<open>The generic connection\<close>

text \<open>
  The sample \<open>isReady\<close>; \<open>client\<close> is the monitor client behind \<open>client_\<close>, a pointer that the template
  itself never sets.
\<close>

definition isReady :: "flags \<Rightarrow> (string \<Rightarrow> int64 res) option \<Rightarrow> bool res" where
  "isReady F client =
     (if FLAGS_counter_name F \<noteq> []
      then res_bind (deref client) (\<lambda>sync_getCounter.
             res_bind (sync_getCounter (FLAGS_counter_name F)) (\<lambda>value.
               if value < FLAGS_counter_threshold F then Inr False else Inr True))
      else Inr True)"

section \<open>Memcached\<close>

datatype memcached_reply = MemcachedReply

text \<open>
  The constructor looks the host up and makes a client for it and a fiber manager; \<open>AsyncMcClient\<close> and
  \<open>FiberManager\<close> are mcrouter's and folly's constructors, \<open>resolve\<close> is \<open>nsLookUp\<close>.
\<close>

record ('c, 'f) memcached_connection =
  mcn_client :: 'c
  mcn_fm :: 'f

definition Connection_Memcached ::
  "flags \<Rightarrow> (string \<Rightarrow> string res) \<Rightarrow> (string \<Rightarrow> int32 \<Rightarrow> 'c) \<Rightarrow> 'f \<Rightarrow> ('c, 'f) memcached_connection res" where
  "Connection_Memcached F resolve AsyncMcClient FiberManager =
     res_map (\<lambda>host. \<lparr>mcn_client = AsyncMcClient host (FLAGS_port F), mcn_fm = FiberManager\<rparr>)
       (resolve (FLAGS_hostname F))"

datatype mc_command = McGetRequest string | McSetRequest string string | McDeleteRequest string

definition memcached_isReady :: bool where
  "memcached_isReady \<longleftrightarrow> True"

text \<open>
  \<open>sendRequest\<close>: the command the fiber sends, and the reply its promise gets whatever the client
  answers.
\<close>

definition memcached_command :: "memcached_request \<Rightarrow> mc_command" where
  "memcached_command request =
     (if which request = GET then McGetRequest (mr_key request)
      else if which request = SET then McSetRequest (mr_key request) (mr_value request)
      else McDeleteRequest (mr_key request))"

definition memcached_sendRequest ::
  "(mc_command \<Rightarrow> 'c \<Rightarrow> 'a \<times> 'c) \<Rightarrow> memcached_request \<Rightarrow> 'c \<Rightarrow> memcached_reply reply_try \<times> 'c" where
  "memcached_sendRequest sendSync request client =
     (case sendSync (memcached_command request) client of (_, client') \<Rightarrow> (Value MemcachedReply, client'))"

section \<open>Sleep\<close>

record sleep_reply =
  srp_sleep_time :: double

definition SleepReply :: "int64 \<Rightarrow> sleep_reply" where
  "SleepReply sleep_time = \<lparr>srp_sleep_time = double_of_int sleep_time\<rparr>"

definition SleepReply_sleep_time :: "sleep_reply \<Rightarrow> int64 res" where
  "SleepReply_sleep_time r = double_to_int64 (srp_sleep_time r)"

text \<open>
  The constructor first gets the statistic of the sleep times from the manager, then looks the host up;
  \<open>SleepAsyncClient\<close> is the thrift client on a new socket.
\<close>

record 'c sleep_connection =
  scn_histo :: pointer
  scn_client :: 'c

definition Connection_Sleep ::
  "'h histogram_ops \<Rightarrow> flags \<Rightarrow> (string \<Rightarrow> string res) \<Rightarrow> (string \<Rightarrow> int32 \<Rightarrow> 'c) \<Rightarrow>
     ('h, 'm) statistics_manager \<Rightarrow> ('c sleep_connection \<times> ('h, 'm) statistics_manager) res" where
  "Connection_Sleep H F resolve SleepAsyncClient sm =
     (case getContinuousStat H ''SleepTime'' sm of (histo, sm') \<Rightarrow>
        res_map (\<lambda>host. (\<lparr>scn_histo = histo, scn_client = SleepAsyncClient host (FLAGS_port F)\<rparr>, sm'))
          (resolve (FLAGS_hostname F)))"

definition sleep_isReady :: bool where
  "sleep_isReady \<longleftrightarrow> True"

text \<open>
  \<open>sendRequest\<close>: \<open>goSleep\<close> is the thrift call; the continuation records the value in the
  \<open>SleepTime\<close> histogram and wraps it, and \<open>t.value()\<close> rethrows an exception of the call.
\<close>

definition sleep_sendRequest ::
  "'h histogram_ops \<Rightarrow> (int64 \<Rightarrow> int64 reply_try) \<Rightarrow> sleep_request \<Rightarrow> 'h \<Rightarrow> sleep_reply reply_try \<times> 'h" where
  "sleep_sendRequest H goSleep request histo = (case goSleep (sr_sleep_time request) of
     Value t \<Rightarrow> (Value (SleepReply t), h_addValue H (double_of_int t) histo)
   | Exception cls what \<Rightarrow> (Exception cls what, histo))"

section \<open>Making connections\<close>

text \<open>
  A worker makes its connections one after the other; \<open>connect\<close> is the constructor of the service's
  connection, of which the rest of the program sees the statistics it gets and whether it ends the program.
  What the runner relies on: a constructor leaves the manager well formed.
\<close>

primrec create_connections ::
  "(('h, 'm) statistics_manager \<Rightarrow> ('h, 'm) statistics_manager res) \<Rightarrow> nat \<Rightarrow> ('h, 'm) statistics_manager \<Rightarrow>
     ('h, 'm) statistics_manager res" where
  "create_connections connect 0 sm = Inr sm"
| "create_connections connect (Suc n) sm = res_bind (connect sm) (create_connections connect n)"

locale connection_factory =
  fixes connect :: "('h, 'm) statistics_manager \<Rightarrow> ('h, 'm) statistics_manager res"
  assumes connect_wf: "connect sm = Inr sm' \<Longrightarrow> manager_wf sm \<Longrightarrow> manager_wf sm'"
begin

lemma create_connections_wf: "create_connections connect n sm = Inr sm' \<Longrightarrow> manager_wf sm \<Longrightarrow> manager_wf sm'"
  by (induction n arbitrary: sm) (auto simp: res_bind_eq_Inr intro: connect_wf)

end

definition memcached_connect ::
  "flags \<Rightarrow> (string \<Rightarrow> string res) \<Rightarrow> ('h, 'm) statistics_manager \<Rightarrow> ('h, 'm) statistics_manager res" where
  "memcached_connect F resolve sm = res_map (\<lambda>_. sm) (Connection_Memcached F resolve (\<lambda>host port. ()) ())"

definition sleep_connect ::
  "'h histogram_ops \<Rightarrow> flags \<Rightarrow> (string \<Rightarrow> string res) \<Rightarrow> ('h, 'm) statistics_manager \<Rightarrow> ('h, 'm) statistics_manager res" where
  "sleep_connect H F resolve sm = res_map snd (Connection_Sleep H F resolve (\<lambda>host port. ()) sm)"

interpretation memcached_conn: connection_factory "memcached_connect F resolve" for F resolve
  by unfold_locales (auto simp: memcached_connect_def res_map_eq_Inr)

interpretation sleep_conn: connection_factory "sleep_connect H F resolve" for H F resolve
proof unfold_locales
  fix sm sm' :: "('a, 'b) statistics_manager"
  assume c: "sleep_connect H F resolve sm = Inr sm'" "manager_wf sm"
  obtain p sm1 where "manager_call H undefined (Get_continuous ''SleepTime'') sm = (p, sm1)" by fastforce
  then show "manager_wf sm'"
    using c manager_call_wf by (fastforce simp: sleep_connect_def Connection_Sleep_def res_map_eq_Inr)
qed

section \<open>The sleep server\<close>

text \<open>\<open>getStatus\<close> of the handler: \<open>ALIVE\<close> is fb303's status code.\<close>

definition SleepHandler_getStatus :: "'s \<Rightarrow> 's" where
  "SleepHandler_getStatus ALIVE = ALIVE"

text \<open>\<open>timersub\<close> of \<open>sys/time.h\<close>\<close>

definition timersub :: "timeval \<Rightarrow> timeval \<Rightarrow> timeval" where
  "timersub a b =
     (let sec = tvl_sec a - tvl_sec b; usec = tvl_usec a - tvl_usec b
      in if usec < 0 then \<lparr>tvl_sec = sec - 1, tvl_usec = usec + 1000000\<rparr>
         else \<lparr>tvl_sec = sec, tvl_usec = usec\<rparr>)"

text \<open>
  \<open>future_goSleep\<close>: \<open>os us\<close> is the pair of clock readings before and after \<open>usleep(us)\<close>; the
  parameter of \<open>usleep\<close> is a 32-bit unsigned integer.
\<close>

definition future_goSleep :: "(uint32 \<Rightarrow> timeval \<times> timeval) \<Rightarrow> int64 \<Rightarrow> int64 res" where
  "future_goSleep os time = (case os (word_of_int time) of (start_time, end_time) \<Rightarrow>
     (let diff_time = timersub end_time start_time
      in double_to_int64 (double_of_int (tvl_sec diff_time) * double_of 1000000
           + double_of_int (tvl_usec diff_time))))"

section \<open>Lemmas\<close>

definition normal_timeval :: "timeval \<Rightarrow> bool" where
  "normal_timeval t \<longleftrightarrow> 0 \<le> tvl_usec t \<and> tvl_usec t < 1000000"

definition timeval_us :: "timeval \<Rightarrow> int" where
  "timeval_us t = tvl_sec t * 1000000 + tvl_usec t"

lemma timersub_us:
  assumes "normal_timeval a" "normal_timeval b"
  shows "timeval_us (timersub a b) = timeval_us a - timeval_us b" "normal_timeval (timersub a b)"
  using assms by (auto simp: timersub_def timeval_us_def normal_timeval_def Let_def)

lemma future_goSleep_elapsed:
  assumes "os (word_of_int time) = (a, b)" "normal_timeval a" "normal_timeval b"
    and "timeval_us a \<le> timeval_us b" "timeval_us b - timeval_us a \<le> 2 ^ 53"
  shows "future_goSleep os time = Inr (timeval_us b - timeval_us a)"
proof -
  let ?d = "timersub b a"
  have d: "timeval_us ?d = timeval_us b - timeval_us a" "0 \<le> tvl_usec ?d" "tvl_usec ?d < 1000000"
    using timersub_us [OF assms(3,2)] by (auto simp: normal_timeval_def)
  have "0 \<le> tvl_sec ?d" "tvl_sec ?d * 1000000 \<le> 2 ^ 53"
    using d assms(4,5) by (auto simp: timeval_us_def)
  then have s: "\<bar>tvl_sec ?d\<bar> \<le> 2 ^ 53" "\<bar>tvl_sec ?d * 1000000\<bar> \<le> 2 ^ 53" by simp_all
  have m: "double_of 1000000 = Fin 1000000"
    using double_of_int_exact [of 1000000] by (simp add: double_of_def double_of_int_def del: double_of_int_exact)
  have "round64 (of_int (tvl_sec ?d) * 1000000) = Fin (of_int (tvl_sec ?d * 1000000))"
    using double_of_int_exact [OF s(2)] by (simp add: double_of_int_def del: double_of_int_exact)
  moreover have "round64 (of_int (tvl_sec ?d) * 1000000 + of_int (tvl_usec ?d)) = Fin (of_int (timeval_us ?d))"
    using double_of_int_exact [of "timeval_us ?d"] d assms(4,5)
    by (simp add: double_of_int_def timeval_us_def del: double_of_int_exact)
  ultimately have "double_of_int (tvl_sec ?d) * double_of 1000000 + double_of_int (tvl_usec ?d) =
      Fin (of_int (timeval_us ?d))"
    using s d(2,3) m by simp
  then have "future_goSleep os time = double_to_int64 (Fin (of_int (timeval_us ?d)))"
    by (simp add: future_goSleep_def assms(1) Let_def)
  also have "\<dots> = Inr (timeval_us ?d)"
    using d(1) assms(4,5) by (intro double_to_int64_of_int) (simp add: in_int64_def)
  finally show ?thesis using d(1) by simp
qed

lemma SleepReply_exact: "\<bar>t\<bar> \<le> 2 ^ 53 \<Longrightarrow> SleepReply_sleep_time (SleepReply t) = Inr t"
  by (simp add: SleepReply_def SleepReply_sleep_time_def abs_le_iff double_to_int64_of_int in_int64_def)

lemma double_of_int_tie: "double_of_int (2 ^ 53 + 1) = Fin (2 ^ 53)"
proof -
  let ?x = "2 ^ 53 + 1 :: rat"
  have "ilog2 ?x = 53" by (rule ilog2_unique) (simp_all add: powi2_nat)
  then have u: "ulp_exp ?x = 1" by (simp add: ulp_exp_def)
  have "round_even (?x / 2) = 2 ^ 52"
  proof -
    have "\<lfloor>?x / 2\<rfloor> = 2 ^ 52" by (rule floor_unique) simp_all
    then show ?thesis by (simp add: round_even_def)
  qed
  then have "nearest64 ?x = 2 ^ 53" unfolding nearest64_def u by simp
  moreover have "(2 :: rat) ^ 53 < 2 ^ 1024" by (rule power_strict_increasing) simp_all
  ultimately show ?thesis using round64_Fin [of ?x] by (simp add: double_of_int_def)
qed

text \<open>Every connection of the sleep service shares one histogram of the sleep times.\<close>

lemma create_sleep_connections:
  assumes "create_connections (sleep_connect H F resolve) n sm = Inr sm'" "0 < n"
  shows "sm' = snd (getContinuousStat H ''SleepTime'' sm)"
proof -
  have again: "getContinuousStat H ''SleepTime'' (snd (getContinuousStat H ''SleepTime'' sm)) = getContinuousStat H ''SleepTime'' sm"
    for sm :: "('a, 'b) statistics_manager"
    by (simp add: getContinuousStat_def Let_def split: option.split)
  have one: "sleep_connect H F resolve sm = Inr v \<Longrightarrow> v = snd (getContinuousStat H ''SleepTime'' sm)" for sm v
    by (auto simp: sleep_connect_def Connection_Sleep_def res_map_eq_Inr split: prod.splits)
  show ?thesis
    using assms
  proof (induction n arbitrary: sm)
    case (Suc n)
    then obtain v where v: "sleep_connect H F resolve sm = Inr v" "create_connections (sleep_connect H F resolve) n v = Inr sm'"
      by (auto simp: res_bind_eq_Inr)
    then show ?case using Suc.IH [OF v(2)] one [OF v(1)] again by (cases n) auto
  qed simp
qed

section \<open>Properties\<close>

text \<open>
  C38. The sleep service reports the time slept. If the server's clock readings around the sleep are
  normalised and do not go back, and the sleep lasts at most \<open>2 ^ 53\<close> microseconds, then the reply
  that the client hands to the worker carries exactly the elapsed microseconds, through \<open>timersub\<close>,
  two roundings on the server, the conversion to \<open>int64_t\<close>, and the \<open>double\<close> of \<open>SleepReply\<close>; the
  same number is added to the histogram.
\<close>

theorem sleep_reply_elapsed:
  assumes "os (word_of_int (sr_sleep_time request)) = (a, b)" "normal_timeval a" "normal_timeval b"
    and "timeval_us a \<le> timeval_us b" "timeval_us b - timeval_us a \<le> 2 ^ 53"
    and "\<And>t v. future_goSleep os t = Inr v \<Longrightarrow> goSleep t = Value v"
  shows "\<exists>reply. sleep_sendRequest H goSleep request histo =
      (Value reply, h_addValue H (Fin (of_int (timeval_us b - timeval_us a))) histo) \<and>
    SleepReply_sleep_time reply = Inr (timeval_us b - timeval_us a)"
proof -
  let ?t = "timeval_us b - timeval_us a"
  have "goSleep (sr_sleep_time request) = Value ?t"
    using assms(6) future_goSleep_elapsed [of os "sr_sleep_time request", OF assms(1-5)] by blast
  moreover have t: "\<bar>?t\<bar> \<le> 2 ^ 53" using assms(4,5) by simp
  ultimately show ?thesis
    by (simp add: sleep_sendRequest_def SleepReply_exact [OF t] double_of_int_exact [OF t])
qed

theorem sleep_reply_elapsed_witness:
  "\<exists>reply. sleep_sendRequest
       \<lparr>h_new = [], h_addValue = (#), h_flush = (\<lambda>h. h),
        h_estimateQuantiles = (\<lambda>_ _. \<lparr>est_sum = NaN, est_count = NaN, est_quantiles = []\<rparr>)\<rparr>
       (\<lambda>t. case future_goSleep (\<lambda>us. (\<lparr>tvl_sec = 1, tvl_usec = 999500\<rparr>, \<lparr>tvl_sec = 2, tvl_usec = 600\<rparr>)) t of
          Inr v \<Rightarrow> Value v | Inl _ \<Rightarrow> Exception ''TApplicationException'' '''')
       (SleepRequest SLEEP 1000) [] = (Value reply, [Fin 1100]) \<and>
     SleepReply_sleep_time reply = Inr 1100"
  using sleep_reply_elapsed [of "\<lambda>us. (\<lparr>tvl_sec = 1, tvl_usec = 999500\<rparr>, \<lparr>tvl_sec = 2, tvl_usec = 600\<rparr>)"
      "SleepRequest SLEEP 1000" "\<lparr>tvl_sec = 1, tvl_usec = 999500\<rparr>" "\<lparr>tvl_sec = 2, tvl_usec = 600\<rparr>"
      "\<lambda>t. case future_goSleep (\<lambda>us. (\<lparr>tvl_sec = 1, tvl_usec = 999500\<rparr>, \<lparr>tvl_sec = 2, tvl_usec = 600\<rparr>)) t of
          Inr v \<Rightarrow> Value v | Inl _ \<Rightarrow> Exception ''TApplicationException'' ''''"
      "\<lparr>h_new = [], h_addValue = (#), h_flush = (\<lambda>h. h),
        h_estimateQuantiles = (\<lambda>_ _. \<lparr>est_sum = NaN, est_count = NaN, est_quantiles = []\<rparr>)\<rparr>" "[]"]
  by (simp add: normal_timeval_def timeval_us_def)

text \<open>
  \<open>SleepReply\<close> loses precision. The member that holds the 64-bit sleep time is a \<open>double\<close>: a value
  of magnitude up to \<open>2 ^ 53\<close> is read back unchanged, but \<open>2 ^ 53 + 1\<close> is read back as \<open>2 ^ 53\<close>, so
  the accessor does not return what the constructor was given.
\<close>

lemma sleep_reply_precision:
  "(\<forall>t. \<bar>t\<bar> \<le> 2 ^ 53 \<longrightarrow> SleepReply_sleep_time (SleepReply t) = Inr t) \<and>
   SleepReply_sleep_time (SleepReply (2 ^ 53 + 1)) = Inr (2 ^ 53)"
proof
  show "SleepReply_sleep_time (SleepReply (2 ^ 53 + 1)) = Inr (2 ^ 53)"
    using double_to_int64_of_int [of "2 ^ 53"]
    unfolding SleepReply_sleep_time_def SleepReply_def sleep_reply.simps double_of_int_tie by (simp add: in_int64_def)
qed (simp add: SleepReply_exact)

text \<open>
  A memcached reply is always a success. Whatever the client answers to a GET, a SET or a DELETE,
  a lost connection included, the promise gets a value and the worker counts no exception; the
  command sent carries the request's key and, for a SET, its value.
\<close>

lemma memcached_reply_always_value:
  "fst (memcached_sendRequest sendSync request client) = Value MemcachedReply \<and>
   snd (memcached_sendRequest sendSync request client) =
     snd (sendSync (case which request of
            GET \<Rightarrow> McGetRequest (mr_key request)
          | SET \<Rightarrow> McSetRequest (mr_key request) (mr_value request)
          | DELETE \<Rightarrow> McDeleteRequest (mr_key request)) client)"
  by (simp add: memcached_sendRequest_def memcached_command_def split: prod.split memcached_operation.split)

text \<open>
  Readiness of the generic connection. Without a counter name it is ready at once; with one it is
  ready exactly when the counter has reached the threshold (\<open>value \<ge> threshold\<close>, not only above it);
  and the template leaves its client pointer null, so asking it with a counter name dereferences
  null.
\<close>

lemma connection_ready_threshold:
  "isReady F client = (if FLAGS_counter_name F = [] then Inr True
     else case client of None \<Rightarrow> Inl (Undefined Null_dereference)
       | Some getCounter \<Rightarrow> res_map (\<lambda>v. FLAGS_counter_threshold F \<le> v) (getCounter (FLAGS_counter_name F)))"
proof -
  have "res_bind m (\<lambda>v. if v < t then Inr False else Inr True) = res_map (\<lambda>v. t \<le> v) m" for m and t :: int
    by (cases m) auto
  then show ?thesis by (auto simp: isReady_def split: option.split)
qed

end
