(* ===== verification/Worker.thy ===== *)
theory Worker
  imports Scheduler Services
begin

text \<open>
  \<open>Worker.h\<close>: the thread that turns SEND_REQUEST messages into requests on its connections and
  accounts for the replies. The record \<open>worker\<close> has the members of the class; the requests that
  are on their way, whose continuations the class leaves with the futures, are the list
  \<open>wk_in_flight\<close> with what each continuation captured. Calls that leave the class (requests handed
  to a connection, values added to shared statistics, fb303 counters, promises, the early
  termination callback, the event base) are appended to the log \<open>wk_effects\<close>.

  Messages and continuations run one at a time on the worker's own thread; \<open>stop\<close>, \<open>join\<close> and
  \<open>hasMoreWork\<close> are called by the runner. The step relation \<open>worker_step\<close> puts them together.
\<close>

section \<open>State\<close>

datatype 'r effect =
    Sent nat 'r
  | Add_value pointer double
  | Increase pointer int64 string
  | Set_counter string int64
  | Set_promise "string option"
  | Terminate_early
  | Start_consuming
  | Stop_consuming
  | Run_in_loop_terminate
  | Set_affinity int

record 'r in_flight =
  fl_conn :: nat
  fl_send_time :: int64
  fl_request :: 'r

type_synonym exception_counts = "(string \<times> uint64) list"

record ('w, 'r) worker =
  wk_worker_id :: int32
  wk_connections :: nat
  wk_running :: bool
  wk_number_of_workers :: int32
  wk_number_of_connections :: int32
  wk_max_outstanding_requests :: int32
  wk_workload :: 'w
  wk_cpu_affinity :: int32
  wk_last_throughput_time :: int64
  wk_n_throughput_requests :: int64
  wk_n_exceptions_by_type :: exception_counts
  wk_n_uncaught_exceptions_by_type :: exception_counts
  wk_sender_thread :: thread_handle
  wk_conn_idx :: uint64
  wk_outstanding_requests :: int64
  wk_latency_statistic :: "pointer option"
  wk_outstanding_statistic :: "pointer option"
  wk_throughput_statistic :: "pointer option"
  wk_exceptions_statistic :: "pointer option"
  wk_uncaught_exceptions_statistic :: "pointer option"
  wk_consuming :: bool
  wk_terminate_loop :: bool
  wk_in_flight :: "'r in_flight list"
  wk_ticks :: nat
  wk_effects :: "'r effect list"

definition emit :: "'r effect \<Rightarrow> ('w, 'r) worker \<Rightarrow> ('w, 'r) worker" where
  "emit x w = w\<lparr>wk_effects := wk_effects w @ [x]\<rparr>"

text \<open>The surroundings: the workload's operations, the clock and the payloads of events.\<close>

record ('w, 'r, 'd) worker_env =
  we_workload :: "('w, 'r) workload_ops"
  we_clock :: clock
  we_dynamic :: "'d dynamic_ops"

definition read_clock :: "('w, 'r, 'd) worker_env \<Rightarrow> ('w, 'r) worker \<Rightarrow> (int64 \<times> ('w, 'r) worker) res" where
  "read_clock E w = res_map (\<lambda>t. (t, w\<lparr>wk_ticks := wk_ticks w + 1\<rparr>)) (nowNs (we_clock E) (wk_ticks w))"

definition kOutstandingRequestsCounter :: string where
  "kOutstandingRequestsCounter = ''outstanding_requests''"

definition setWorkerCounter :: "string \<Rightarrow> int64 \<Rightarrow> ('w, 'r) worker \<Rightarrow> ('w, 'r) worker" where
  "setWorkerCounter key value w =
     emit (Set_counter (''worker.'' @ string_of_int (wk_worker_id w) @ ''.'' @ key) value) w"

section \<open>Construction, start and stop\<close>

text \<open>
  The member \<open>running_\<close> has no initialiser: its first value is the argument \<open>indeterminate\<close>. One
  connection is created per iteration of the constructor's loop, none for a negative count.
\<close>

definition Worker8 ::
  "bool \<Rightarrow> int32 \<Rightarrow> int32 \<Rightarrow> int32 \<Rightarrow> int32 \<Rightarrow> 'w \<Rightarrow> int32 \<Rightarrow> ('w, 'r) worker" where
  "Worker8 indeterminate worker_id number_of_workers number_of_connections max_outstanding_requests
     workload_of_config cpu_affinity =
     setWorkerCounter kOutstandingRequestsCounter 0 \<lparr>
       wk_worker_id = worker_id,
       wk_connections = nat number_of_connections,
       wk_running = indeterminate,
       wk_number_of_workers = number_of_workers,
       wk_number_of_connections = number_of_connections,
       wk_max_outstanding_requests = max_outstanding_requests,
       wk_workload = workload_of_config,
       wk_cpu_affinity = cpu_affinity,
       wk_last_throughput_time = 0,
       wk_n_throughput_requests = 0,
       wk_n_exceptions_by_type = [],
       wk_n_uncaught_exceptions_by_type = [],
       wk_sender_thread = No_thread,
       wk_conn_idx = 0,
       wk_outstanding_requests = 0,
       wk_latency_statistic = None,
       wk_outstanding_statistic = None,
       wk_throughput_statistic = None,
       wk_exceptions_statistic = None,
       wk_uncaught_exceptions_statistic = None,
       wk_consuming = False,
       wk_terminate_loop = False,
       wk_in_flight = [],
       wk_ticks = 0,
       wk_effects = []\<rparr>"

definition Worker9 ::
  "bool \<Rightarrow> int32 \<Rightarrow> int32 \<Rightarrow> int32 \<Rightarrow> int32 \<Rightarrow> 'w \<Rightarrow> int32 \<Rightarrow> 'w \<Rightarrow> ('w, 'r) worker" where
  "Worker9 indeterminate worker_id number_of_workers number_of_connections max_outstanding_requests
     workload_of_config cpu_affinity workload_arg =
     (Worker8 indeterminate worker_id number_of_workers number_of_connections max_outstanding_requests
        workload_of_config cpu_affinity)\<lparr>wk_workload := workload_arg\<rparr>"

text \<open>\<open>while (!conn->isReady()) sleep(1)\<close>: \<open>ready j\<close> is the answer to the \<open>j\<close>-th question.\<close>

partial_function (option) wait_ready :: "(nat \<Rightarrow> bool) \<Rightarrow> nat \<Rightarrow> nat option" where
  "wait_ready ready j = (if ready j then Some j else wait_ready ready (j + 1))"

primrec wait_all_ready :: "(nat \<Rightarrow> nat \<Rightarrow> bool) \<Rightarrow> nat list \<Rightarrow> unit option" where
  "wait_all_ready ready [] = Some ()"
| "wait_all_ready ready (i # is) = Option.bind (wait_ready (ready i) 0) (\<lambda>_. wait_all_ready ready is)"

definition worker_run :: "flags \<Rightarrow> (nat \<Rightarrow> nat \<Rightarrow> bool) \<Rightarrow> ('w, 'r) worker \<Rightarrow> ('w, 'r) worker res option" where
  "worker_run F ready w =
     (if FLAGS_counter_name F \<noteq> [] \<and> (\<not> FLAGS_wait_for_target_ready F \<or> FLAGS_counter_threshold F < 0)
      then Some (Inl (Fatal (''--counter_name '' @ FLAGS_counter_name F @
             '' specified without --wait_for_target_ready or valid --counter_threshold value'')))
      else Option.bind
             (if FLAGS_wait_for_target_ready F then wait_all_ready ready [0..<wk_connections w] else Some ())
             (\<lambda>_. Some (if wk_sender_thread w = Joinable then Inl Aborted
                        else Inr (w\<lparr>wk_running := True, wk_sender_thread := Joinable\<rparr>))))"

definition worker_stop :: "('w, 'r) worker \<Rightarrow> ('w, 'r) worker" where
  "worker_stop w = emit Run_in_loop_terminate (w\<lparr>wk_running := False, wk_terminate_loop := True\<rparr>)"

definition worker_join :: "('w, 'r) worker \<Rightarrow> ('w, 'r) worker res" where
  "worker_join w = (case wk_sender_thread w of
     No_thread \<Rightarrow> Inl (Undefined Null_dereference)
   | Joinable \<Rightarrow> Inr (w\<lparr>wk_sender_thread := Joined\<rparr>)
   | Joined \<Rightarrow> Inl (Thrown ''std::system_error''))"

definition hasMoreWork :: "('w, 'r) worker \<Rightarrow> bool" where
  "hasMoreWork w \<longleftrightarrow> wk_running w \<or> 0 < wk_outstanding_requests w"

definition setMaxOutstanding :: "int32 \<Rightarrow> ('w, 'r) worker \<Rightarrow> ('w, 'r) worker" where
  "setMaxOutstanding max_outstanding_requests w =
     w\<lparr>wk_max_outstanding_requests := max_outstanding_requests\<rparr>"

text \<open>
  \<open>senderLoop\<close> up to the event loop: the statistics come from the manager that all workers share.
\<close>

definition senderLoop ::
  "('w, 'r, 'd) worker_env \<Rightarrow> 'h histogram_ops \<Rightarrow> 'm insert_map_ops \<Rightarrow> ('w, 'r) worker \<Rightarrow>
     ('h, 'm) statistics_manager \<Rightarrow> (('w, 'r) worker \<times> ('h, 'm) statistics_manager) res" where
  "senderLoop E H M w sm =
     (let w0 = (if wk_cpu_affinity w \<noteq> -1 then emit (Set_affinity (wk_cpu_affinity w)) w else w);
          (p1, sm1) = getContinuousStat H OUTSTANDING_REQUESTS sm;
          (p2, sm2) = getContinuousStat H THROUGHPUT sm1;
          (p3, sm3) = getContinuousStat H REQUEST_LATENCY sm2;
          (p4, sm4) = getCounterStat M EXCEPTIONS sm3;
          (p5, sm5) = getCounterStat M UNCAUGHT_EXCEPTIONS sm4
      in res_bind (read_clock E w0) (\<lambda>(t, w1).
           Inr (emit Start_consuming (w1\<lparr>
                  wk_outstanding_statistic := Some p1, wk_throughput_statistic := Some p2,
                  wk_latency_statistic := Some p3, wk_exceptions_statistic := Some p4,
                  wk_uncaught_exceptions_statistic := Some p5,
                  wk_last_throughput_time := t, wk_consuming := True\<rparr>), sm5)))"

section \<open>Sending\<close>

definition increment :: "string \<Rightarrow> exception_counts \<Rightarrow> exception_counts" where
  "increment k m = AList.update k (case map_of m k of None \<Rightarrow> 1 | Some n \<Rightarrow> n + 1) m"

text \<open>
  The first part of \<open>sendRequest\<close>: whether the call goes on to the estimates, and the state. A null
  request ends the call early.
\<close>

definition send_next :: "('w, 'r, 'd) worker_env \<Rightarrow> ('w, 'r) worker \<Rightarrow> (bool \<times> ('w, 'r) worker) res" where
  "send_next E w =
     res_bind (wl_getNextRequest (we_workload E) (wk_workload w)) (\<lambda>(request, workload').
       case request of
         None \<Rightarrow> Inr (False, emit Terminate_early (w\<lparr>wk_workload := workload', wk_running := False\<rparr>))
       | Some r \<Rightarrow>
           (let w1 = w\<lparr>wk_workload := workload',
                       wk_outstanding_requests := to_int64 (wk_outstanding_requests w + 1)\<rparr>;
                n = (word_of_int (wk_number_of_connections w) :: uint64);
                conn_idx = wk_conn_idx w1
            in if n = 0 then Inl (Undefined Division_by_zero)
               else res_bind (read_clock E (w1\<lparr>wk_conn_idx := (conn_idx + 1) mod n\<rparr>)) (\<lambda>(send_time, w2).
                      if unat conn_idx < wk_connections w2
                      then Inr (True, emit (Sent (unat conn_idx) r) (w2\<lparr>wk_in_flight := wk_in_flight w2 @
                             [\<lparr>fl_conn = unat conn_idx, fl_send_time = send_time, fl_request = r\<rparr>]\<rparr>))
                      else Inl (Undefined Out_of_bounds))))"

definition add_value :: "pointer option \<Rightarrow> double \<Rightarrow> ('w, 'r) worker \<Rightarrow> ('w, 'r) worker res" where
  "add_value p v w = res_map (\<lambda>q. emit (Add_value q v) w) (deref p)"

definition estimate_throughput :: "('w, 'r, 'd) worker_env \<Rightarrow> ('w, 'r) worker \<Rightarrow> ('w, 'r) worker res" where
  "estimate_throughput E w =
     res_bind (read_clock E w) (\<lambda>(t, w0).
     res_bind (check_int64 (t - wk_last_throughput_time w0)) (\<lambda>elapsed.
       (let throughput_delta = double_of_int elapsed / double_of_int k_ns_per_s
        in if double_of (1 / 10) \<le> throughput_delta
           then (let throughput = double_of_int (wk_n_throughput_requests w0) / throughput_delta
                                  * double_of_int (wk_number_of_workers w0)
                 in res_bind (add_value (wk_throughput_statistic w0) throughput w0) (\<lambda>w1.
                    res_bind (check_int64 (wk_outstanding_requests w1 * wk_number_of_workers w1)) (\<lambda>outstanding.
                      add_value (wk_outstanding_statistic w1) (double_of_int outstanding)
                        (w1\<lparr>wk_n_throughput_requests := 0, wk_last_throughput_time := t\<rparr>))))
           else Inr w0)))"

definition flush_counts ::
  "pointer option \<Rightarrow> exception_counts \<Rightarrow> ('w, 'r) worker \<Rightarrow> ('w, 'r) worker res" where
  "flush_counts p m w = res_fold (\<lambda>kn w. res_map (\<lambda>q. emit (Increase q (to_int64 (uint (snd kn))) (fst kn)) w) (deref p)) m w"

definition estimate :: "('w, 'r, 'd) worker_env \<Rightarrow> ('w, 'r) worker \<Rightarrow> ('w, 'r) worker res" where
  "estimate E w =
     res_bind (estimate_throughput E w) (\<lambda>w1.
     res_bind (flush_counts (wk_exceptions_statistic w1) (wk_n_exceptions_by_type w1) w1) (\<lambda>w2.
     res_bind (flush_counts (wk_uncaught_exceptions_statistic w2) (wk_n_uncaught_exceptions_by_type w2)
                 (w2\<lparr>wk_n_exceptions_by_type := []\<rparr>)) (\<lambda>w3.
       Inr (setWorkerCounter kOutstandingRequestsCounter (wk_outstanding_requests w3)
              (w3\<lparr>wk_n_uncaught_exceptions_by_type := []\<rparr>)))))"

definition worker_sendRequest :: "('w, 'r, 'd) worker_env \<Rightarrow> ('w, 'r) worker \<Rightarrow> ('w, 'r) worker res" where
  "worker_sendRequest E w =
     res_bind (if wk_outstanding_requests w < wk_max_outstanding_requests w \<and> wk_running w
               then send_next E w else Inr (True, w))
       (\<lambda>(continue, w1). if continue then estimate E w1 else Inr w1)"

section \<open>Replies\<close>

text \<open>
  The continuation of the request at position \<open>i\<close> of \<open>wk_in_flight\<close>. Setting the exception of the
  promise completes the workload's future, on which \<open>sendRequest\<close> hung the counting of uncaught
  exceptions: both workloads return the promise's own future.
\<close>

definition complete_promise :: "'p reply_try \<Rightarrow> ('w, 'r) worker \<Rightarrow> ('w, 'r) worker" where
  "complete_promise t w = (case t of
     Exception cls what \<Rightarrow>
       emit (Set_promise (Some cls)) (w\<lparr>
         wk_n_exceptions_by_type := increment cls (wk_n_exceptions_by_type w),
         wk_n_uncaught_exceptions_by_type := increment cls (wk_n_uncaught_exceptions_by_type w)\<rparr>)
   | Value v \<Rightarrow> emit (Set_promise None) w)"

definition reply :: "('w, 'r, 'd) worker_env \<Rightarrow> nat \<Rightarrow> 'p reply_try \<Rightarrow> ('w, 'r) worker \<Rightarrow> ('w, 'r) worker res" where
  "reply E i t w =
     res_bind (vec_at (wk_in_flight w) i) (\<lambda>fl.
     res_bind (read_clock E w) (\<lambda>(recv_time, w0).
     res_bind (if wk_running w0
               then res_bind (check_int64 (recv_time - fl_send_time fl)) (\<lambda>d.
                      add_value (wk_latency_statistic w0) (double_of_int d / double_of 1000) w0)
               else Inr w0) (\<lambda>w1.
       (let w2 = complete_promise t
                   (w1\<lparr>wk_n_throughput_requests := to_int64 (wk_n_throughput_requests w1 + 1)\<rparr>);
            w3 = w2\<lparr>wk_outstanding_requests := to_int64 (wk_outstanding_requests w2 - 1),
                    wk_in_flight := take i (wk_in_flight w2) @ drop (i + 1) (wk_in_flight w2)\<rparr>
        in Inr (setWorkerCounter kOutstandingRequestsCounter (wk_outstanding_requests w3) w3)))))"

section \<open>Messages\<close>

definition messageAvailable ::
  "('w, 'r, 'd) worker_env \<Rightarrow> 'd event \<Rightarrow> ('w, 'r) worker \<Rightarrow> ('w, 'r) worker res" where
  "messageAvailable E event w =
     (if getEventType event = STOP \<or> \<not> wk_running w
      then Inr (emit Stop_consuming (w\<lparr>wk_consuming := False, wk_running := False\<rparr>))
      else if getEventType event = RESET
      then Inr (w\<lparr>wk_workload := wl_reset (we_workload E) (wk_workload w)\<rparr>)
      else if getEventType event = SEND_REQUEST
      then worker_sendRequest E w
      else if getEventType event = SET_MAX_OUTSTANDING
      then (let extraData = getExtraData event
            in if \<not> dyn_isInt (we_dynamic E) extraData then Inr w
               else Inr (setMaxOutstanding (to_int32 (dyn_asInt (we_dynamic E) extraData)) w))
      else if getEventType event = SET_PHASE
      then (let extraData = getExtraData event
            in if \<not> dyn_isString (we_dynamic E) extraData then Inr w
               else Inr (w\<lparr>wk_workload :=
                      wl_setPhase (we_workload E) (dyn_asString (we_dynamic E) extraData) (wk_workload w)\<rparr>))
      else Inr w)"

section \<open>The worker as a system\<close>

text \<open>
  A step is one message, one continuation or one call of \<open>stop\<close>. The value of a reply is moved into
  the promise unread, so the unit type stands for it here.
\<close>

inductive worker_step :: "('w, 'r, 'd) worker_env \<Rightarrow> ('w, 'r) worker \<Rightarrow> ('w, 'r) worker \<Rightarrow> bool"
  for E :: "('w, 'r, 'd) worker_env" where
  message: "wk_consuming w \<Longrightarrow> messageAvailable E event w = Inr w' \<Longrightarrow> worker_step E w w'"
| continuation: "reply E i (t :: unit reply_try) w = Inr w' \<Longrightarrow> worker_step E w w'"
| stop_call: "worker_step E w (worker_stop w)"

inductive_cases worker_stepE: "worker_step E w w'"

end
