(* ===== verification/Worker_Accounting.thy ===== *)
theory Worker_Accounting
  imports Worker
begin

text \<open>
  What a worker does over time: each operation of \<open>Worker\<close> as an equation on the record, the
  invariant of the worker's steps, the order of the connections, and the accounts of requests and
  exceptions.
\<close>

section \<open>Reading the log of effects\<close>

fun sent :: "'r effect list \<Rightarrow> (nat \<times> 'r) list" where
  "sent [] = []"
| "sent (Sent c r # xs) = (c, r) # sent xs"
| "sent (_ # xs) = sent xs"

text \<open>The sum of the increases of the counter \<open>p\<close> under the subkey \<open>k\<close>.\<close>

fun increases :: "pointer \<Rightarrow> string \<Rightarrow> 'r effect list \<Rightarrow> int" where
  "increases p k [] = 0"
| "increases p k (Increase q n j # xs) = (if q = p \<and> j = k then n else 0) + increases p k xs"
| "increases p k (_ # xs) = increases p k xs"

text \<open>The replies that ended in an exception of the class \<open>k\<close>.\<close>

fun exceptions_of :: "string \<Rightarrow> 'r effect list \<Rightarrow> int" where
  "exceptions_of k [] = 0"
| "exceptions_of k (Set_promise (Some j) # xs) = (if j = k then 1 else 0) + exceptions_of k xs"
| "exceptions_of k (_ # xs) = exceptions_of k xs"

fun no_account :: "'r effect \<Rightarrow> bool" where
  "no_account (Sent c r) = False"
| "no_account (Increase p n k) = False"
| "no_account (Set_promise e) = (e = None)"
| "no_account _ = True"

lemma sent_append [simp]: "sent (xs @ ys) = sent xs @ sent ys"
  by (induction xs rule: sent.induct) simp_all

lemma increases_append [simp]: "increases p k (xs @ ys) = increases p k xs + increases p k ys"
  by (induction p k xs rule: increases.induct) simp_all

lemma exceptions_of_append [simp]: "exceptions_of k (xs @ ys) = exceptions_of k xs + exceptions_of k ys"
  by (induction k xs rule: exceptions_of.induct) simp_all

lemma exceptions_of_bounds: "0 \<le> exceptions_of k xs" "exceptions_of k xs \<le> int (length xs)"
  by (induction k xs rule: exceptions_of.induct) auto

lemma no_account_silent:
  "list_all no_account xs \<Longrightarrow> sent xs = [] \<and> increases p k xs = 0 \<and> exceptions_of k xs = 0"
proof (induction xs)
  case (Cons x xs)
  then show ?case by (cases x) auto
qed simp

definition flushed :: "pointer \<Rightarrow> exception_counts \<Rightarrow> 'r effect list" where
  "flushed p m = map (\<lambda>kn. Increase p (to_int64 (uint (snd kn))) (fst kn)) m"

lemma flushed_simps [simp]:
  "flushed p [] = []" "flushed p (kn # m) = Increase p (to_int64 (uint (snd kn))) (fst kn) # flushed p m"
  by (simp_all add: flushed_def)

lemma flushed_silent [simp]: "sent (flushed p m) = []" "exceptions_of k (flushed p m) = 0"
  by (induction m) simp_all

lemma flushed_other: "p \<noteq> q \<Longrightarrow> increases p k (flushed q m) = 0"
  by (induction m) simp_all

text \<open>The pending count of a class.\<close>

definition pending :: "exception_counts \<Rightarrow> string \<Rightarrow> int" where
  "pending m k = (case map_of m k of None \<Rightarrow> 0 | Some n \<Rightarrow> uint n)"

lemma flushed_absent: "k \<notin> fst ` set m \<Longrightarrow> increases p k (flushed p m) = 0"
  by (induction m) auto

lemma flushed_pending:
  "distinct (map fst m) \<Longrightarrow> \<forall>k. pending m k < 2 ^ 63 \<Longrightarrow> increases p k (flushed p m) = pending m k"
proof (induction m)
  case (Cons kn m)
  have r: "uint (snd kn) < 2 ^ 63" using Cons.prems(2) by (auto simp: pending_def dest: spec [of _ "fst kn"])
  have n: "in_int64 (uint (snd kn))" using r uint_ge_0 [of "snd kn"] unfolding in_int64_def by (intro conjI) (linarith, simp)
  have "pending m j < 2 ^ 63" for j
  proof (cases "j = fst kn")
    case True
    then have "map_of m j = None" using Cons.prems(1) by (simp add: map_of_eq_None_iff)
    then show ?thesis by (simp add: pending_def)
  next
    case False
    then show ?thesis using Cons.prems(2) by (auto simp: pending_def dest: spec [of _ j])
  qed
  moreover have "map_of m (fst kn) = None" using Cons.prems(1) by (simp add: map_of_eq_None_iff)
  ultimately show ?case
    using Cons.IH Cons.prems(1) n by (cases "k = fst kn") (simp_all add: pending_def)
qed (simp add: pending_def)

lemma increment_distinct: "distinct (map fst m) \<Longrightarrow> distinct (map fst (increment k m))"
  by (simp add: increment_def distinct_update)

lemma pending_increment:
  assumes "pending m k < 2 ^ 63"
  shows "pending (increment k m) j = pending m j + (if j = k then 1 else 0)"
proof -
  have "uint (n + 1) = uint n + 1" if "uint n < 2 ^ 63" for n :: uint64
    using that by (simp add: uint_word_ariths)
  then show ?thesis
    using assms by (auto simp: pending_def increment_def update_conv' split: option.splits)
qed

lemma pending_nonneg: "0 \<le> pending m k"
  by (simp add: pending_def split: option.split)

section \<open>The operations as equations\<close>

lemma read_clock_eq:
  "read_clock E w = Inr (t, w') \<longleftrightarrow> nowNs (we_clock E) (wk_ticks w) = Inr t \<and> w' = w\<lparr>wk_ticks := wk_ticks w + 1\<rparr>"
  by (auto simp: read_clock_def res_map_eq_Inr)

lemma add_value_eq: "add_value p v w = Inr w' \<longleftrightarrow> (\<exists>q. p = Some q \<and> w' = emit (Add_value q v) w)"
  by (cases p) (auto simp: add_value_def)

text \<open>What flushing the counts \<open>m\<close> into the counter \<open>p\<close> logs.\<close>

definition flush_log :: "pointer option \<Rightarrow> exception_counts \<Rightarrow> 'r effect list \<Rightarrow> bool" where
  "flush_log p m fs \<longleftrightarrow> fs = [] \<and> m = [] \<or> (\<exists>q. p = Some q \<and> fs = flushed q m)"

lemma flush_counts_eq:
  assumes "flush_counts p m w = Inr w'"
  shows "\<exists>fs. flush_log p m fs \<and> w' = w\<lparr>wk_effects := wk_effects w @ fs\<rparr>"
proof (cases p)
  case None
  then show ?thesis using assms by (cases m) (auto simp: flush_counts_def flush_log_def)
next
  case (Some q)
  have "flush_counts (Some q) m w = Inr (w\<lparr>wk_effects := wk_effects w @ flushed q m\<rparr>)"
    by (induction m arbitrary: w) (simp_all add: flush_counts_def emit_def)
  then show ?thesis using Some assms by (auto simp: flush_log_def)
qed

lemma estimate_throughput_eq:
  assumes "estimate_throughput E w = Inr w'"
  obtains n t xs where "list_all no_account xs"
    "w' = w\<lparr>wk_ticks := wk_ticks w + 1, wk_n_throughput_requests := n, wk_last_throughput_time := t,
            wk_effects := wk_effects w @ xs\<rparr>"
proof -
  obtain t elapsed where t: "nowNs (we_clock E) (wk_ticks w) = Inr t" "check_int64 (t - wk_last_throughput_time w) = Inr elapsed"
    using assms by (auto simp: estimate_throughput_def res_bind_eq_Inr read_clock_eq)
  let ?d = "double_of_int elapsed / double_of_int k_ns_per_s"
  show ?thesis
  proof (cases "double_of (1 / 10) \<le> ?d")
    case True
    then obtain p q u v where "w' = w\<lparr>wk_ticks := wk_ticks w + 1, wk_n_throughput_requests := 0,
        wk_last_throughput_time := t, wk_effects := wk_effects w @ [Add_value p u, Add_value q v]\<rparr>"
      using assms t
      by (auto simp: estimate_throughput_def read_clock_def res_bind_eq_Inr add_value_eq emit_def Let_def
          simp del: k_ns_per_s_def)
    then show ?thesis by (rule that [rotated]) simp
  next
    case False
    then have "w' = w\<lparr>wk_ticks := wk_ticks w + 1\<rparr>"
      using assms t by (simp add: estimate_throughput_def read_clock_def Let_def del: k_ns_per_s_def)
    then show ?thesis
      by (intro that [where xs = "[]" and n = "wk_n_throughput_requests w" and t = "wk_last_throughput_time w"])
        simp_all
  qed
qed

lemma estimate_eq:
  assumes "estimate E w = Inr w'"
  obtains n t xs fs ys z where "list_all no_account xs" "no_account z"
    "flush_log (wk_exceptions_statistic w) (wk_n_exceptions_by_type w) fs"
    "flush_log (wk_uncaught_exceptions_statistic w) (wk_n_uncaught_exceptions_by_type w) ys"
    "w' = w\<lparr>wk_ticks := wk_ticks w + 1, wk_n_throughput_requests := n, wk_last_throughput_time := t,
           wk_n_exceptions_by_type := [], wk_n_uncaught_exceptions_by_type := [],
           wk_effects := wk_effects w @ xs @ fs @ ys @ [z]\<rparr>"
proof -
  obtain w1 w2 w3 where 1: "estimate_throughput E w = Inr w1"
    and 2: "flush_counts (wk_exceptions_statistic w1) (wk_n_exceptions_by_type w1) w1 = Inr w2"
    and 3: "flush_counts (wk_uncaught_exceptions_statistic w2) (wk_n_uncaught_exceptions_by_type w2)
      (w2\<lparr>wk_n_exceptions_by_type := []\<rparr>) = Inr w3"
    and w': "w' = setWorkerCounter kOutstandingRequestsCounter (wk_outstanding_requests w3)
      (w3\<lparr>wk_n_uncaught_exceptions_by_type := []\<rparr>)"
    using assms unfolding estimate_def res_bind_eq_Inr sum.inject by metis
  obtain n t xs where xs: "list_all no_account xs" and w1: "w1 = w\<lparr>wk_ticks := wk_ticks w + 1,
      wk_n_throughput_requests := n, wk_last_throughput_time := t, wk_effects := wk_effects w @ xs\<rparr>"
    by (rule estimate_throughput_eq [OF 1])
  obtain fs where w2: "w2 = w1\<lparr>wk_effects := wk_effects w1 @ fs\<rparr>"
    and fs: "flush_log (wk_exceptions_statistic w1) (wk_n_exceptions_by_type w1) fs"
    using flush_counts_eq [OF 2] by blast
  obtain ys where w3: "w3 = w2\<lparr>wk_n_exceptions_by_type := [], wk_effects := wk_effects w2 @ ys\<rparr>"
    and ys: "flush_log (wk_uncaught_exceptions_statistic w2) (wk_n_uncaught_exceptions_by_type w2) ys"
    using flush_counts_eq [OF 3] by auto
  let ?z = "Set_counter (''worker.'' @ string_of_int (wk_worker_id w) @ ''.'' @ kOutstandingRequestsCounter)
      (wk_outstanding_requests w)"
  have eq: "w' = w\<lparr>wk_ticks := wk_ticks w + 1, wk_n_throughput_requests := n, wk_last_throughput_time := t,
           wk_n_exceptions_by_type := [], wk_n_uncaught_exceptions_by_type := [],
           wk_effects := wk_effects w @ xs @ fs @ ys @ [?z]\<rparr>"
    by (simp add: w' w3 w2 w1 setWorkerCounter_def emit_def)
  have fs': "flush_log (wk_exceptions_statistic w) (wk_n_exceptions_by_type w) fs"
    and ys': "flush_log (wk_uncaught_exceptions_statistic w) (wk_n_uncaught_exceptions_by_type w) ys"
    using fs ys by (simp_all add: w1 w2)
  show ?thesis by (rule that [OF xs _ fs' ys' eq]) simp
qed

lemma send_next_sent:
  assumes "send_next E w = Inr (True, w')"
  obtains r wl t where "unat (wk_conn_idx w) < wk_connections w"
    "w' = w\<lparr>wk_workload := wl, wk_outstanding_requests := to_int64 (wk_outstanding_requests w + 1),
           wk_conn_idx := (wk_conn_idx w + 1) mod word_of_int (wk_number_of_connections w),
           wk_ticks := wk_ticks w + 1,
           wk_in_flight := wk_in_flight w @ [\<lparr>fl_conn = unat (wk_conn_idx w), fl_send_time = t, fl_request = r\<rparr>],
           wk_effects := wk_effects w @ [Sent (unat (wk_conn_idx w)) r]\<rparr>"
proof -
  obtain r wl where r: "wl_getNextRequest (we_workload E) (wk_workload w) = Inr (Some r, wl)"
    using assms by (auto simp: send_next_def res_bind_eq_Inr split: option.splits)
  then have n: "(word_of_int (wk_number_of_connections w) :: uint64) \<noteq> 0"
    using assms by (auto simp: send_next_def Let_def split: if_splits)
  obtain t where t: "nowNs (we_clock E) (wk_ticks w) = Inr t"
    using assms r n by (auto simp: send_next_def Let_def res_bind_eq_Inr read_clock_eq split: if_splits)
  have c: "unat (wk_conn_idx w) < wk_connections w"
    using assms r n t by (auto simp: send_next_def Let_def read_clock_def split: if_splits)
  then show ?thesis
    using assms r n t by (intro that [where wl = wl and t = t and r = r]) (simp_all add: send_next_def Let_def read_clock_def emit_def)
qed

lemma send_next_null:
  assumes "send_next E w = Inr (False, w')"
  obtains wl where "wl_getNextRequest (we_workload E) (wk_workload w) = Inr (None, wl)"
    "w' = w\<lparr>wk_workload := wl, wk_running := False, wk_effects := wk_effects w @ [Terminate_early]\<rparr>"
proof -
  obtain r wl where "wl_getNextRequest (we_workload E) (wk_workload w) = Inr (r, wl)"
    using assms by (auto simp: send_next_def res_bind_eq_Inr)
  then show ?thesis
    using assms that by (cases r) (auto simp: send_next_def emit_def Let_def res_bind_eq_Inr split: if_splits)
qed

definition exception_class :: "'p reply_try \<Rightarrow> string option" where
  "exception_class t = (case t of Value _ \<Rightarrow> None | Exception cls _ \<Rightarrow> Some cls)"

definition count_exception :: "string option \<Rightarrow> exception_counts \<Rightarrow> exception_counts" where
  "count_exception e m = (case e of None \<Rightarrow> m | Some k \<Rightarrow> increment k m)"

lemma complete_promise_eq:
  "complete_promise t w = w\<lparr>
     wk_n_exceptions_by_type := count_exception (exception_class t) (wk_n_exceptions_by_type w),
     wk_n_uncaught_exceptions_by_type := count_exception (exception_class t) (wk_n_uncaught_exceptions_by_type w),
     wk_effects := wk_effects w @ [Set_promise (exception_class t)]\<rparr>"
  by (simp add: complete_promise_def exception_class_def count_exception_def emit_def split: reply_try.split)

lemma reply_eq:
  assumes "reply E i t w = Inr w'"
  obtains n xs z where "i < length (wk_in_flight w)" "list_all no_account xs" "no_account z"
    "w' = w\<lparr>wk_ticks := wk_ticks w + 1, wk_n_throughput_requests := n,
           wk_n_exceptions_by_type := count_exception (exception_class t) (wk_n_exceptions_by_type w),
           wk_n_uncaught_exceptions_by_type := count_exception (exception_class t) (wk_n_uncaught_exceptions_by_type w),
           wk_outstanding_requests := to_int64 (wk_outstanding_requests w - 1),
           wk_in_flight := take i (wk_in_flight w) @ drop (i + 1) (wk_in_flight w),
           wk_effects := wk_effects w @ xs @ [Set_promise (exception_class t), z]\<rparr>"
proof -
  have i: "i < length (wk_in_flight w)"
    using assms by (auto simp: reply_def res_bind_eq_Inr vec_at_eq_Inr)
  obtain rt where rt: "nowNs (we_clock E) (wk_ticks w) = Inr rt"
    using assms by (auto simp: reply_def res_bind_eq_Inr read_clock_eq)
  let ?w0 = "w\<lparr>wk_ticks := wk_ticks w + 1\<rparr>"
  obtain xs where xs: "list_all no_account xs"
    and w1: "(if wk_running ?w0 then res_bind (check_int64 (rt - fl_send_time (wk_in_flight w ! i)))
        (\<lambda>d. add_value (wk_latency_statistic ?w0) (double_of_int d / double_of 1000) ?w0) else Inr ?w0) =
      Inr (?w0\<lparr>wk_effects := wk_effects w @ xs\<rparr>)"
  proof (cases "wk_running w")
    case True
    then obtain q d where "wk_latency_statistic w = Some q" "check_int64 (rt - fl_send_time (wk_in_flight w ! i)) = Inr d"
      using assms i rt by (auto simp: reply_def read_clock_def res_bind_eq_Inr add_value_eq)
    then show ?thesis
      using True that [of "[Add_value q (double_of_int d / double_of 1000)]"] by (simp add: add_value_def emit_def)
  next
    case False
    then show ?thesis using that [of "[]"] by simp
  qed
  let ?z = "Set_counter (''worker.'' @ string_of_int (wk_worker_id w) @ ''.'' @ kOutstandingRequestsCounter)
      (to_int64 (wk_outstanding_requests w - 1))"
  have "w' = w\<lparr>wk_ticks := wk_ticks w + 1, wk_n_throughput_requests := to_int64 (wk_n_throughput_requests w + 1),
           wk_n_exceptions_by_type := count_exception (exception_class t) (wk_n_exceptions_by_type w),
           wk_n_uncaught_exceptions_by_type := count_exception (exception_class t) (wk_n_uncaught_exceptions_by_type w),
           wk_outstanding_requests := to_int64 (wk_outstanding_requests w - 1),
           wk_in_flight := take i (wk_in_flight w) @ drop (i + 1) (wk_in_flight w),
           wk_effects := wk_effects w @ xs @ [Set_promise (exception_class t), ?z]\<rparr>"
    using assms i unfolding reply_def read_clock_def vec_at_Inr [OF i] rt res_map_simps res_bind_simps split w1
    by (simp add: Let_def complete_promise_eq setWorkerCounter_def emit_def)
  then show ?thesis by (rule that [OF i xs, rotated]) simp
qed

section \<open>The steps of a worker\<close>

lemma worker_step_forms:
  assumes "worker_step E w w'"
  obtains (stopped) "wk_consuming w"
      "w' = w\<lparr>wk_consuming := False, wk_running := False, wk_effects := wk_effects w @ [Stop_consuming]\<rparr>"
  | (workload) wl where "wk_consuming w" "w' = w\<lparr>wk_workload := wl\<rparr>"
  | (limit) m where "wk_consuming w" "in_int32 m" "w' = w\<lparr>wk_max_outstanding_requests := m\<rparr>"
  | (same) "w' = w"
  | (sends) "wk_consuming w" "wk_running w" "worker_sendRequest E w = Inr w'"
  | (replied) i and t :: "unit reply_try" where "reply E i t w = Inr w'"
  | (stop) "w' = w\<lparr>wk_running := False, wk_terminate_loop := True, wk_effects := wk_effects w @ [Run_in_loop_terminate]\<rparr>"
  using assms
proof (cases rule: worker_step.cases)
  case (message event)
  note m = message(2) [unfolded messageAvailable_def setMaxOutstanding_def emit_def Let_def]
  show ?thesis
  proof (cases "getEventType event = STOP \<or> \<not> wk_running w")
    case True
    then show ?thesis using m message(1) stopped by simp
  next
    case False
    show ?thesis
    proof (cases "getEventType event")
      case STOP
      then show ?thesis using False by simp
    next
      case RESET
      then have "w' = w\<lparr>wk_workload := wl_reset (we_workload E) (wk_workload w)\<rparr>" using m False by simp
      then show ?thesis by (rule workload [OF message(1)])
    next
      case SEND_REQUEST
      then have "worker_sendRequest E w = Inr w'" "wk_running w" using m False by simp_all
      then show ?thesis using sends message(1) by blast
    next
      case SET_PHASE
      then have "w' = w \<or> (\<exists>wl. w' = w\<lparr>wk_workload := wl\<rparr>)" using m False by (auto split: if_splits)
      then show ?thesis using same workload message(1) by blast
    next
      case SET_MAX_OUTSTANDING
      then have "w' = w \<or> (\<exists>m. in_int32 m \<and> w' = w\<lparr>wk_max_outstanding_requests := m\<rparr>)"
        using m False by (auto intro: to_int32_range split: if_splits)
      then show ?thesis using same limit message(1) by blast
    qed
  qed
next
  case (continuation i t)
  then show ?thesis using replied by blast
next
  case stop_call
  then show ?thesis using stop by (simp add: worker_stop_def emit_def)
qed

lemma worker_sendRequest_forms:
  assumes "worker_sendRequest E w = Inr w'"
  obtains (refused) "\<not> (wk_outstanding_requests w < wk_max_outstanding_requests w \<and> wk_running w)" "estimate E w = Inr w'"
  | (ended) "wk_running w" "send_next E w = Inr (False, w')"
  | (went) w1 where "wk_outstanding_requests w < wk_max_outstanding_requests w" "wk_running w"
      "send_next E w = Inr (True, w1)" "estimate E w1 = Inr w'"
proof (cases "wk_outstanding_requests w < wk_max_outstanding_requests w \<and> wk_running w")
  case True
  then obtain c w1 where "send_next E w = Inr (c, w1)" "(if c then estimate E w1 else Inr w1) = Inr w'"
    using assms by (auto simp: worker_sendRequest_def res_bind_eq_Inr)
  then show ?thesis using True ended went by (cases c) auto
next
  case False
  then show ?thesis using assms refused by (auto simp: worker_sendRequest_def)
qed

section \<open>The invariant\<close>

definition worker_inv :: "('w, 'r) worker \<Rightarrow> bool" where
  "worker_inv w \<longleftrightarrow>
     wk_outstanding_requests w = int (length (wk_in_flight w)) \<and>
     wk_outstanding_requests w \<le> int32_max \<and>
     in_int32 (wk_max_outstanding_requests w) \<and>
     1 \<le> wk_number_of_connections w \<and> wk_number_of_connections w \<le> int32_max \<and>
     wk_connections w = nat (wk_number_of_connections w) \<and>
     map fst (sent (wk_effects w)) = map (\<lambda>i. i mod wk_connections w) [0..<length (sent (wk_effects w))] \<and>
     unat (wk_conn_idx w) = length (sent (wk_effects w)) mod wk_connections w"

lemma flush_log_silent: "flush_log p m fs \<Longrightarrow> sent fs = [] \<and> exceptions_of k fs = 0"
  by (auto simp: flush_log_def)

lemma estimate_keeps:
  assumes "estimate E w = Inr w'"
  shows "sent (wk_effects w') = sent (wk_effects w)" "wk_outstanding_requests w' = wk_outstanding_requests w"
    "wk_max_outstanding_requests w' = wk_max_outstanding_requests w" "wk_in_flight w' = wk_in_flight w"
    "wk_number_of_connections w' = wk_number_of_connections w" "wk_connections w' = wk_connections w"
    "wk_conn_idx w' = wk_conn_idx w" "wk_running w' = wk_running w" "wk_consuming w' = wk_consuming w"
    "wk_exceptions_statistic w' = wk_exceptions_statistic w"
    "wk_uncaught_exceptions_statistic w' = wk_uncaught_exceptions_statistic w"
proof -
  obtain n t xs fs ys z where xs: "list_all no_account xs" "no_account z"
    and fs: "flush_log (wk_exceptions_statistic w) (wk_n_exceptions_by_type w) fs"
    "flush_log (wk_uncaught_exceptions_statistic w) (wk_n_uncaught_exceptions_by_type w) ys"
    and w': "w' = w\<lparr>wk_ticks := wk_ticks w + 1, wk_n_throughput_requests := n, wk_last_throughput_time := t,
           wk_n_exceptions_by_type := [], wk_n_uncaught_exceptions_by_type := [],
           wk_effects := wk_effects w @ xs @ fs @ ys @ [z]\<rparr>"
    by (rule estimate_eq [OF assms])
  have "sent [z] = []" using no_account_silent [of "[z]"] xs(2) by simp
  then show "sent (wk_effects w') = sent (wk_effects w)"
    using no_account_silent [OF xs(1)] flush_log_silent [OF fs(1)] flush_log_silent [OF fs(2)]
    by (simp add: w' del: sent.simps)
qed (rule estimate_eq [OF assms], simp)+

lemma estimate_inv: "estimate E w = Inr w' \<Longrightarrow> worker_inv w \<Longrightarrow> worker_inv w'"
  by (simp add: worker_inv_def estimate_keeps)

lemma conn_idx_next:
  assumes "unat (c :: uint64) < nat n" "n \<le> int32_max"
  shows "unat ((c + 1) mod word_of_int n) = (unat c + 1) mod nat n"
proof -
  have "0 \<le> n" "n < 2 ^ 64" using assms by simp_all
  then have "uint (word_of_int n :: uint64) = n" by (simp add: uint_word_of_int)
  then have "unat (word_of_int n :: uint64) = nat n" by (metis nat_uint_eq)
  moreover have "unat (c + 1) = unat c + 1"
  proof -
    have "unat c + 1 < 2 ^ 64" using assms by simp
    then show ?thesis by (simp add: unat_word_ariths)
  qed
  ultimately show ?thesis by (simp only: unat_mod_distrib)
qed

lemma send_next_inv:
  assumes "send_next E w = Inr (True, w')" "worker_inv w" "wk_outstanding_requests w < wk_max_outstanding_requests w"
  shows "worker_inv w'" "wk_outstanding_requests w' = wk_outstanding_requests w + 1"
proof -
  obtain r wl t where c: "unat (wk_conn_idx w) < wk_connections w"
    and w': "w' = w\<lparr>wk_workload := wl, wk_outstanding_requests := to_int64 (wk_outstanding_requests w + 1),
           wk_conn_idx := (wk_conn_idx w + 1) mod word_of_int (wk_number_of_connections w),
           wk_ticks := wk_ticks w + 1,
           wk_in_flight := wk_in_flight w @ [\<lparr>fl_conn = unat (wk_conn_idx w), fl_send_time = t, fl_request = r\<rparr>],
           wk_effects := wk_effects w @ [Sent (unat (wk_conn_idx w)) r]\<rparr>"
    by (rule send_next_sent [OF assms(1)])
  have o: "wk_outstanding_requests w + 1 \<le> int32_max" "in_int64 (wk_outstanding_requests w + 1)"
    using assms(2,3) by (auto simp: worker_inv_def in_int32_def in_int64_def)
  then show "wk_outstanding_requests w' = wk_outstanding_requests w + 1" by (simp add: w')
  show "worker_inv w'"
    using assms(2) o c conn_idx_next [of "wk_conn_idx w" "wk_number_of_connections w"]
    by (simp add: worker_inv_def w' mod_Suc_eq)
qed

lemma reply_inv:
  assumes "reply E i t w = Inr w'" "worker_inv w"
  shows "worker_inv w'" "wk_outstanding_requests w' = wk_outstanding_requests w - 1"
proof -
  obtain n xs z where i: "i < length (wk_in_flight w)" and xs: "list_all no_account xs" "no_account z"
    and w': "w' = w\<lparr>wk_ticks := wk_ticks w + 1, wk_n_throughput_requests := n,
           wk_n_exceptions_by_type := count_exception (exception_class t) (wk_n_exceptions_by_type w),
           wk_n_uncaught_exceptions_by_type := count_exception (exception_class t) (wk_n_uncaught_exceptions_by_type w),
           wk_outstanding_requests := to_int64 (wk_outstanding_requests w - 1),
           wk_in_flight := take i (wk_in_flight w) @ drop (i + 1) (wk_in_flight w),
           wk_effects := wk_effects w @ xs @ [Set_promise (exception_class t), z]\<rparr>"
    by (rule reply_eq [OF assms(1)])
  have o: "in_int64 (wk_outstanding_requests w - 1)" using assms(2) by (auto simp: worker_inv_def in_int64_def)
  then show "wk_outstanding_requests w' = wk_outstanding_requests w - 1" by (simp add: w')
  have "sent [Set_promise (exception_class t), z] = []"
    using no_account_silent [of "[z]"] xs by simp
  then show "worker_inv w'"
    using assms(2) o i no_account_silent [OF xs(1)] by (auto simp: worker_inv_def w' simp del: sent.simps)
qed

lemma worker_sendRequest_inv:
  assumes "worker_sendRequest E w = Inr w'" "worker_inv w"
  shows "worker_inv w'"
  using assms(1)
proof (cases rule: worker_sendRequest_forms)
  case refused
  then show ?thesis using estimate_inv assms(2) by blast
next
  case ended
  then show ?thesis using assms(2) by (elim send_next_null) (simp add: worker_inv_def)
next
  case (went w1)
  then show ?thesis using estimate_inv send_next_inv(1) assms(2) by blast
qed

lemma worker_step_inv:
  assumes "worker_step E w w'" "worker_inv w"
  shows "worker_inv w'"
  using assms(1)
proof (cases rule: worker_step_forms)
  case sends
  then show ?thesis using worker_sendRequest_inv assms(2) by blast
next
  case (replied i t)
  then show ?thesis using reply_inv(1) assms(2) by blast
qed (use assms(2) in \<open>simp_all add: worker_inv_def\<close>)

text \<open>A worker that has been constructed, started and has entered its event loop.\<close>

definition worker_started ::
  "('w, 'r, 'd) worker_env \<Rightarrow> 'h histogram_ops \<Rightarrow> 'm insert_map_ops \<Rightarrow> ('w, 'r) worker \<Rightarrow> bool" where
  "worker_started E H M w \<longleftrightarrow> (\<exists>F ready b id n c m wl cpu w0 sm sm'.
     in_int32 id \<and> 1 \<le> c \<and> c \<le> int32_max \<and> in_int32 m \<and> in_int32 n \<and> in_int32 cpu \<and> manager_wf sm \<and>
     worker_run F ready (Worker8 b id n c m wl cpu) = Some (Inr w0) \<and>
     senderLoop E H M w0 sm = Inr (w, sm'))"

lemma worker_run_eq:
  assumes "worker_run F ready w = Some (Inr w0)"
  shows "w0 = w\<lparr>wk_running := True, wk_sender_thread := Joinable\<rparr>"
  using assms by (auto simp: worker_run_def bind_eq_Some_conv split: if_splits)

lemma senderLoop_stats:
  assumes "senderLoop E H M w sm = Inr (w', sm')" "manager_wf sm"
  obtains t p1 p2 p3 p4 p5 xs where "list_all no_account xs" "p4 \<noteq> p5"
    "w' = w\<lparr>wk_ticks := wk_ticks w + 1, wk_outstanding_statistic := Some p1, wk_throughput_statistic := Some p2,
           wk_latency_statistic := Some p3, wk_exceptions_statistic := Some p4,
           wk_uncaught_exceptions_statistic := Some p5, wk_last_throughput_time := t, wk_consuming := True,
           wk_effects := wk_effects w @ xs\<rparr>"
proof -
  obtain p1 sm1 where 1: "getContinuousStat H OUTSTANDING_REQUESTS sm = (p1, sm1)" by force
  obtain p2 sm2 where 2: "getContinuousStat H THROUGHPUT sm1 = (p2, sm2)" by force
  obtain p3 sm3 where 3: "getContinuousStat H REQUEST_LATENCY sm2 = (p3, sm3)" by force
  obtain p4 sm4 where 4: "getCounterStat M EXCEPTIONS sm3 = (p4, sm4)" by force
  obtain p5 sm5 where 5: "getCounterStat M UNCAUGHT_EXCEPTIONS sm4 = (p5, sm5)" by force
  let ?xs = "(if wk_cpu_affinity w \<noteq> -1 then [Set_affinity (wk_cpu_affinity w)] else []) @ [Start_consuming]"
  obtain t where w': "sm' = sm5" "w' = w\<lparr>wk_ticks := wk_ticks w + 1, wk_outstanding_statistic := Some p1,
      wk_throughput_statistic := Some p2, wk_latency_statistic := Some p3, wk_exceptions_statistic := Some p4,
      wk_uncaught_exceptions_statistic := Some p5, wk_last_throughput_time := t, wk_consuming := True,
      wk_effects := wk_effects w @ ?xs\<rparr>"
    using assms(1) unfolding senderLoop_def 1 2 3 4 5 Let_def split
    by (cases "wk_cpu_affinity w = -1") (auto simp: res_bind_eq_Inr read_clock_eq emit_def)
  have ps: "manager_calls H M [Get_continuous OUTSTANDING_REQUESTS, Get_continuous THROUGHPUT,
      Get_continuous REQUEST_LATENCY, Get_counter EXCEPTIONS, Get_counter UNCAUGHT_EXCEPTIONS] sm =
      ([p1, p2, p3, p4, p5], sm5)"
    using 1 2 3 4 5 by (simp del: OUTSTANDING_REQUESTS_def THROUGHPUT_def REQUEST_LATENCY_def EXCEPTIONS_def UNCAUGHT_EXCEPTIONS_def)
  note all = manager_calls_steps [OF ps assms(2)]
  have "manager_entry (Get_counter EXCEPTIONS) sm5 = Some p4" "manager_entry (Get_counter UNCAUGHT_EXCEPTIONS) sm5 = Some p5"
    using all by (auto dest: spec [of _ 3] spec [of _ 4])
  then have "p4 \<noteq> p5"
    using all manager_entry_inject [of sm5 "Get_counter EXCEPTIONS" "Get_counter UNCAUGHT_EXCEPTIONS" p4] by auto
  then show ?thesis by (intro that [OF _ _ w'(2)]) auto
qed

lemma worker_started_inv:
  assumes "worker_started E H M w"
  shows "worker_inv w"
proof -
  obtain F ready b id n c m wl cpu w0 sm sm' where c: "1 \<le> c" "c \<le> int32_max" "in_int32 m" "manager_wf sm"
    and run: "worker_run F ready (Worker8 b id n c m wl cpu) = Some (Inr w0)"
    and loop: "senderLoop E H M w0 sm = Inr (w, sm')"
    using assms by (auto simp: worker_started_def)
  show ?thesis
    by (rule senderLoop_stats [OF loop c(4)])
      (use c in \<open>simp add: worker_run_eq [OF run] worker_inv_def Worker8_def setWorkerCounter_def emit_def no_account_silent\<close>)
qed

interpretation wrk: step_invariant "worker_started E H M" "worker_step E" worker_inv for E H M
  by unfold_locales (auto intro: worker_started_inv worker_step_inv)

section \<open>Exceptions\<close>

definition accounted :: "exception_counts \<Rightarrow> pointer \<Rightarrow> 'r effect list \<Rightarrow> bool" where
  "accounted m p xs \<longleftrightarrow> distinct (map fst m) \<and> (int (length xs) < 2 ^ 63 \<longrightarrow>
     (\<forall>k. 0 \<le> increases p k xs \<and> exceptions_of k xs = pending m k + increases p k xs))"

lemma accounted_append:
  assumes "accounted m p xs" "\<And>k. exceptions_of k ys = 0 \<and> increases p k ys = 0"
  shows "accounted m p (xs @ ys)"
  using assms by (auto simp: accounted_def)

lemma accounted_pending:
  assumes "accounted m p xs" "int (length xs) < 2 ^ 63"
  shows "pending m k < 2 ^ 63"
proof -
  have "pending m k \<le> exceptions_of k xs" using assms by (auto simp: accounted_def)
  also have "\<dots> \<le> int (length xs)" by (rule exceptions_of_bounds)
  finally show ?thesis using assms(2) by simp
qed

lemma accounted_flush:
  fixes xs :: "'r effect list"
  assumes "accounted m p xs"
  shows "accounted [] p (xs @ flushed p m)"
  unfolding accounted_def
proof (intro conjI impI allI)
  fix k
  assume "int (length (xs @ flushed p m)) < 2 ^ 63"
  then have len: "int (length xs) < 2 ^ 63" by simp
  have "increases p k (flushed p m :: 'r effect list) = pending m k"
    using assms accounted_pending [OF assms len] by (intro flushed_pending) (auto simp: accounted_def)
  then show "0 \<le> increases p k (xs @ flushed p m)"
    "exceptions_of k (xs @ flushed p m) = pending [] k + increases p k (xs @ flushed p m)"
    using assms len pending_nonneg [of m k] by (auto simp: accounted_def pending_def [of "[]"])
qed simp

lemma accounted_promise:
  assumes "accounted m p xs"
  shows "accounted (count_exception e m) p (xs @ [Set_promise e])"
proof (cases e)
  case (Some j)
  show ?thesis unfolding accounted_def
  proof (intro conjI impI allI)
    show "distinct (map fst (count_exception e m))"
      using assms Some increment_distinct by (simp add: count_exception_def accounted_def)
    fix k
    assume "int (length (xs @ [Set_promise e])) < 2 ^ 63"
    then have len: "int (length xs) < 2 ^ 63" by simp
    show "0 \<le> increases p k (xs @ [Set_promise e])"
      "exceptions_of k (xs @ [Set_promise e]) = pending (count_exception e m) k + increases p k (xs @ [Set_promise e])"
      using assms len Some pending_increment [OF accounted_pending [OF assms len], of j k]
      by (auto simp: accounted_def count_exception_def)
  qed
qed (use assms in \<open>auto simp: accounted_def count_exception_def\<close>)

definition exceptions_inv :: "('w, 'r) worker \<Rightarrow> bool" where
  "exceptions_inv w \<longleftrightarrow> (\<exists>p q. wk_exceptions_statistic w = Some p \<and> wk_uncaught_exceptions_statistic w = Some q \<and>
     p \<noteq> q \<and> accounted (wk_n_exceptions_by_type w) p (wk_effects w) \<and>
     accounted (wk_n_uncaught_exceptions_by_type w) q (wk_effects w))"

lemma exceptions_inv_frame:
  assumes "exceptions_inv w" "wk_exceptions_statistic w' = wk_exceptions_statistic w"
    "wk_uncaught_exceptions_statistic w' = wk_uncaught_exceptions_statistic w"
    "wk_n_exceptions_by_type w' = wk_n_exceptions_by_type w"
    "wk_n_uncaught_exceptions_by_type w' = wk_n_uncaught_exceptions_by_type w"
    "wk_effects w' = wk_effects w @ xs" "\<And>p k. exceptions_of k xs = 0 \<and> increases p k xs = 0"
  shows "exceptions_inv w'"
  using assms accounted_append unfolding exceptions_inv_def by metis

lemma estimate_exceptions:
  assumes "estimate E w = Inr w'" "exceptions_inv w"
  shows "exceptions_inv w'"
proof -
  obtain p q where pq: "wk_exceptions_statistic w = Some p" "wk_uncaught_exceptions_statistic w = Some q" "p \<noteq> q"
    and acc: "accounted (wk_n_exceptions_by_type w) p (wk_effects w)"
      "accounted (wk_n_uncaught_exceptions_by_type w) q (wk_effects w)"
    using assms(2) by (auto simp: exceptions_inv_def)
  obtain n t xs fs ys z where xs: "list_all no_account xs" "no_account z"
    and fs: "flush_log (wk_exceptions_statistic w) (wk_n_exceptions_by_type w) fs"
    "flush_log (wk_uncaught_exceptions_statistic w) (wk_n_uncaught_exceptions_by_type w) ys"
    and w': "w' = w\<lparr>wk_ticks := wk_ticks w + 1, wk_n_throughput_requests := n, wk_last_throughput_time := t,
           wk_n_exceptions_by_type := [], wk_n_uncaught_exceptions_by_type := [],
           wk_effects := wk_effects w @ xs @ fs @ ys @ [z]\<rparr>"
    by (rule estimate_eq [OF assms(1)])
  let ?f = "flushed p (wk_n_exceptions_by_type w)" and ?g = "flushed q (wk_n_uncaught_exceptions_by_type w)"
  have f: "fs = ?f" "ys = ?g" using fs pq by (auto simp: flush_log_def)
  have sx: "exceptions_of k xs = 0 \<and> increases r k xs = 0" for r k using no_account_silent [OF xs(1)] by blast
  have sz: "exceptions_of k [z] = 0 \<and> increases r k [z] = 0" for r k using no_account_silent [of "[z]"] xs(2) by simp
  have "accounted [] p ((wk_effects w @ xs) @ ?f)"
    by (rule accounted_flush [OF accounted_append [OF acc(1) sx]])
  then have "accounted [] p (((wk_effects w @ xs) @ ?f) @ ?g)"
    by (rule accounted_append) (use pq(3) in \<open>simp add: flushed_other\<close>)
  then have "accounted [] p ((((wk_effects w @ xs) @ ?f) @ ?g) @ [z])"
    by (rule accounted_append [OF _ sz])
  moreover have "accounted (wk_n_uncaught_exceptions_by_type w) q ((wk_effects w @ xs) @ ?f)"
    by (rule accounted_append [OF accounted_append [OF acc(2) sx]]) (use pq(3) in \<open>simp add: flushed_other\<close>)
  then have "accounted [] q ((((wk_effects w @ xs) @ ?f) @ ?g) @ [z])"
    by (rule accounted_append [OF accounted_flush sz])
  ultimately show ?thesis using pq by (auto simp: exceptions_inv_def w' f)
qed

lemma reply_exceptions:
  assumes "reply E i t w = Inr w'" "exceptions_inv w"
  shows "exceptions_inv w'"
proof -
  obtain n xs z where xs: "list_all no_account xs" "no_account z"
    and w': "w' = w\<lparr>wk_ticks := wk_ticks w + 1, wk_n_throughput_requests := n,
           wk_n_exceptions_by_type := count_exception (exception_class t) (wk_n_exceptions_by_type w),
           wk_n_uncaught_exceptions_by_type := count_exception (exception_class t) (wk_n_uncaught_exceptions_by_type w),
           wk_outstanding_requests := to_int64 (wk_outstanding_requests w - 1),
           wk_in_flight := take i (wk_in_flight w) @ drop (i + 1) (wk_in_flight w),
           wk_effects := wk_effects w @ xs @ [Set_promise (exception_class t), z]\<rparr>"
    by (rule reply_eq [OF assms(1)])
  have sx: "exceptions_of k xs = 0 \<and> increases r k xs = 0" for r k using no_account_silent [OF xs(1)] by blast
  have sz: "exceptions_of k [z] = 0 \<and> increases r k [z] = 0" for r k using no_account_silent [of "[z]"] xs(2) by simp
  have "accounted (count_exception (exception_class t) m) p (((wk_effects w @ xs) @ [Set_promise (exception_class t)]) @ [z])"
    if "accounted m p (wk_effects w)" for m p
    by (intro accounted_append accounted_promise sz sx that)
  then show ?thesis using assms(2) by (auto simp: exceptions_inv_def w')
qed

lemma send_next_exceptions:
  assumes "send_next E w = Inr (b, w')" "exceptions_inv w"
  shows "exceptions_inv w'"
proof (cases b)
  case True
  then have "send_next E w = Inr (True, w')" using assms(1) by simp
  then show ?thesis
    by (rule send_next_sent) (rule exceptions_inv_frame [OF assms(2)], simp+)
next
  case False
  then have "send_next E w = Inr (False, w')" using assms(1) by simp
  then show ?thesis
    by (rule send_next_null) (rule exceptions_inv_frame [OF assms(2)], simp+)
qed

lemma worker_step_exceptions:
  assumes "worker_step E w w'" "exceptions_inv w"
  shows "exceptions_inv w'"
  using assms(1)
proof (cases rule: worker_step_forms)
  case stopped
  show ?thesis unfolding stopped(2) by (rule exceptions_inv_frame [OF assms(2)], simp+)
next
  case stop
  show ?thesis unfolding stop by (rule exceptions_inv_frame [OF assms(2)], simp+)
next
  case sends
  from sends(3) show ?thesis
    by (cases rule: worker_sendRequest_forms)
      (use assms(2) estimate_exceptions send_next_exceptions in blast)+
next
  case (replied i t)
  then show ?thesis using reply_exceptions assms(2) by blast
qed (use assms(2) in \<open>simp_all add: exceptions_inv_def\<close>)

lemma worker_started_exceptions:
  assumes "worker_started E H M w"
  shows "exceptions_inv w"
proof -
  obtain F ready b id n c m wl cpu w0 sm sm' where wf: "manager_wf sm"
    and run: "worker_run F ready (Worker8 b id n c m wl cpu) = Some (Inr w0)"
    and loop: "senderLoop E H M w0 sm = Inr (w, sm')"
    using assms by (auto simp: worker_started_def)
  show ?thesis
    by (rule senderLoop_stats [OF loop wf])
      (auto simp: worker_run_eq [OF run] exceptions_inv_def accounted_def pending_def Worker8_def setWorkerCounter_def
        emit_def no_account_silent)
qed

interpretation wrk_exc: step_invariant "worker_started E H M" "worker_step E" exceptions_inv for E H M
  by unfold_locales (auto intro: worker_started_exceptions worker_step_exceptions)

end
