(* ===== verification/Scheduler_Pacing.thy ===== *)
theory Scheduler_Pacing
  imports Scheduler
begin

text \<open>
  The arithmetic by which the scheduler paces requests: the mean interval for a rate, the
  exponential draw, the spin wait, and the time budget that one iteration of the loop passes on
  to the next. Everything is computed in binary64 as the source does; the lemmas bound the
  results and say which inputs make a conversion undefined.
\<close>

section \<open>The mean interval\<close>

lemma recip_bounds:
  fixes r x y :: rat
  assumes r: "0 < r"
    and x: "\<bar>x - 1 / r\<bar> \<le> (1 / r) / 2 ^ 53"
    and y: "\<bar>y - x * 1000000000\<bar> \<le> x * 1000000000 / 2 ^ 53"
  shows "r * y < 1000000001" "999999999 < r * y"
proof -
  have "r * \<bar>x - 1 / r\<bar> \<le> r * ((1 / r) / 2 ^ 53)" using x r by (intro mult_left_mono) auto
  moreover have "r * \<bar>x - 1 / r\<bar> = \<bar>r * x - 1\<bar>"
    using r abs_mult [of r "x - 1 / r"] by (simp add: right_diff_distrib)
  ultimately have rx: "\<bar>r * x - 1\<bar> \<le> 1 / 2 ^ 53" using r by simp
  have "r * \<bar>y - x * 1000000000\<bar> \<le> r * (x * 1000000000 / 2 ^ 53)"
    using y r by (intro mult_left_mono) auto
  moreover have "r * \<bar>y - x * 1000000000\<bar> = \<bar>r * y - r * x * 1000000000\<bar>"
    using r abs_mult [of r "y - x * 1000000000"] by (simp add: right_diff_distrib mult.assoc)
  ultimately have ry: "\<bar>r * y - r * x * 1000000000\<bar> \<le> r * x * 1000000000 / 2 ^ 53"
    by (simp add: mult.assoc)
  have "r * x \<le> 1 + 1 / 2 ^ 53" "1 - 1 / 2 ^ 53 \<le> r * x"
    using abs_le_D1 [OF rx] abs_le_D2 [OF rx] by linarith+
  moreover have "r * y \<le> r * x * 1000000000 + r * x * 1000000000 / 2 ^ 53"
    "r * x * 1000000000 - r * x * 1000000000 / 2 ^ 53 \<le> r * y"
    using abs_le_D1 [OF ry] abs_le_D2 [OF ry] by linarith+
  ultimately show "r * y < 1000000001" "999999999 < r * y" by (simp_all add: field_simps)
qed

lemma interval_double:
  assumes "1 \<le> rps" "rps \<le> int32_max"
  shows "\<exists>y. double_of 1 / double_of_int rps * double_of_int k_ns_per_s = Fin y \<and>
    0 < y \<and> y \<le> 1000000000 \<and> of_int rps * y < 1000000001 \<and> 999999999 < of_int rps * y"
proof -
  let ?r = "of_int rps :: rat"
  have r: "1 \<le> ?r" "?r \<le> 2147483647"
    using assms of_int_le_iff [of rps 2147483647, where ?'a = rat] by simp_all
  define x where "x = nearest64 (1 / ?r)"
  have recip: "1 / 2 ^ 31 \<le> 1 / ?r" using r by (intro divide_left_mono) auto
  have x: "\<bar>x - 1 / ?r\<bar> \<le> (1 / ?r) / 2 ^ 53"
    using nearest64_rel_error_small [of "1 / ?r"] recip r by (simp add: x_def)
  have x1: "round64 (1 / ?r) = Fin x" "\<bar>x\<bar> \<le> 1"
    using round64_int_bounded [of "1 / ?r" 1] r by (simp_all add: x_def)
  have half: "1 / ?r / 2 \<le> x"
  proof -
    have "1 / ?r / 2 ^ 53 \<le> 1 / ?r / 2" using r by (intro divide_left_mono) auto
    then show ?thesis using abs_le_D2 [OF x] by simp
  qed
  then have xpos: "0 < x" using r by (intro order_less_le_trans [OF _ half]) simp
  have "x * 1000000000 \<le> of_int 1000000000" "0 \<le> x * 1000000000" using x1 xpos by simp_all
  then have y1: "round64 (x * 1000000000) = Fin (nearest64 (x * 1000000000))"
    "\<bar>nearest64 (x * 1000000000)\<bar> \<le> 1000000000"
    using round64_int_bounded [of "x * 1000000000" 1000000000] by simp_all
  have "1 / 2 ^ 40 \<le> \<bar>x * 1000000000\<bar>" using half recip xpos by simp
  then have y: "\<bar>nearest64 (x * 1000000000) - x * 1000000000\<bar> \<le> x * 1000000000 / 2 ^ 53"
    using nearest64_rel_error_small [of "x * 1000000000"] xpos by simp
  have b: "?r * nearest64 (x * 1000000000) < 1000000001" "999999999 < ?r * nearest64 (x * 1000000000)"
    using recip_bounds [OF _ x y] r by simp_all
  have "0 < ?r * nearest64 (x * 1000000000)" using b(2) by simp
  then have "0 < nearest64 (x * 1000000000)" using r by (simp add: zero_less_mult_iff)
  moreover have "double_of 1 / double_of_int rps * double_of_int k_ns_per_s = Fin (nearest64 (x * 1000000000))"
    using assms x1 y1 r round64_int_bounded [of 1 1] nearest64_of_int [of 1]
    by (simp add: double_of_def)
  ultimately show ?thesis using b y1(2) by auto
qed

lemma interval_ns_of_positive:
  assumes "1 \<le> rps" "rps \<le> int32_max"
  shows "\<exists>i. interval_ns_of rps = Inr i \<and> 0 \<le> i \<and>
    1000000000 - rps \<le> i * rps \<and> i * rps \<le> 1000000000"
proof -
  obtain y where y: "double_of 1 / double_of_int rps * double_of_int k_ns_per_s = Fin y"
    and pos: "0 < y" and le: "y \<le> 1000000000"
    and b: "of_int rps * y < 1000000001" "999999999 < of_int rps * y"
    using interval_double [OF assms] by auto
  let ?r = "of_int rps :: rat" and ?i = "\<lfloor>y\<rfloor>"
  have r: "1 \<le> ?r" using assms by simp
  have i: "of_int ?i \<le> y" "y < of_int ?i + 1" by linarith+
  have "interval_ns_of rps = Inr ?i"
    using double_to_int64_Fin [of 0 y 1000000000] pos le
    unfolding interval_ns_of_def y by (simp add: truncate_rat_def)
  moreover have "(of_int (?i * rps) :: rat) < of_int 1000000001"
  proof -
    have "of_int ?i * ?r \<le> y * ?r" using i r by (intro mult_right_mono) auto
    then show ?thesis using b(1) by (simp add: mult.commute)
  qed
  then have "?i * rps < 1000000001" by (simp only: of_int_less_iff)
  moreover have "(of_int 999999999 :: rat) < of_int (?i * rps + rps)"
  proof -
    have "y * ?r < (of_int ?i + 1) * ?r" using i r by (intro mult_strict_right_mono) auto
    then show ?thesis using b(2) by (simp add: algebra_simps)
  qed
  then have "999999999 < ?i * rps + rps" by (simp only: of_int_less_iff)
  moreover have "0 \<le> ?i" using pos by simp
  ultimately show ?thesis by auto
qed

lemma interval_ns_of_zero: "interval_ns_of 0 = Inl (Undefined Float_to_int)"
  using round64_int_bounded [of 1 1] nearest64_of_int [of 1]
  by (simp add: interval_ns_of_def double_of_def double_to_int64_def)

lemma getRps_le: "getRps s \<le> int32_max"
  using to_int32_range [of "uint (sch_rps s)"] by (simp add: getRps_def uint32_to_int32_def in_int32_def)

section \<open>The exponential draw\<close>

text \<open>
  What the pacing relies on of the C library's \<open>log\<close> on the range it is called on: a finite,
  non-positive result, not below \<open>-21\<close> (the logarithm of \<open>1e-9\<close> is about \<open>-20.7\<close>).
\<close>

definition log_contract :: "(double \<Rightarrow> double) \<Rightarrow> bool" where
  "log_contract libm_log \<longleftrightarrow>
     (\<forall>x. nearest64 (1 / 1000000000) \<le> x \<and> x \<le> 1 \<longrightarrow>
        (\<exists>y. libm_log (Fin x) = Fin y \<and> - 21 \<le> y \<and> y \<le> 0))"

text \<open>A uniform draw between 0 and 1.\<close>

definition unit_draw :: "double \<Rightarrow> bool" where
  "unit_draw d = (case d of Fin u \<Rightarrow> 0 \<le> u \<and> u \<le> 1 | _ \<Rightarrow> False)"

lemma randomExponentialInterval_bounds:
  assumes "log_contract libm_log" "unit_draw u" "0 \<le> i" "i \<le> 2 ^ 48"
  shows "\<exists>d. randomExponentialInterval libm_log u (double_of_int i) = Fin d \<and>
    0 \<le> d \<and> d \<le> of_int (21 * i)"
proof -
  obtain v where v: "u = Fin v" "0 \<le> v" "v \<le> 1"
    using assms(2) by (cases u) (auto simp: unit_draw_def)
  let ?c = "nearest64 (1 / 1000000000)"
  have "nearest64 (1 / 1000000000) \<le> of_int 1" by (rule nearest64_le_int) simp_all
  then have c: "?c \<le> 1" "double_of (1 / 1000000000) = Fin ?c"
    using round64_int_bounded [of "1 / 1000000000" 1] by (simp_all add: double_of_def)
  define x where "x = (if v < ?c then ?c else v)"
  have x: "std_max u (double_of (1 / 1000000000)) = Fin x" "?c \<le> x" "x \<le> 1"
    using v c by (auto simp: std_max_def x_def)
  obtain y where y: "libm_log (Fin x) = Fin y" "- 21 \<le> y" "y \<le> 0"
    using assms(1) x unfolding log_contract_def by blast
  have i: "(0 :: rat) \<le> of_int i" using assms(3) by simp
  have lo: "of_int 0 \<le> - y * of_int i" using y i by (simp add: mult_nonpos_nonneg)
  have hi: "- y * of_int i \<le> of_int (21 * i)" using y i mult_right_mono [of "- y" 21 "of_int i"] by simp
  have b: "\<bar>- y * of_int i\<bar> \<le> of_int (21 * i)" using lo hi by (simp only: abs_le_iff) simp
  have "randomExponentialInterval libm_log u (double_of_int i) = round64 (- y * of_int i)"
    using x y assms by (simp add: randomExponentialInterval_def)
  also have "\<dots> = Fin (nearest64 (- y * of_int i))"
    using assms(4) by (intro round64_int_bounded(1) [OF b]) simp
  finally show ?thesis
    using nearest64_ge_int [OF lo] nearest64_le_int [OF hi] assms by auto
qed

section \<open>The spin wait\<close>

text \<open>A clock whose \<open>t\<close>-th reading is \<open>c t\<close> nanoseconds and that never goes back.\<close>

definition clock_reads :: "clock \<Rightarrow> (nat \<Rightarrow> int) \<Rightarrow> bool" where
  "clock_reads clk c \<longleftrightarrow> (\<forall>t. nowNs clk t = Inr (c t) \<and> 0 < c t \<and> c t < 2 ^ 62) \<and> mono c"

lemma clock_readsD:
  assumes "clock_reads clk c"
  shows "nowNs clk t = Inr (c t)" "0 < c t" "c t < 2 ^ 62" "t \<le> t' \<Longrightarrow> c t \<le> c t'"
  using assms unfolding clock_reads_def by (auto dest: monoD)

lemma clock_diff_range: "clock_reads clk c \<Longrightarrow> in_int64 (c t - c t')"
  using clock_readsD(2,3) [of clk c t] clock_readsD(2,3) [of clk c t'] by (simp add: in_int64_def)

lemma waitNs_poll_reads:
  "clock_reads clk c \<Longrightarrow> waitNs_poll clk t (c t0) ns = Inr (c t - c t0 < ns)"
  by (simp add: waitNs_poll_def clock_readsD clock_diff_range)

text \<open>The \<open>k\<close>-th poll after tick \<open>t\<close> is the first that finds the time elapsed.\<close>

definition wait_ends :: "(nat \<Rightarrow> int) \<Rightarrow> nat \<Rightarrow> int \<Rightarrow> int \<Rightarrow> nat \<Rightarrow> bool" where
  "wait_ends c t start ns k \<longleftrightarrow> (\<forall>j<k. c (t + j) - start < ns) \<and> ns \<le> c (t + k) - start"

lemma wait_ends_exists:
  assumes "ns \<le> c (t + j) - start"
  shows "\<exists>k. wait_ends c t start ns k"
proof -
  let ?P = "\<lambda>k. ns \<le> c (t + k) - start"
  have "?P (LEAST k. ?P k)" using assms by (rule LeastI)
  moreover have "\<forall>i < (LEAST k. ?P k). \<not> ?P i" by (blast dest: not_less_Least)
  ultimately have "wait_ends c t start ns (LEAST k. ?P k)" by (auto simp: wait_ends_def)
  then show ?thesis ..
qed

lemma loop_steps_wait:
  assumes "clock_reads (env_clock E) c" "wait_ends c (lp_ticks l) (c t0) ns k"
  shows "loop_steps E (Suc k) (Loop_wait (c t0) ns, l, s) =
    Inr (Loop_woken, l\<lparr>lp_ticks := lp_ticks l + k + 1\<rparr>, s)"
  using assms(2)
proof (induction k arbitrary: l)
  case 0
  then show ?case using assms(1) by (simp add: wait_ends_def step_wait_def waitNs_poll_reads)
next
  case (Suc k)
  let ?l = "l\<lparr>lp_ticks := lp_ticks l + 1\<rparr>"
  have first: "loop_step E (Loop_wait (c t0) ns, l, s) = Inr (Loop_wait (c t0) ns, ?l, s)"
    using Suc.prems assms(1) by (auto simp: wait_ends_def step_wait_def waitNs_poll_reads)
  have "wait_ends c (lp_ticks ?l) (c t0) ns k"
    using Suc.prems unfolding wait_ends_def by (auto dest: spec [of _ "Suc _"])
  from Suc.IH [OF this] show ?case unfolding loop_steps.simps(2) [of E "Suc k"] first by simp
qed

section \<open>The budget\<close>

text \<open>
  \<open>budget += draw - slept\<close> is computed in doubles and truncated: the result is within 2 ns of the
  exact sum.
\<close>

lemma budget_update:
  fixes d :: rat
  assumes "\<bar>budget\<bar> \<le> 2 ^ 51" "0 \<le> slept" "slept \<le> 2 ^ 51" "0 \<le> d" "d \<le> 2 ^ 48"
  shows "\<exists>r. double_to_int64 (double_of_int budget + (Fin d - double_of_int slept)) = Inr r \<and>
    \<bar>of_int r - (of_int budget + d - of_int slept)\<bar> < 2"
proof -
  have slept: "(of_int slept :: rat) \<le> 2 ^ 51" "(0 :: rat) \<le> of_int slept"
    using assms(2,3) of_int_le_iff [of slept "2 ^ 51", where ?'a = rat] by simp_all
  have budget: "(of_int \<bar>budget\<bar> :: rat) \<le> 2 ^ 51"
    using assms(1) of_int_le_iff [of "\<bar>budget\<bar>" "2 ^ 51", where ?'a = rat] by simp
  define x where "x = nearest64 (d - of_int slept)"
  have dx: "\<bar>d - of_int slept\<bar> \<le> of_int (2 ^ 52)" using slept assms by (simp add: abs_le_iff)
  have x: "round64 (d - of_int slept) = Fin x" "\<bar>x\<bar> \<le> of_int (2 ^ 52)"
    using round64_int_bounded [OF dx] by (simp_all add: x_def)
  have ex: "\<bar>x - (d - of_int slept)\<bar> \<le> 1 / 2"
    unfolding x_def using dx by (intro nearest64_abs_error) simp
  define y where "y = nearest64 (of_int budget + x)"
  have "\<bar>of_int budget + x\<bar> \<le> \<bar>of_int budget\<bar> + \<bar>x\<bar>" by (rule abs_triangle_ineq)
  then have dy: "\<bar>of_int budget + x\<bar> \<le> of_int (2 ^ 51 + 2 ^ 52)" using budget x(2) by simp
  have y: "round64 (of_int budget + x) = Fin y" "\<bar>y\<bar> \<le> of_int (2 ^ 51 + 2 ^ 52)"
    using round64_int_bounded [OF dy] by (simp_all add: y_def)
  have ey: "\<bar>y - (of_int budget + x)\<bar> \<le> 1 / 2"
    unfolding y_def using dy by (intro nearest64_abs_error) simp
  have "double_of_int budget + (Fin d - double_of_int slept) = Fin y"
    using assms x(1) y(1) by (simp add: minus_double_def)
  moreover have "double_to_int64 (Fin y) = Inr (truncate_rat y)"
    using y(2) by (intro double_to_int64_Fin [of "- (2 ^ 51 + 2 ^ 52)" _ "2 ^ 51 + 2 ^ 52"])
      (simp_all add: abs_le_iff)
  moreover have "\<bar>of_int (truncate_rat y) - (of_int budget + d - of_int slept)\<bar> < 2"
    using truncate_rat_error [of y] ex ey by (simp only: abs_le_iff abs_less_iff) linarith
  ultimately show ?thesis by auto
qed

section \<open>One turn of the loop\<close>

text \<open>What the three steps after the wait do to the object: message, overload check, next worker.\<close>

definition overload_check :: "('q, 'd) sched_env \<Rightarrow> 'q scheduler \<Rightarrow> 'q scheduler" where
  "overload_check E s =
     (let i = unat (sch_next s); factor = sch_logged s ! i
      in if unat ((ucast (sch_logging_threshold s) :: uint64) * factor) < q_size (env_queue E) (sch_queues s ! i)
         then s\<lparr>sch_logged := (sch_logged s)[i := factor * 2]\<rparr> else s)"

definition advance_next :: "'q scheduler \<Rightarrow> 'q scheduler" where
  "advance_next s =
     s\<lparr>sch_next := (if unat (sch_next s + 1) = length (sch_queues s) then 0 else sch_next s + 1)\<rparr>"

definition send_to_next :: "('q, 'd) sched_env \<Rightarrow> 'q scheduler \<Rightarrow> 'q scheduler" where
  "send_to_next E s = advance_next (overload_check E
     (message_worker (env_queue E) (Event_of (env_dynamic E) SEND_REQUEST) (unat (sch_next s)) s))"

text \<open>The object is well formed: one overload factor per queue, and the next worker exists.\<close>

definition sched_wf :: "'q scheduler \<Rightarrow> bool" where
  "sched_wf s \<longleftrightarrow> length (sch_logged s) = length (sch_queues s) \<and> unat (sch_next s) < length (sch_queues s)
     \<and> length (sch_queues s) < 2 ^ 32"

lemma overload_check_simps [simp]:
  "sch_next (overload_check E s) = sch_next s"
  "sch_rps (overload_check E s) = sch_rps s"
  "sch_state (overload_check E s) = sch_state s"
  "sch_queues (overload_check E s) = sch_queues s"
  "length (sch_logged (overload_check E s)) = length (sch_logged s)"
  by (simp_all add: overload_check_def Let_def)

lemma send_to_next_simps [simp]:
  "sch_rps (send_to_next E s) = sch_rps s"
  "sch_state (send_to_next E s) = sch_state s"
  "length (sch_queues (send_to_next E s)) = length (sch_queues s)"
  "length (sch_logged (send_to_next E s)) = length (sch_logged s)"
  "sch_queues (send_to_next E s) =
     (sch_queues s)[unat (sch_next s) := q_putMessage (env_queue E) (Event_of (env_dynamic E) SEND_REQUEST)
        (sch_queues s ! unat (sch_next s))]"
  by (simp_all add: send_to_next_def advance_next_def message_worker_queues)

lemma unat_next_wrap:
  assumes "unat (n :: uint32) < len" "len < 2 ^ 32"
  shows "unat (if unat (n + 1) = len then 0 else n + 1) = (unat n + 1) mod len"
proof -
  have "unat (n + 1) = unat n + 1"
    using assms by (simp add: unat_word_ariths)
  then show ?thesis using assms(1) by (auto simp: mod_Suc)
qed

lemma send_to_next_next:
  "sched_wf s \<Longrightarrow> unat (sch_next (send_to_next E s)) = (unat (sch_next s) + 1) mod length (sch_queues s)"
  using unat_next_wrap [of "sch_next s" "length (sch_queues s)"]
  by (simp add: sched_wf_def send_to_next_def advance_next_def split: if_splits)

lemma sched_wf_send_to_next: "sched_wf s \<Longrightarrow> sched_wf (send_to_next E s)"
  using send_to_next_next [of s E] by (auto simp: sched_wf_def intro: mod_less_divisor)

lemma loop_steps_send:
  assumes "sched_wf s"
  shows "loop_steps E 3 (Loop_put, l, s) = Inr (Loop_rps, l, send_to_next E s)"
  using assms
  by (simp add: numeral_3_eq_3 sched_wf_def step_put_def step_log_def step_next_def
      send_to_next_def advance_next_def overload_check_def Let_def)

text \<open>The budget that is left at the top of an iteration that begins at clock reading \<open>b\<close>.\<close>

definition budget_at :: "loop_locals \<Rightarrow> int \<Rightarrow> int" where
  "budget_at l b = (if lp_a l \<noteq> 0 then lp_budget l - (b - lp_a l) else lp_budget l)"

definition last_send :: "loop_locals \<Rightarrow> int \<Rightarrow> int" where
  "last_send l b = (if lp_a l \<noteq> 0 then lp_a l else b)"

lemma loop_steps_body:
  assumes c: "clock_reads (env_clock E) c"
    and a: "0 \<le> lp_a l" "lp_a l \<le> c (lp_ticks l)"
    and budget: "\<bar>lp_budget l\<bar> \<le> 2 ^ 50"
    and w: "wait_ends c (lp_ticks l + 2) (c (lp_ticks l + 1)) (max (budget_at l (c (lp_ticks l))) 0) k"
  shows "loop_steps E (k + 2) (Loop_body, l, s) =
    Inr (Loop_woken, l\<lparr>lp_b := c (lp_ticks l), lp_budget := budget_at l (c (lp_ticks l)),
                       lp_ticks := lp_ticks l + k + 3\<rparr>, s)"
proof -
  let ?t = "lp_ticks l"
  let ?l = "l\<lparr>lp_b := c ?t, lp_budget := budget_at l (c ?t), lp_ticks := ?t + 2\<rparr>"
  have r: "in_int64 (c ?t - lp_a l)" "in_int64 (lp_budget l - (c ?t - lp_a l))"
    using a budget clock_readsD(2,3) [OF c, of ?t] by (simp_all add: in_int64_def abs_le_iff)
  have "loop_step E (Loop_body, l, s) = Inr (Loop_wait (c (?t + 1)) (max (budget_at l (c ?t)) 0), ?l, s)"
    using r by (simp add: step_body_def clock_readsD [OF c] budget_at_def)
  moreover have "loop_steps E (Suc k) (Loop_wait (c (?t + 1)) (max (budget_at l (c ?t)) 0), ?l, s) =
      Inr (Loop_woken, ?l\<lparr>lp_ticks := lp_ticks ?l + k + 1\<rparr>, s)"
    using w by (intro loop_steps_wait [OF c]) simp
  ultimately show ?thesis by simp
qed

lemma loop_step_woken:
  assumes c: "clock_reads (env_clock E) c"
    and env: "log_contract (env_log E)" "unit_draw (env_draw E (lp_draws l))"
    and interval: "0 \<le> lp_interval_ns l" "lp_interval_ns l \<le> 1000000000"
    and budget: "\<bar>lp_budget l\<bar> \<le> 2 ^ 51"
    and b: "lp_b l = c t0" "t0 \<le> lp_ticks l" "c (lp_ticks l) \<le> lp_b l + 2 ^ 51"
  shows "\<exists>d r. draw_interval E l (lp_interval_ns l) = Fin d \<and> 0 \<le> d \<and> d \<le> of_int (21 * lp_interval_ns l) \<and>
    \<bar>of_int r - (of_int (lp_budget l) + d - of_int (c (lp_ticks l) - lp_b l))\<bar> < 2 \<and>
    loop_step E (Loop_woken, l, s) = Inr (Loop_put, l\<lparr>lp_a := c (lp_ticks l), lp_budget := r,
      lp_ticks := lp_ticks l + 1, lp_draws := lp_draws l + 1\<rparr>, s)"
proof -
  obtain d where d: "draw_interval E l (lp_interval_ns l) = Fin d" "0 \<le> d" "d \<le> of_int (21 * lp_interval_ns l)"
    using randomExponentialInterval_bounds [OF env, of "lp_interval_ns l"] interval
    by (auto simp: draw_interval_def)
  have "(of_int (21 * lp_interval_ns l) :: rat) \<le> of_int (2 ^ 48)"
    unfolding of_int_le_iff using interval(2) by simp
  then have d48: "d \<le> 2 ^ 48" using d(3) by simp
  have "0 \<le> c (lp_ticks l) - lp_b l" "c (lp_ticks l) - lp_b l \<le> 2 ^ 51"
    using clock_readsD(4) [OF c b(2)] b(1,3) by simp_all
  from budget_update [OF budget this d(2) d48] obtain r where
    r: "double_to_int64 (double_of_int (lp_budget l) + (Fin d - double_of_int (c (lp_ticks l) - lp_b l))) = Inr r"
      "\<bar>of_int r - (of_int (lp_budget l) + d - of_int (c (lp_ticks l) - lp_b l))\<bar> < 2"
    by auto
  have "loop_step E (Loop_woken, l, s) = Inr (Loop_put, l\<lparr>lp_a := c (lp_ticks l), lp_budget := r,
      lp_ticks := lp_ticks l + 1, lp_draws := lp_draws l + 1\<rparr>, s)"
    using r(1) d(1) clock_diff_range [OF c, of "lp_ticks l" t0]
    by (simp add: step_woken_def clock_readsD [OF c] draw_interval_def b(1))
  then show ?thesis using d r(2) by blast
qed

lemma budget_at_bound:
  assumes "\<bar>lp_budget l\<bar> \<le> 2 ^ 50" "lp_a l \<le> c (lp_ticks l)" "\<And>t. c t \<le> last_send l (c (lp_ticks l)) + 2 ^ 50"
  shows "\<bar>budget_at l (c (lp_ticks l))\<bar> \<le> 2 ^ 51"
  using assms(1,2) assms(3) [of "lp_ticks l"] by (auto simp: budget_at_def last_send_def split: if_splits)

lemma loop_turn:
  assumes c: "clock_reads (env_clock E) c"
    and env: "log_contract (env_log E)" "unit_draw (env_draw E (lp_draws l))"
    and run: "sch_state s = RUNNING" "sched_wf s" "int32_to_uint32 (lp_rps l) = sch_rps s"
    and interval: "0 \<le> lp_interval_ns l" "lp_interval_ns l \<le> 1000000000"
    and budget: "\<bar>lp_budget l\<bar> \<le> 2 ^ 50"
    and a: "0 \<le> lp_a l" "lp_a l \<le> c (lp_ticks l)"
    and window: "\<And>t. c t \<le> last_send l (c (lp_ticks l)) + 2 ^ 50"
    and w: "wait_ends c (lp_ticks l + 2) (c (lp_ticks l + 1)) (max (budget_at l (c (lp_ticks l))) 0) k"
  shows "\<exists>d r. draw_interval E l (lp_interval_ns l) = Fin d \<and> 0 \<le> d \<and> d \<le> of_int (21 * lp_interval_ns l) \<and>
    \<bar>of_int r - (of_int (lp_budget l) + d - of_int (c (lp_ticks l + k + 3) - last_send l (c (lp_ticks l))))\<bar> < 2 \<and>
    loop_steps E (k + 8) (Loop_while, l, s) =
      Inr (Loop_while, l\<lparr>lp_a := c (lp_ticks l + k + 3), lp_b := c (lp_ticks l), lp_budget := r,
             lp_ticks := lp_ticks l + k + 4, lp_draws := lp_draws l + 1\<rparr>, send_to_next E s)"
proof -
  let ?t = "lp_ticks l"
  let ?l = "l\<lparr>lp_b := c ?t, lp_budget := budget_at l (c ?t), lp_ticks := ?t + k + 3\<rparr>"
  let ?slept = "c (?t + k + 3) - c ?t"
  have "lp_b ?l = c ?t" "?t \<le> lp_ticks ?l" "c (lp_ticks ?l) \<le> lp_b ?l + 2 ^ 51"
    using window [of "?t + k + 3"] a by (auto simp: last_send_def split: if_splits)
  moreover have "\<bar>budget_at l (c ?t)\<bar> \<le> 2 ^ 51" using budget a(2) window by (intro budget_at_bound)
  ultimately obtain d r where d: "draw_interval E l (lp_interval_ns l) = Fin d" "0 \<le> d" "d \<le> of_int (21 * lp_interval_ns l)"
    and r: "\<bar>of_int r - (of_int (budget_at l (c ?t)) + d - of_int ?slept)\<bar> < 2"
    and woken: "loop_step E (Loop_woken, ?l, s) = Inr (Loop_put, l\<lparr>lp_a := c (?t + k + 3), lp_b := c ?t,
      lp_budget := r, lp_ticks := ?t + k + 4, lp_draws := lp_draws l + 1\<rparr>, s)"
    using loop_step_woken [OF c, of ?l ?t s] env interval by (auto simp: draw_interval_def)
  have eq: "(of_int (budget_at l (c ?t)) + d - of_int ?slept :: rat) =
      of_int (lp_budget l) + d - of_int (c (?t + k + 3) - last_send l (c ?t))"
    by (simp add: budget_at_def last_send_def)
  let ?l' = "l\<lparr>lp_a := c (?t + k + 3), lp_b := c ?t, lp_budget := r, lp_ticks := ?t + k + 4, lp_draws := lp_draws l + 1\<rparr>"
  have "k + 8 = Suc ((k + 2) + Suc (3 + 1))" by simp
  then have "loop_steps E (k + 8) (Loop_while, l, s) = loop_steps E (Suc ((k + 2) + Suc (3 + 1))) (Loop_while, l, s)"
    by (rule arg_cong)
  also have "\<dots> = loop_steps E (Suc (3 + 1)) (Loop_woken, ?l, s)"
    using loop_steps_body [OF c a budget w, of s] run(1)
    unfolding loop_steps.simps(2) [of E "(k + 2) + _"] loop_steps_add [of E "k + 2"] by simp
  also have "\<dots> = loop_steps E 1 (Loop_rps, ?l', send_to_next E s)"
    unfolding loop_steps.simps(2) [of E "3 + 1"] woken res_bind_simps loop_steps_add [of E 3]
      loop_steps_send [OF run(2)] ..
  also have "\<dots> = Inr (Loop_while, ?l', send_to_next E s)"
    using run(3) by (simp add: step_rps_def)
  finally show ?thesis using d r unfolding eq by blast
qed

lemma loop_step_init:
  assumes rps: "1 \<le> getRps s" and env: "log_contract (env_log E)" "unit_draw (env_draw E (lp_draws l))"
  shows "\<exists>l'. loop_step E (Loop_init, l, s) = Inr (Loop_while, l', s\<lparr>sch_next := 0\<rparr>)"
proof -
  obtain i where i: "interval_ns_of (getRps s) = Inr i" "0 \<le> i" "i * getRps s \<le> 1000000000"
    using interval_ns_of_positive [OF rps getRps_le] by auto
  have "i \<le> i * getRps s" using i(2) rps mult_left_mono [of 1 "getRps s" i] by simp
  then have i48: "i \<le> 2 ^ 48" using i(3) by simp
  then obtain d where d: "draw_interval E l i = Fin d" "0 \<le> d" "d \<le> of_int (21 * i)"
    using randomExponentialInterval_bounds [OF env i(2)] by (auto simp: draw_interval_def)
  have "double_to_int64 (Fin d) = Inr (truncate_rat d)"
    using d i48 by (intro double_to_int64_Fin [of 0 _ "21 * i"]) simp_all
  then show ?thesis using i(1) d(1) by (simp add: step_init_def Let_def getRps_def)
qed

lemma loop_step_rps:
  assumes "1 \<le> getRps s"
  shows "\<exists>l'. loop_step E (Loop_rps, l, s) = Inr (Loop_while, l', s)"
  using interval_ns_of_positive [OF assms getRps_le] by (auto simp: step_rps_def getRps_def)

section \<open>Properties\<close>

text \<open>
  The mean interval. For every positive rate the conversion \<open>1.0 / rps * k_ns_per_s\<close>, computed in
  binary64 with two roundings and a truncation, is defined; \<open>rps\<close> intervals last at most one second
  and fall short of it by at most \<open>rps\<close> nanoseconds.
\<close>

lemma scheduler_mean_interval:
  assumes "1 \<le> rps" "rps \<le> int32_max"
  shows "\<exists>interval_ns. interval_ns_of rps = Inr interval_ns \<and> 0 \<le> interval_ns \<and>
    k_ns_per_s - rps \<le> interval_ns * rps \<and> interval_ns * rps \<le> k_ns_per_s"
  using interval_ns_of_positive [OF assms] by simp

text \<open>
  C40. A rate of zero is undefined behaviour. When \<open>rps_\<close> is 0, whether from the command line or through
  \<open>setRps(0)\<close>, the infinite quotient is converted to an integer: at the start of the sending phase,
  and in the sending phase as soon as the loop notices the change.
\<close>

theorem scheduler_zero_rate:
  assumes "sch_rps s = 0"
  shows "loop_step E (Loop_init, l, s) = Inl (Undefined Float_to_int) \<and>
    (in_int32 (lp_rps l) \<and> lp_rps l \<noteq> 0 \<longrightarrow> loop_step E (Loop_rps, l, s) = Inl (Undefined Float_to_int))"
proof -
  have z: "uint32_to_int32 0 = 0" by (simp add: uint32_to_int32_def int_range)
  have "int32_to_uint32 r \<noteq> 0" if "in_int32 r" "r \<noteq> 0" for r
    using uint32_int32_roundtrip [OF that(1)] that(2) z by metis
  then show ?thesis
    using assms z by (simp add: step_init_def step_rps_def interval_ns_of_zero)
qed

theorem scheduler_zero_rate_witness:
  "loop_step (list_env (\<lambda>_. None) (\<lambda>_. Fin 1) (\<lambda>_. Fin 0))
     (Loop_rps, initial_locals\<lparr>lp_rps := 1024\<rparr>,
      setRps 0 (Scheduler4 default_flags list_queue 1024 1 1000 500)) = Inl (Undefined Float_to_int)"
  using scheduler_zero_rate [of "setRps 0 (Scheduler4 default_flags list_queue 1024 1 1000 500)"
      "list_env (\<lambda>_. None) (\<lambda>_. Fin 1) (\<lambda>_. Fin 0)" "initial_locals\<lparr>lp_rps := 1024\<rparr>"]
  by (simp add: setRps_def int32_to_uint32_def in_int32_def del: loop_step.simps)


text \<open>A clock that advances one nanosecond per reading, for a second.\<close>

definition ns_clock :: clock where
  "ns_clock t = Some \<lparr>tv_sec = 1, tv_nsec = int (min t 999999999)\<rparr>"

lemma ns_clock_reads: "clock_reads ns_clock (\<lambda>t. 1000000000 + int (min t 999999999))"
  unfolding clock_reads_def
proof (intro conjI allI)
  fix t
  show "nowNs ns_clock t = Inr (1000000000 + int (min t 999999999))"
    by (subst nowNs_Some [of _ _ "\<lparr>tv_sec = 1, tv_nsec = int (min t 999999999)\<rparr>"])
      (auto simp: ns_clock_def min_def)
qed (auto simp: mono_def min_def)


end
