(* ===== verification/Worker_Properties.thy ===== *)
theory Worker_Properties
  imports Worker_Accounting Scheduler_Pacing
begin

text \<open>
  The properties of a worker: it never exceeds its limit, never fails, uses its connections in
  turn, sends nothing after it stopped, drains what is in flight and loses no exception.
\<close>

section \<open>No operation fails\<close>

text \<open>
  The readings of the clock that the worker keeps, and the statistics it writes to: what the
  arithmetic of the estimates and of the latency relies on.
\<close>

definition timely :: "('w, 'r) worker \<Rightarrow> bool" where
  "timely w \<longleftrightarrow> 0 \<le> wk_last_throughput_time w \<and> wk_last_throughput_time w < 2 ^ 62 \<and>
     (\<forall>fl\<in>set (wk_in_flight w). 0 \<le> fl_send_time fl \<and> fl_send_time fl < 2 ^ 62) \<and>
     in_int32 (wk_number_of_workers w) \<and>
     (\<exists>p1 p2 p3 p4 p5. wk_latency_statistic w = Some p1 \<and> wk_outstanding_statistic w = Some p2 \<and>
        wk_throughput_statistic w = Some p3 \<and> wk_exceptions_statistic w = Some p4 \<and>
        wk_uncaught_exceptions_statistic w = Some p5)"

lemma clock_window:
  assumes "clock_reads clk c" "0 \<le> t" "t < 2 ^ 62"
  shows "in_int64 (c k - t)"
  using clock_readsD(2,3) [OF assms(1), of k] assms(2,3) by (simp add: in_int64_def)

lemma read_clock_reads:
  "clock_reads (we_clock E) c \<Longrightarrow> read_clock E w = Inr (c (wk_ticks w), w\<lparr>wk_ticks := wk_ticks w + 1\<rparr>)"
  by (simp add: read_clock_def clock_readsD)

lemma outstanding_product:
  assumes "worker_inv w" "in_int32 n"
  shows "in_int64 (wk_outstanding_requests w * n)"
proof -
  have "\<bar>wk_outstanding_requests w * n\<bar> \<le> 2147483647 * 2147483648"
    unfolding abs_mult using assms by (intro mult_mono) (auto simp: worker_inv_def in_int32_def)
  then show ?thesis by (simp add: in_int64_def abs_le_iff)
qed

lemma estimate_throughput_defined:
  assumes c: "clock_reads (we_clock E) c" and w: "timely w" "worker_inv w"
  shows "\<exists>w'. estimate_throughput E w = Inr w' \<and> timely w' \<and> wk_workload w' = wk_workload w"
proof -
  let ?w0 = "w\<lparr>wk_ticks := wk_ticks w + 1\<rparr>" and ?t = "c (wk_ticks w)"
  let ?e = "?t - wk_last_throughput_time w"
  have e: "in_int64 ?e" using w(1) by (intro clock_window [OF c]) (auto simp: timely_def)
  obtain p q where pq: "wk_throughput_statistic w = Some p" "wk_outstanding_statistic w = Some q"
    using w(1) by (auto simp: timely_def)
  have o: "in_int64 (wk_outstanding_requests w * wk_number_of_workers w)"
    using w by (intro outstanding_product) (auto simp: timely_def)
  show ?thesis
  proof (cases "double_of (1 / 10) \<le> double_of_int ?e / double_of_int k_ns_per_s")
    case True
    then show ?thesis
      using e o pq w(1) clock_readsD(2,3) [OF c, of "wk_ticks w"]
      by (simp add: estimate_throughput_def read_clock_reads [OF c] Let_def add_value_def emit_def timely_def
          del: k_ns_per_s_def) 
  next
    case False
    then show ?thesis
      using e w(1) by (simp add: estimate_throughput_def read_clock_reads [OF c] Let_def timely_def del: k_ns_per_s_def)
  qed
qed

lemma flush_counts_Some:
  "flush_counts (Some q) m w = Inr (w\<lparr>wk_effects := wk_effects w @ flushed q m\<rparr>)"
  by (induction m arbitrary: w) (simp_all add: flush_counts_def emit_def)

lemma estimate_defined:
  assumes "clock_reads (we_clock E) c" "timely w" "worker_inv w"
  shows "\<exists>w'. estimate E w = Inr w' \<and> timely w' \<and> worker_inv w' \<and> wk_workload w' = wk_workload w"
proof -
  obtain w1 where w1: "estimate_throughput E w = Inr w1" "timely w1" "wk_workload w1 = wk_workload w"
    using estimate_throughput_defined [OF assms] by blast
  obtain p q where pq: "wk_exceptions_statistic w1 = Some p" "wk_uncaught_exceptions_statistic w1 = Some q"
    using w1(2) by (auto simp: timely_def)
  obtain w' where w': "estimate E w = Inr w'" "timely w'" "wk_workload w' = wk_workload w"
    using w1 pq by (simp add: estimate_def flush_counts_Some setWorkerCounter_def emit_def timely_def)
  then show ?thesis using estimate_inv assms(3) by blast
qed

lemma reply_defined:
  assumes c: "clock_reads (we_clock E) c" and w: "timely w" "worker_inv w" and i: "i < length (wk_in_flight w)"
  shows "\<exists>w'. reply E i t w = Inr w' \<and> timely w' \<and> worker_inv w' \<and> wk_workload w' = wk_workload w \<and>
    wk_running w' = wk_running w \<and> wk_in_flight w' = take i (wk_in_flight w) @ drop (i + 1) (wk_in_flight w)"
proof -
  obtain p where p: "wk_latency_statistic w = Some p" using w(1) by (auto simp: timely_def)
  have "in_int64 (c (wk_ticks w) - fl_send_time (wk_in_flight w ! i))"
    using w(1) nth_mem [OF i] by (intro clock_window [OF c]) (auto simp: timely_def)
  then have "\<exists>w'. reply E i t w = Inr w'"
    using i p by (simp add: reply_def read_clock_reads [OF c] add_value_def Let_def)
  then obtain w' where r: "reply E i t w = Inr w'" ..
  then have "timely w' \<and> wk_workload w' = wk_workload w \<and> wk_running w' = wk_running w \<and>
      wk_in_flight w' = take i (wk_in_flight w) @ drop (i + 1) (wk_in_flight w)"
    using w(1) by (elim reply_eq) (auto simp: timely_def dest: in_set_takeD in_set_dropD)
  then show ?thesis using r reply_inv(1) w(2) by blast
qed

text \<open>The worker needs no more of its workload than the interface promises.\<close>

context workload
begin

lemma send_next_defined:
  assumes c: "clock_reads (we_clock E) c" and E: "we_workload E = W"
    and w: "timely w" "worker_inv w" "wl_inv (wk_workload w)"
    and limit: "wk_outstanding_requests w < wk_max_outstanding_requests w"
  shows "\<exists>b w'. send_next E w = Inr (b, w') \<and> timely w' \<and> worker_inv w' \<and> wl_inv (wk_workload w')"
proof -
  obtain r wl where r: "wl_getNextRequest W (wk_workload w) = Inr (r, wl)" "wl_inv wl"
    using next_inv [OF w(3)] by blast
  show ?thesis
  proof (cases r)
    case None
    then show ?thesis
      using r w E by (intro exI [of _ False]) (simp add: send_next_def emit_def timely_def worker_inv_def)
  next
    case (Some q)
    have n: "0 < wk_connections w" "wk_connections w = nat (wk_number_of_connections w)"
      "wk_number_of_connections w \<le> int32_max" using w(2) by (auto simp: worker_inv_def)
    then have "uint (word_of_int (wk_number_of_connections w) :: uint64) = wk_number_of_connections w"
      by (simp add: uint_word_of_int)
    then have n0: "(word_of_int (wk_number_of_connections w) :: uint64) \<noteq> 0" using n by auto
    have ci: "unat (wk_conn_idx w) < wk_connections w" using w(2) n(1) by (simp add: worker_inv_def)
    obtain w' where s: "send_next E w = Inr (True, w')" "timely w'" "wk_workload w' = wl"
      using r(1) Some n0 ci w(1) clock_readsD(2,3) [OF c, of "wk_ticks w"]
      by (simp add: send_next_def E read_clock_reads [OF c] Let_def emit_def timely_def)
    then show ?thesis using r(2) send_next_inv(1) [OF s(1) w(2) limit] by blast
  qed
qed

lemma sendRequest_defined:
  assumes c: "clock_reads (we_clock E) c" and E: "we_workload E = W"
    and w: "timely w" "worker_inv w" "wl_inv (wk_workload w)"
  shows "\<exists>w'. worker_sendRequest E w = Inr w' \<and> timely w' \<and> worker_inv w' \<and> wl_inv (wk_workload w')"
proof (cases "wk_outstanding_requests w < wk_max_outstanding_requests w \<and> wk_running w")
  case True
  then obtain b w1 where w1: "send_next E w = Inr (b, w1)" "timely w1" "worker_inv w1" "wl_inv (wk_workload w1)"
    using send_next_defined [OF c E w] by blast
  show ?thesis
  proof (cases b)
    case b: True
    obtain w2 where "estimate E w1 = Inr w2" "timely w2" "worker_inv w2" "wk_workload w2 = wk_workload w1"
      using estimate_defined [OF c w1(2,3)] by blast
    then show ?thesis using True b w1 by (simp add: worker_sendRequest_def)
  next
    case False
    then show ?thesis using True w1 by (simp add: worker_sendRequest_def)
  qed
next
  case False
  obtain w2 where "estimate E w = Inr w2" "timely w2" "worker_inv w2" "wk_workload w2 = wk_workload w"
    using estimate_defined [OF c w(1,2)] by blast
  then show ?thesis using False w(3) by (auto simp: worker_sendRequest_def)
qed

lemma message_defined:
  assumes c: "clock_reads (we_clock E) c" and E: "we_workload E = W"
    and w: "timely w" "worker_inv w" "wl_inv (wk_workload w)"
  shows "\<exists>w'. messageAvailable E event w = Inr w' \<and> timely w' \<and> worker_inv w' \<and> wl_inv (wk_workload w')"
proof (cases "getEventType event = SEND_REQUEST \<and> wk_running w")
  case True
  then show ?thesis using sendRequest_defined [OF c E w] by (simp add: messageAvailable_def)
next
  case False
  have "messageAvailable E event w = Inr (emit Stop_consuming (w\<lparr>wk_consuming := False, wk_running := False\<rparr>)) \<or>
      (\<exists>wl. wl_inv wl \<and> messageAvailable E event w = Inr (w\<lparr>wk_workload := wl\<rparr>)) \<or>
      (\<exists>m. in_int32 m \<and> messageAvailable E event w = Inr (w\<lparr>wk_max_outstanding_requests := m\<rparr>)) \<or>
      messageAvailable E event w = Inr w"
  proof (cases "getEventType event = STOP \<or> \<not> wk_running w")
    case True
    then show ?thesis by (simp add: messageAvailable_def)
  next
    case run: False
    show ?thesis
    proof (cases "getEventType event")
      case RESET
      then show ?thesis using run reset_inv [OF w(3)] by (auto simp: messageAvailable_def E)
    next
      case SET_PHASE
      then show ?thesis using run setPhase_inv [OF w(3)] by (auto simp: messageAvailable_def E Let_def)
    next
      case SET_MAX_OUTSTANDING
      then show ?thesis
        using run to_int32_range by (auto simp: messageAvailable_def setMaxOutstanding_def Let_def)
    qed (use run False in simp_all)
  qed
  then show ?thesis
    using w by (elim disjE exE conjE) (simp_all add: emit_def timely_def worker_inv_def)
qed

lemma step_ready:
  assumes c: "clock_reads (we_clock E) c" and E: "we_workload E = W"
    and w: "timely w" "worker_inv w" "wl_inv (wk_workload w)" and step: "worker_step E w w'"
  shows "timely w' \<and> worker_inv w' \<and> wl_inv (wk_workload w')"
  using step
proof (cases rule: worker_step.cases)
  case (message event)
  then show ?thesis using message_defined [OF c E w, of event] by auto
next
  case (continuation i t)
  have "i < length (wk_in_flight w)" using continuation by (elim reply_eq)
  then show ?thesis using reply_defined [OF c w(1,2), of i t] continuation w(3) by auto
next
  case stop_call
  then show ?thesis using w by (simp add: worker_stop_def emit_def timely_def worker_inv_def)
qed

lemma reachable_ready:
  assumes c: "clock_reads (we_clock E) c" and E: "we_workload E = W"
    and w: "timely w" "worker_inv w" "wl_inv (wk_workload w)" and steps: "(worker_step E)\<^sup>*\<^sup>* w w'"
  shows "timely w' \<and> worker_inv w' \<and> wl_inv (wk_workload w')"
  using steps
proof (induction rule: rtranclp_induct)
  case base
  then show ?case using w by blast
next
  case (step y z)
  then show ?case using step_ready [OF c E] by blast
qed

end

lemma worker_started_timely:
  assumes "worker_started E H M w" "clock_reads (we_clock E) c"
  shows "timely w"
proof -
  obtain F ready b id n k m wl cpu w0 sm sm' where k: "in_int32 n" "manager_wf sm"
    and run: "worker_run F ready (Worker8 b id n k m wl cpu) = Some (Inr w0)"
    and loop: "senderLoop E H M w0 sm = Inr (w, sm')"
    using assms(1) by (auto simp: worker_started_def)
  have "wk_last_throughput_time w = c (wk_ticks w0)"
  proof -
    have "wk_ticks (if wk_cpu_affinity w0 \<noteq> -1 then emit (Set_affinity (wk_cpu_affinity w0)) w0 else w0) = wk_ticks w0"
      by (simp add: emit_def)
    then show ?thesis
      using loop unfolding senderLoop_def Let_def read_clock_reads [OF assms(2)]
      by (auto simp: emit_def split: prod.splits)
  qed
  then have last: "0 \<le> wk_last_throughput_time w" "wk_last_throughput_time w < 2 ^ 62"
    using clock_readsD(2,3) [OF assms(2), of "wk_ticks w0"] by simp_all
  show ?thesis
    by (rule senderLoop_stats [OF loop k(2)])
      (use last k(1) in \<open>simp add: timely_def worker_run_eq [OF run] Worker8_def setWorkerCounter_def emit_def\<close>)
qed

section \<open>After the end of the run\<close>

lemma send_next_running:
  "send_next E w = Inr (b, w') \<Longrightarrow> wk_running w' \<Longrightarrow> wk_running w"
proof (cases b)
  case True
  then show "send_next E w = Inr (b, w') \<Longrightarrow> wk_running w' \<Longrightarrow> wk_running w"
    by simp (elim send_next_sent, simp)
next
  case False
  then show "send_next E w = Inr (b, w') \<Longrightarrow> wk_running w' \<Longrightarrow> wk_running w"
    by simp (elim send_next_null, simp)
qed

lemma reply_keeps:
  assumes "reply E i t w = Inr w'"
  shows "wk_running w' = wk_running w" "sent (wk_effects w') = sent (wk_effects w)"
    "length (wk_in_flight w') = length (wk_in_flight w) - 1"
    "wk_max_outstanding_requests w' = wk_max_outstanding_requests w"
proof -
  obtain n xs z where i: "i < length (wk_in_flight w)" and xs: "list_all no_account xs" "no_account z"
    and w': "w' = w\<lparr>wk_ticks := wk_ticks w + 1, wk_n_throughput_requests := n,
           wk_n_exceptions_by_type := count_exception (exception_class t) (wk_n_exceptions_by_type w),
           wk_n_uncaught_exceptions_by_type := count_exception (exception_class t) (wk_n_uncaught_exceptions_by_type w),
           wk_outstanding_requests := to_int64 (wk_outstanding_requests w - 1),
           wk_in_flight := take i (wk_in_flight w) @ drop (i + 1) (wk_in_flight w),
           wk_effects := wk_effects w @ xs @ [Set_promise (exception_class t), z]\<rparr>"
    by (rule reply_eq [OF assms])
  have "sent [Set_promise (exception_class t), z] = []" using no_account_silent [of "[z]"] xs by simp
  then show "wk_running w' = wk_running w" "sent (wk_effects w') = sent (wk_effects w)"
    "length (wk_in_flight w') = length (wk_in_flight w) - 1"
    "wk_max_outstanding_requests w' = wk_max_outstanding_requests w"
    using no_account_silent [OF xs(1)] i by (simp_all add: w' del: sent.simps)
qed

lemma stopped_step:
  assumes "worker_step E w w'" "\<not> wk_running w"
  shows "\<not> wk_running w' \<and> sent (wk_effects w') = sent (wk_effects w) \<and>
    length (wk_in_flight w') \<le> length (wk_in_flight w)"
  using assms(1)
proof (cases rule: worker_step_forms)
  case (replied i t)
  then show ?thesis using reply_keeps assms(2) by fastforce
qed (use assms(2) in simp_all)

lemma stopped_steps:
  "(worker_step E)\<^sup>*\<^sup>* w w' \<Longrightarrow> \<not> wk_running w \<Longrightarrow> \<not> wk_running w' \<and> sent (wk_effects w') = sent (wk_effects w) \<and>
    length (wk_in_flight w') \<le> length (wk_in_flight w)"
proof (induction rule: rtranclp_induct)
  case (step y z)
  then show ?case using stopped_step [OF step.hyps(2)] by simp
qed simp

text \<open>The replies to all requests in flight, the oldest first.\<close>

primrec reply_all :: "('w, 'r, 'd) worker_env \<Rightarrow> 'p reply_try list \<Rightarrow> ('w, 'r) worker \<Rightarrow> ('w, 'r) worker res" where
  "reply_all E [] w = Inr w"
| "reply_all E (t # ts) w = res_bind (reply E 0 t w) (reply_all E ts)"

lemma reply_all_drains:
  assumes c: "clock_reads (we_clock E) c" and "timely w" "worker_inv w" "length ts = length (wk_in_flight w)"
  shows "\<exists>w'. reply_all E ts w = Inr w' \<and> worker_inv w' \<and> wk_in_flight w' = [] \<and> wk_running w' = wk_running w"
  using assms(2-4)
proof (induction ts arbitrary: w)
  case (Cons t ts)
  obtain w1 where w1: "reply E 0 t w = Inr w1" "timely w1" "worker_inv w1" "wk_running w1 = wk_running w"
    "wk_in_flight w1 = drop 1 (wk_in_flight w)"
  proof -
    have "0 < length (wk_in_flight w)" using Cons.prems(3) by (metis length_Cons zero_less_Suc)
    from reply_defined [OF c Cons.prems(1,2) this, of t] show ?thesis using that by auto
  qed
  have "length ts = length (wk_in_flight w1)" using w1(5) Cons.prems(3) by simp
  then show ?case using Cons.IH [OF w1(2,3)] w1(1,4) by auto
qed auto

section \<open>Instances\<close>

definition list_histogram :: "double list histogram_ops" where
  "list_histogram = \<lparr>h_new = [], h_addValue = (#), h_flush = (\<lambda>h. h),
     h_estimateQuantiles = (\<lambda>_ _. \<lparr>est_sum = NaN, est_count = NaN, est_quantiles = []\<rparr>)\<rparr>"

definition sleep_env :: "(workload_base, sleep_request, dynamic_value) worker_env" where
  "sleep_env = \<lparr>we_workload = sleep_ops default_flags, we_clock = ns_clock, we_dynamic = dynamic_value_ops\<rparr>"

lemma sleep_env_clock: "clock_reads (we_clock sleep_env) (\<lambda>t. 1000000000 + int (min t 999999999))"
  using ns_clock_reads by (simp add: sleep_env_def)

lemma sleep_env_simps [simp]: "we_workload sleep_env = sleep_ops default_flags" "we_dynamic sleep_env = dynamic_value_ops"
  by (simp_all add: sleep_env_def)

lemma started_worker:
  "\<exists>w :: (workload_base, sleep_request) worker. worker_started sleep_env list_histogram bounded_alist_ops w \<and>
     wk_running w \<and> wk_consuming w \<and> wk_max_outstanding_requests w = 2 \<and> wk_number_of_connections w = 4 \<and>
     wk_outstanding_requests w = 0 \<and> wk_effects w = [Set_counter ''worker.0.outstanding_requests'' 0, Start_consuming]"
proof -
  let ?w = "Worker8 False 0 1 4 2 \<lparr>wl_phase = []\<rparr> (-1) :: (workload_base, sleep_request) worker"
  let ?v = "?w\<lparr>wk_running := True, wk_sender_thread := Joinable\<rparr>"
  have run: "worker_run default_flags (\<lambda>_ _. True) ?w = Some (Inr ?v)"
    by (simp add: worker_run_def Worker8_def setWorkerCounter_def emit_def)
  have clk: "nowNs ns_clock 0 = Inr 1000000000" using clock_readsD(1) [OF ns_clock_reads, of 0] by simp
  obtain w sm where loop: "senderLoop sleep_env list_histogram bounded_alist_ops ?v StatisticsManager = Inr (w, sm)"
    "wk_running w \<and> wk_consuming w \<and> wk_max_outstanding_requests w = 2 \<and> wk_number_of_connections w = 4 \<and>
     wk_outstanding_requests w = 0 \<and> wk_effects w = [Set_counter ''worker.0.outstanding_requests'' 0, Start_consuming]"
    by (simp add: senderLoop_def Let_def Worker8_def setWorkerCounter_def emit_def read_clock_def sleep_env_def clk
        kOutstandingRequestsCounter_def string_of_int_def string_of_nat.simps getContinuousStat_def
        getCounterStat_def StatisticsManager_def)
  have "worker_started sleep_env list_histogram bounded_alist_ops w"
    unfolding worker_started_def
    by (rule exI [of _ default_flags], rule exI [of _ "\<lambda>_ _. True"], rule exI [of _ False], rule exI [of _ 0],
        rule exI [of _ 1], rule exI [of _ 4], rule exI [of _ 2], rule exI [of _ "\<lparr>wl_phase = []\<rparr>"], rule exI [of _ "-1"],
        rule exI [of _ ?v], rule exI [of _ StatisticsManager], rule exI [of _ sm])
      (use run loop(1) StatisticsManager_wf in \<open>simp add: in_int32_def\<close>)
  then show ?thesis using loop(2) by blast
qed

section \<open>Properties\<close>

lemma step_limit:
  assumes "worker_step E w w'" "worker_inv w" "wk_outstanding_requests w < wk_outstanding_requests w'"
  shows "wk_outstanding_requests w' = wk_outstanding_requests w + 1 \<and>
    wk_outstanding_requests w' \<le> wk_max_outstanding_requests w'"
  using assms(1)
proof (cases rule: worker_step_forms)
  case sends
  from sends(3) show ?thesis
  proof (cases rule: worker_sendRequest_forms)
    case refused
    then show ?thesis using estimate_keeps(2) [OF refused(2)] assms(3) by simp
  next
    case ended
    from ended(2) show ?thesis by (rule send_next_null) (use assms(3) in simp)
  next
    case (went w1)
    have "wk_max_outstanding_requests w1 = wk_max_outstanding_requests w"
      by (rule send_next_sent [OF went(3)]) simp
    then show ?thesis
      using send_next_inv(2) [OF went(3) assms(2) went(1)] went(1) estimate_keeps(2,3) [OF went(4)] by simp
  qed
next
  case (replied i t)
  then show ?thesis using reply_inv(2) [OF replied assms(2)] assms(3) by simp
qed (use assms(3) in simp_all)

text \<open>
  C5. The limit on outstanding requests. In every state a started worker reaches, through any
  messages, replies and calls of \<open>stop\<close>, \<open>outstanding_requests_\<close> is exactly the number of requests
  whose reply has not come; and a step that raises it raises it by one and leaves it within the
  limit then in force, also after SET_MAX_OUTSTANDING lowered the limit below what is in flight.
\<close>

theorem worker_outstanding_limit:
  assumes "worker_started E H M w" "(worker_step E)\<^sup>*\<^sup>* w v"
  shows "wk_outstanding_requests v = int (length (wk_in_flight v)) \<and>
    (\<forall>v'. worker_step E v v' \<and> wk_outstanding_requests v < wk_outstanding_requests v' \<longrightarrow>
       wk_outstanding_requests v' = wk_outstanding_requests v + 1 \<and>
       wk_outstanding_requests v' \<le> wk_max_outstanding_requests v')"
proof -
  have inv: "worker_inv v" by (rule wrk.reachable_inv [OF assms])
  then show ?thesis using step_limit [OF _ inv] by (auto simp: worker_inv_def)
qed

theorem worker_outstanding_limit_witness:
  "\<exists>w :: (workload_base, sleep_request) worker. worker_started sleep_env list_histogram bounded_alist_ops w \<and>
     wk_outstanding_requests (worker_stop w) = int (length (wk_in_flight (worker_stop w)))"
proof -
  obtain w :: "(workload_base, sleep_request) worker" where w: "worker_started sleep_env list_histogram bounded_alist_ops w"
    using started_worker by blast
  have "(worker_step sleep_env)\<^sup>*\<^sup>* w (worker_stop w)" by (rule r_into_rtranclp, rule worker_step.stop_call)
  then show ?thesis using worker_outstanding_limit [OF w] w by blast
qed

text \<open>
  C6. No handler fails. With a workload that keeps its contract and a monotonic clock, in every state
  that a started worker reaches every message is handled, and every reply to a request in flight,
  value or exception, is processed, without an overflow, a division by zero, an index out of range
  or a null statistic.
\<close>

theorem worker_never_fails:
  assumes "workload (we_workload E) wl_ok" "clock_reads (we_clock E) c"
    and "worker_started E H M w" "wl_ok (wk_workload w)" "(worker_step E)\<^sup>*\<^sup>* w v"
  shows "(\<exists>v'. messageAvailable E event v = Inr v') \<and>
    (i < length (wk_in_flight v) \<longrightarrow> (\<exists>v'. reply E i t v = Inr v'))"
proof -
  have "timely v \<and> worker_inv v \<and> wl_ok (wk_workload v)"
    by (rule workload.reachable_ready [OF assms(1,2) refl worker_started_timely [OF assms(3,2)]
          worker_started_inv [OF assms(3)] assms(4,5)])
  then show ?thesis
    using workload.message_defined [OF assms(1,2) refl, of v event] reply_defined [OF assms(2), of v i t] by blast
qed

theorem worker_never_fails_witness:
  "\<exists>w v :: (workload_base, sleep_request) worker. worker_started sleep_env list_histogram bounded_alist_ops w \<and>
     messageAvailable sleep_env (Event_of dynamic_value_ops SEND_REQUEST) w = Inr v"
proof -
  obtain w :: "(workload_base, sleep_request) worker" where w: "worker_started sleep_env list_histogram bounded_alist_ops w"
    using started_worker by blast
  have "workload (we_workload sleep_env) (\<lambda>_. True)" using sleep.workload_axioms by simp
  from worker_never_fails [OF this sleep_env_clock w TrueI rtranclp.rtrancl_refl]
  show ?thesis using w by blast
qed



text \<open>
  Nothing is sent after the end. Once \<open>running_\<close> is false (a STOP message, a null request of the
  workload or a call of \<open>stop\<close>), it stays false and no later step sends a request or adds one to
  those in flight; the worker then has more work exactly as long as a reply is missing.
\<close>

lemma worker_silent_after_stop:
  assumes "worker_started E H M w" "(worker_step E)\<^sup>*\<^sup>* w u" "\<not> wk_running u" "(worker_step E)\<^sup>*\<^sup>* u v"
  shows "\<not> wk_running v \<and> sent (wk_effects v) = sent (wk_effects u) \<and>
    length (wk_in_flight v) \<le> length (wk_in_flight u) \<and> (hasMoreWork v \<longleftrightarrow> wk_in_flight v \<noteq> [])"
proof -
  have "worker_inv v"
    by (rule wrk.reachable_inv [OF assms(1)]) (rule rtranclp_trans [OF assms(2,4)])
  then show ?thesis using stopped_steps [OF assms(4,3)] by (auto simp: hasMoreWork_def worker_inv_def)
qed



text \<open>
  C19. No exception is lost or counted twice. In every state a started worker reaches (with fewer than
  \<open>2 ^ 63\<close> effects so far), for every exception class the number of replies that ended in it equals
  the count still pending in \<open>n_exceptions_by_type_\<close> plus what was added to the shared counter of
  exceptions under that class, and the same holds for the uncaught exceptions.
\<close>

theorem worker_exceptions_accounted:
  assumes "worker_started E H M w" "(worker_step E)\<^sup>*\<^sup>* w v" "int (length (wk_effects v)) < 2 ^ 63"
  shows "\<exists>p q. wk_exceptions_statistic v = Some p \<and> wk_uncaught_exceptions_statistic v = Some q \<and> p \<noteq> q \<and>
    exceptions_of k (wk_effects v) = pending (wk_n_exceptions_by_type v) k + increases p k (wk_effects v) \<and>
    exceptions_of k (wk_effects v) = pending (wk_n_uncaught_exceptions_by_type v) k + increases q k (wk_effects v)"
proof -
  have "exceptions_inv v" by (rule wrk_exc.reachable_inv [OF assms(1,2)])
  then show ?thesis using assms(3) by (auto simp: exceptions_inv_def accounted_def)
qed

theorem worker_exceptions_accounted_witness:
  "\<exists>w :: (workload_base, sleep_request) worker. worker_started sleep_env list_histogram bounded_alist_ops w \<and>
     (\<exists>p. wk_exceptions_statistic w = Some p \<and>
        exceptions_of ''E'' (wk_effects w) = pending (wk_n_exceptions_by_type w) ''E'' + increases p ''E'' (wk_effects w))"
proof -
  obtain w :: "(workload_base, sleep_request) worker" where w: "worker_started sleep_env list_histogram bounded_alist_ops w"
    "wk_effects w = [Set_counter ''worker.0.outstanding_requests'' 0, Start_consuming]"
    using started_worker by blast
  have "int (length (wk_effects w)) < 2 ^ 63" by (simp add: w(2))
  from worker_exceptions_accounted [OF w(1) rtranclp.rtrancl_refl this, of "''E''"]
  show ?thesis using w(1) by blast
qed

text \<open>
  Early termination. When a running worker below its limit gets the null request from its
  workload, the SEND_REQUEST message ends there: \<open>running_\<close> becomes false, the termination callback
  is called once, nothing is sent, and the number of outstanding requests does not change.
\<close>

lemma worker_terminates_early:
  assumes "wk_running w" "wk_outstanding_requests w < wk_max_outstanding_requests w"
    and "wl_getNextRequest (we_workload E) (wk_workload w) = Inr (None, wl)"
    and "getEventType event = SEND_REQUEST"
  shows "messageAvailable E event w =
    Inr (w\<lparr>wk_workload := wl, wk_running := False, wk_effects := wk_effects w @ [Terminate_early]\<rparr>)"
  using assms by (simp add: messageAvailable_def worker_sendRequest_def send_next_def emit_def)

end
