(* ===== verification/FB303.thy ===== *)
theory FB303
  imports Scheduler
begin

text \<open>
  \<open>TreadmillFB303.h\<close> and \<open>TreadmillFB303.cpp\<close>: the remote control of a run. A handler changes the
  scheduler it refers to, keeps a configuration (a map from strings to strings) and a watchdog that
  aborts the process when the controller falls silent. Every operation takes the handler and, when
  it uses it, the scheduler, and returns both. The clock (\<open>fb_time_seconds\<close>) and folly's \<open>tryTo\<close>
  are arguments; the status codes of fb303 are the type variable \<open>'s\<close>.
\<close>

section \<open>State\<close>

record 's treadmill_fb303 =
  fb_status :: 's
  fb_aliveSince :: int64
  fb_configuration :: "string \<rightharpoonup> string"
  fb_watchdogDurationSec :: uint32
  fb_lastHeartbeat :: int64

definition TreadmillFB303 :: "'s \<Rightarrow> int64 \<Rightarrow> 's treadmill_fb303" where
  "TreadmillFB303 STARTING time_now = \<lparr>
     fb_status = STARTING,
     fb_aliveSince = time_now,
     fb_configuration = Map.empty,
     fb_watchdogDurationSec = 0,
     fb_lastHeartbeat = 0\<rparr>"

definition setStatus :: "'s \<Rightarrow> 's treadmill_fb303 \<Rightarrow> 's treadmill_fb303" where
  "setStatus status fb = fb\<lparr>fb_status := status\<rparr>"

definition getStatus :: "'s treadmill_fb303 \<Rightarrow> 's" where
  "getStatus fb = fb_status fb"

definition getStatusDetails :: "('s \<Rightarrow> string res) \<Rightarrow> 's treadmill_fb303 \<Rightarrow> string res" where
  "getStatusDetails enumNameOrThrow fb = enumNameOrThrow (getStatus fb)"

definition aliveSince :: "'s treadmill_fb303 \<Rightarrow> int64" where
  "aliveSince fb = fb_aliveSince fb"

section \<open>The watchdog\<close>

definition watchdogUpdate :: "flags \<Rightarrow> int64 \<Rightarrow> 's treadmill_fb303 \<Rightarrow> 's treadmill_fb303" where
  "watchdogUpdate F now fb =
     (if FLAGS_enable_watchdog_timer F \<and> fb_watchdogDurationSec fb > 0
      then fb\<lparr>fb_lastHeartbeat := now\<rparr> else fb)"

definition watchdogTimeoutCheck :: "flags \<Rightarrow> int64 \<Rightarrow> bool \<Rightarrow> 's treadmill_fb303 \<Rightarrow> bool res" where
  "watchdogTimeoutCheck F now raise fb =
     (if FLAGS_enable_watchdog_timer F \<and> fb_watchdogDurationSec fb > 0
      then res_bind (check_int64 (now - uint (fb_watchdogDurationSec fb))) (\<lambda>t.
             if t > fb_lastHeartbeat fb
             then if raise then Inl Aborted else Inr True
             else Inr False)
      else Inr False)"

section \<open>Control of the scheduler\<close>

definition fb_pause :: "'s treadmill_fb303 \<Rightarrow> 'q scheduler \<Rightarrow> bool \<times> 's treadmill_fb303 \<times> 'q scheduler" where
  "fb_pause fb s = (True, fb\<lparr>fb_watchdogDurationSec := 0\<rparr>, pause s)"

definition fb_resume ::
  "flags \<Rightarrow> int64 \<Rightarrow> 's treadmill_fb303 \<Rightarrow> 'q scheduler \<Rightarrow> bool \<times> 's treadmill_fb303 \<times> 'q scheduler" where
  "fb_resume F now fb s =
     (let fb' = watchdogUpdate F now fb
      in if FLAGS_require_configuration_on_resume F \<and> fb_configuration fb' = Map.empty
         then (False, fb', s)
         else case resume s of (running, s') \<Rightarrow> (running, fb', s'))"

text \<open>\<open>req\<close> is \<open>None\<close> for a null request.\<close>

definition future_resume2 ::
  "flags \<Rightarrow> ('q, 'd event) queue_ops \<Rightarrow> 'd dynamic_ops \<Rightarrow> int64 \<Rightarrow> string option \<Rightarrow>
     's treadmill_fb303 \<Rightarrow> 'q scheduler \<Rightarrow> (bool \<times> 's treadmill_fb303 \<times> 'q scheduler) res" where
  "future_resume2 F Q D now req fb s =
     (let phaseName = (case req of Some phase \<Rightarrow> phase | None \<Rightarrow> ''UNKNOWN_PHASE'');
          fb' = watchdogUpdate F now fb
      in res_bind (setPhase F Q D phaseName s) (\<lambda>s1.
           case resume s1 of (running, s2) \<Rightarrow> Inr (running, fb', s2)))"

definition fb_setRps ::
  "flags \<Rightarrow> int64 \<Rightarrow> int32 \<Rightarrow> 's treadmill_fb303 \<Rightarrow> 'q scheduler \<Rightarrow> 's treadmill_fb303 \<times> 'q scheduler" where
  "fb_setRps F now rps fb s = (watchdogUpdate F now fb, setRps rps s)"

definition fb_setMaxOutstanding ::
  "flags \<Rightarrow> ('q, 'd event) queue_ops \<Rightarrow> 'd dynamic_ops \<Rightarrow> int64 \<Rightarrow> int32 \<Rightarrow>
     's treadmill_fb303 \<Rightarrow> 'q scheduler \<Rightarrow> 's treadmill_fb303 \<times> 'q scheduler" where
  "fb_setMaxOutstanding F Q D now max_outstanding fb s =
     (watchdogUpdate F now fb, setMaxOutstandingRequests Q D max_outstanding s)"

record rate_response =
  rr_scheduler_running :: bool
  rr_rps :: int32
  rr_max_outstanding :: int32

definition future_getRate :: "'q scheduler \<Rightarrow> rate_response" where
  "future_getRate s = \<lparr>
     rr_scheduler_running = isRunning s,
     rr_rps = getRps s,
     rr_max_outstanding = getMaxOutstandingRequests s\<rparr>"

section \<open>Configuration\<close>

definition future_getConfiguration ::
  "flags \<Rightarrow> int64 \<Rightarrow> string \<Rightarrow> 's treadmill_fb303 \<Rightarrow> string \<times> 's treadmill_fb303" where
  "future_getConfiguration F now key fb =
     (let fb' = watchdogUpdate F now fb
      in case fb_configuration fb' key of Some v \<Rightarrow> (v, fb') | None \<Rightarrow> ([], fb'))"

definition setConfiguration ::
  "flags \<Rightarrow> (string \<Rightarrow> uint32 option) \<Rightarrow> int64 \<Rightarrow> string \<Rightarrow> string \<Rightarrow> 's treadmill_fb303 \<Rightarrow> 's treadmill_fb303" where
  "setConfiguration F tryTo now key val fb =
     (let fb1 = watchdogUpdate F now fb;
          fb2 = fb1\<lparr>fb_configuration := (fb_configuration fb1)(key \<mapsto> val)\<rparr>
      in if FLAGS_enable_watchdog_timer F \<and> key = ''watchdog_sec''
         then fb2\<lparr>fb_watchdogDurationSec := (case tryTo val of Some n \<Rightarrow> n | None \<Rightarrow> 0)\<rparr>
         else fb2)"

definition getConfigurationValue_uint32 ::
  "(string \<Rightarrow> uint32 option) \<Rightarrow> string \<Rightarrow> uint32 \<Rightarrow> 's treadmill_fb303 \<Rightarrow> uint32" where
  "getConfigurationValue_uint32 tryTo key defaultValue fb = (case fb_configuration fb key of
     Some v \<Rightarrow> (case tryTo v of Some n \<Rightarrow> n | None \<Rightarrow> defaultValue)
   | None \<Rightarrow> defaultValue)"

definition getConfigurationValue_string :: "string \<Rightarrow> string \<Rightarrow> 's treadmill_fb303 \<Rightarrow> string" where
  "getConfigurationValue_string key defaultValue fb = (case fb_configuration fb key of
     Some v \<Rightarrow> v | None \<Rightarrow> defaultValue)"

definition clearConfiguration :: "flags \<Rightarrow> int64 \<Rightarrow> 's treadmill_fb303 \<Rightarrow> 's treadmill_fb303" where
  "clearConfiguration F now fb = (watchdogUpdate F now fb)\<lparr>fb_configuration := Map.empty\<rparr>"

definition configurationEmpty :: "'s treadmill_fb303 \<Rightarrow> bool" where
  "configurationEmpty fb \<longleftrightarrow> fb_configuration fb = Map.empty"

section \<open>The global instance\<close>

definition getGlobalTreadmillFB303 :: "'s treadmill_fb303 option \<Rightarrow> 's treadmill_fb303 res" where
  "getGlobalTreadmillFB303 global_instance = (case global_instance of
     None \<Rightarrow> Inl (Fatal ''No global Treadmill FB303 instance set'')
   | Some fb \<Rightarrow> Inr fb)"

definition make_fb303 :: "'s \<Rightarrow> int64 \<Rightarrow> 's treadmill_fb303 option \<Rightarrow> 's treadmill_fb303 option res" where
  "make_fb303 STARTING time_now global_instance = (case global_instance of
     Some _ \<Rightarrow> Inl (Fatal ''Global Treadmill FB303 instance was already set'')
   | None \<Rightarrow> res_map Some (getGlobalTreadmillFB303 (Some (TreadmillFB303 STARTING time_now))))"

section \<open>Sequences of calls\<close>

text \<open>
  A call of the control interface with the time at which it arrives, and its effect on the handler
  and the scheduler; the answers of the queries are not kept.
\<close>

datatype fb_call =
    Call_pause
  | Call_resume
  | Call_resume2 "string option"
  | Call_setRps int32
  | Call_setMaxOutstanding int32
  | Call_getRate
  | Call_getConfiguration string
  | Call_setConfiguration string string
  | Call_clearConfiguration

fun fb_handle ::
  "flags \<Rightarrow> ('q, 'd event) queue_ops \<Rightarrow> 'd dynamic_ops \<Rightarrow> (string \<Rightarrow> uint32 option) \<Rightarrow> fb_call \<Rightarrow> int64 \<Rightarrow>
     's treadmill_fb303 \<times> 'q scheduler \<Rightarrow> ('s treadmill_fb303 \<times> 'q scheduler) res" where
  "fb_handle F Q D tryTo Call_pause now (fb, s) = Inr (snd (fb_pause fb s))"
| "fb_handle F Q D tryTo Call_resume now (fb, s) = Inr (snd (fb_resume F now fb s))"
| "fb_handle F Q D tryTo (Call_resume2 req) now (fb, s) = res_map snd (future_resume2 F Q D now req fb s)"
| "fb_handle F Q D tryTo (Call_setRps rps) now (fb, s) = Inr (fb_setRps F now rps fb s)"
| "fb_handle F Q D tryTo (Call_setMaxOutstanding m) now (fb, s) = Inr (fb_setMaxOutstanding F Q D now m fb s)"
| "fb_handle F Q D tryTo Call_getRate now (fb, s) = Inr (fb, s)"
| "fb_handle F Q D tryTo (Call_getConfiguration key) now (fb, s) = Inr (snd (future_getConfiguration F now key fb), s)"
| "fb_handle F Q D tryTo (Call_setConfiguration key val) now (fb, s) = Inr (setConfiguration F tryTo now key val fb, s)"
| "fb_handle F Q D tryTo Call_clearConfiguration now (fb, s) = Inr (clearConfiguration F now fb, s)"

primrec fb_calls ::
  "flags \<Rightarrow> ('q, 'd event) queue_ops \<Rightarrow> 'd dynamic_ops \<Rightarrow> (string \<Rightarrow> uint32 option) \<Rightarrow> (fb_call \<times> int64) list \<Rightarrow>
     's treadmill_fb303 \<times> 'q scheduler \<Rightarrow> ('s treadmill_fb303 \<times> 'q scheduler) res" where
  "fb_calls F Q D tryTo [] x = Inr x"
| "fb_calls F Q D tryTo (c # cs) x = res_bind (fb_handle F Q D tryTo (fst c) (snd c) x) (fb_calls F Q D tryTo cs)"

section \<open>An abstract controller\<close>

text \<open>
  What the interface promises its user: a state, a rate, a limit and a configuration, without the
  queues, the word representation, the heartbeat and the thread. \<open>control_step\<close> is the
  specification of a call, \<open>None\<close> where the process aborts.
\<close>

record control =
  ctl_state :: RunState
  ctl_rps :: int
  ctl_max_outstanding :: int
  ctl_configuration :: "string \<rightharpoonup> string"

definition control_of :: "'s treadmill_fb303 \<times> 'q scheduler \<Rightarrow> control" where
  "control_of x = \<lparr>
     ctl_state = sch_state (snd x),
     ctl_rps = getRps (snd x),
     ctl_max_outstanding = getMaxOutstandingRequests (snd x),
     ctl_configuration = fb_configuration (fst x)\<rparr>"

definition resumed :: "control \<Rightarrow> control" where
  "resumed c = (if ctl_state c = PAUSED then c\<lparr>ctl_state := RUNNING\<rparr> else c)"

fun control_step :: "flags \<Rightarrow> fb_call \<Rightarrow> control \<Rightarrow> control option" where
  "control_step F Call_pause c = Some (if ctl_state c = RUNNING then c\<lparr>ctl_state := PAUSED\<rparr> else c)"
| "control_step F Call_resume c =
     Some (if FLAGS_require_configuration_on_resume F \<and> ctl_configuration c = Map.empty then c else resumed c)"
| "control_step F (Call_resume2 req) c =
     (if FLAGS_wait_for_runner_ready F \<and> ctl_state c \<noteq> PAUSED then None else Some (resumed c))"
| "control_step F (Call_setRps rps) c = Some (c\<lparr>ctl_rps := rps\<rparr>)"
| "control_step F (Call_setMaxOutstanding m) c = Some (c\<lparr>ctl_max_outstanding := m\<rparr>)"
| "control_step F (Call_setConfiguration k v) c = Some (c\<lparr>ctl_configuration := (ctl_configuration c)(k \<mapsto> v)\<rparr>)"
| "control_step F Call_clearConfiguration c = Some (c\<lparr>ctl_configuration := Map.empty\<rparr>)"
| "control_step F _ c = Some c"

fun call_in_range :: "fb_call \<Rightarrow> bool" where
  "call_in_range (Call_setRps rps) = in_int32 rps"
| "call_in_range (Call_setMaxOutstanding m) = in_int32 m"
| "call_in_range _ = True"

lemma watchdogUpdate_simps [simp]:
  "fb_configuration (watchdogUpdate F now fb) = fb_configuration fb"
  "fb_watchdogDurationSec (watchdogUpdate F now fb) = fb_watchdogDurationSec fb"
  by (simp_all add: watchdogUpdate_def)

lemma setConfiguration_configuration [simp]:
  "fb_configuration (setConfiguration F tryTo now k v fb) = (fb_configuration fb)(k \<mapsto> v)"
  by (simp add: setConfiguration_def Let_def)

lemma setMax_queues:
  "setMaxOutstandingRequests Q D m s = s\<lparr>sch_max_outstanding_requests := int32_to_uint32 m,
     sch_queues := map (q_putMessage Q (Event_with SET_MAX_OUTSTANDING (dyn_of_int D (uint (int32_to_uint32 m)))))
       (sch_queues s)\<rparr>"
  by (simp add: setMaxOutstandingRequests_def Let_def messageAllWorkers_eq)

lemma setPhase_eq:
  "setPhase F Q D phase s = (if FLAGS_wait_for_runner_ready F \<and> sch_state s \<noteq> PAUSED
     then Inl (Check_failed ''state_ == PAUSED'')
     else Inr (s\<lparr>sch_queues := map (q_putMessage Q (Event_with SET_PHASE (dyn_of_string D phase))) (sch_queues s)\<rparr>))"
  by (simp add: setPhase_def messageAllWorkers_eq)

lemmas fb_defs = fb_pause_def fb_resume_def future_resume2_def fb_setRps_def fb_setMaxOutstanding_def
  future_getConfiguration_def clearConfiguration_def

lemma control_of_resume:
  "control_of (fb, snd (resume s)) = resumed (control_of (fb, s))"
  by (simp add: control_of_def resumed_def resume_def compare_exchange_strong_def Let_def getRps_def
      getMaxOutstandingRequests_def)

lemma fb_calls_append:
  "fb_calls F Q D tryTo (xs @ ys) x = res_bind (fb_calls F Q D tryTo xs x) (fb_calls F Q D tryTo ys)"
  by (induction xs arbitrary: x) (simp_all add: res_bind_assoc cong: res_bind_cong)

section \<open>The configuration\<close>

text \<open>The writes since the last clearing, latest first, of a history that is latest first.\<close>

fun recent_writes :: "fb_call list \<Rightarrow> (string \<times> string) list" where
  "recent_writes [] = []"
| "recent_writes (Call_setConfiguration k v # cs) = (k, v) # recent_writes cs"
| "recent_writes (Call_clearConfiguration # cs) = []"
| "recent_writes (_ # cs) = recent_writes cs"

lemma fb_handle_configuration:
  assumes "fb_handle F Q D tryTo c now (fb, s) = Inr (fb', s')" "fb_configuration fb = map_of (recent_writes h)"
  shows "fb_configuration fb' = map_of (recent_writes (c # h))"
  using assms
  by (cases c) (auto simp: fb_defs Let_def res_map_eq_Inr res_bind_eq_Inr case_prod_beta split: if_splits option.splits)

lemma fb_calls_configuration:
  assumes "fb_calls F Q D tryTo cs (TreadmillFB303 STARTING t0, s) = Inr (fb', s')"
  shows "fb_configuration fb' = map_of (recent_writes (rev (map fst cs)))"
  using assms
proof (induction cs arbitrary: fb' s' rule: rev_induct)
  case Nil
  then show ?case by (auto simp: TreadmillFB303_def)
next
  case (snoc c cs)
  obtain fb1 s1 where 1: "fb_calls F Q D tryTo cs (TreadmillFB303 STARTING t0, s) = Inr (fb1, s1)"
    and 2: "fb_handle F Q D tryTo (fst c) (snd c) (fb1, s1) = Inr (fb', s')"
    using snoc.prems by (auto simp: fb_calls_append res_bind_eq_Inr)
  show ?case using fb_handle_configuration [OF 2 snoc.IH [OF 1]] by simp
qed

section \<open>Properties\<close>



text \<open>
  C34. Configuration: the last write wins. After any sequence of control calls on a fresh handler, a
  read of a key returns the value of the last \<open>setConfiguration\<close> of that key since the last
  \<open>clearConfiguration\<close>, and the default (the empty string for \<open>getConfiguration\<close>) if there is none;
  \<open>configurationEmpty\<close> holds exactly when there was no write since.
\<close>

theorem fb303_configuration_last_write:
  assumes "fb_calls F Q D tryTo cs (TreadmillFB303 STARTING t0, s) = Inr (fb, s')"
  shows "getConfigurationValue_string key default_value fb =
      (case map_of (recent_writes (rev (map fst cs))) key of Some v \<Rightarrow> v | None \<Rightarrow> default_value) \<and>
    fst (future_getConfiguration F now key fb) =
      (case map_of (recent_writes (rev (map fst cs))) key of Some v \<Rightarrow> v | None \<Rightarrow> []) \<and>
    (configurationEmpty fb \<longleftrightarrow> recent_writes (rev (map fst cs)) = [])"
proof -
  have "fb_configuration fb = map_of (recent_writes (rev (map fst cs)))"
    by (rule fb_calls_configuration [OF assms])
  moreover have "map_of xs = Map.empty \<longleftrightarrow> xs = []" for xs :: "(string \<times> string) list"
    by (cases xs) (auto simp: fun_eq_iff)
  ultimately show ?thesis
    by (simp add: getConfigurationValue_string_def future_getConfiguration_def configurationEmpty_def Let_def
        split: option.split)
qed

theorem fb303_configuration_last_write_witness:
  "\<exists>fb s'. fb_calls default_flags list_queue dynamic_value_ops (\<lambda>_. None)
       [(Call_setConfiguration ''a'' ''1'', 1), (Call_setConfiguration ''b'' ''2'', 2), (Call_setConfiguration ''a'' ''3'', 3)]
       (TreadmillFB303 (0 :: nat) 0, Scheduler4 default_flags list_queue 1024 1 1000 500) = Inr (fb, s') \<and>
     getConfigurationValue_string ''a'' ''x'' fb = ''3'' \<and> getConfigurationValue_string ''c'' ''x'' fb = ''x''"
proof -
  let ?cs = "[(Call_setConfiguration ''a'' ''1'', 1), (Call_setConfiguration ''b'' ''2'', 2), (Call_setConfiguration ''a'' ''3'', 3)] :: (fb_call \<times> int64) list"
  obtain fb s' where r: "fb_calls default_flags list_queue dynamic_value_ops (\<lambda>_. None) ?cs
      (TreadmillFB303 (0 :: nat) 0, Scheduler4 default_flags list_queue 1024 1 1000 500) = Inr (fb, s')" by simp
  show ?thesis
    using r fb303_configuration_last_write [OF r, of "''a''" "''x''"] fb303_configuration_last_write [OF r, of "''c''" "''x''"]
    by auto
qed

text \<open>
  C35. The watchdog measures silence. With the timer enabled and a positive duration, after a call that
  counts as contact at time \<open>t\<close> (every call but \<open>pause\<close> and \<open>getRate\<close>, and other than a change of
  the duration itself), a check at a later time aborts the process exactly when more than the
  duration has passed since \<open>t\<close>; after \<open>pause\<close> no check aborts.
\<close>

theorem fb303_watchdog_silence:
  assumes "FLAGS_enable_watchdog_timer F" "0 < fb_watchdogDurationSec fb"
    and "fb_handle F Q D tryTo c t (fb, s) = Inr (fb', s')" "in_int64 (now - uint (fb_watchdogDurationSec fb))"
  shows "(c \<noteq> Call_pause \<and> c \<noteq> Call_getRate \<and> (\<forall>v. c \<noteq> Call_setConfiguration ''watchdog_sec'' v) \<longrightarrow>
      watchdogTimeoutCheck F now True fb' =
        (if uint (fb_watchdogDurationSec fb) < now - t then Inl Aborted else Inr False)) \<and>
    (c = Call_pause \<longrightarrow> watchdogTimeoutCheck F now True fb' = Inr False)"
proof -
  have "fb_lastHeartbeat fb' = t \<and> fb_watchdogDurationSec fb' = fb_watchdogDurationSec fb"
    if "c \<noteq> Call_pause" "c \<noteq> Call_getRate" "\<forall>v. c \<noteq> Call_setConfiguration ''watchdog_sec'' v"
    using assms(1-3) that
    by (cases c) (auto simp: fb_defs Let_def watchdogUpdate_def setConfiguration_def res_map_eq_Inr res_bind_eq_Inr
        case_prod_beta split: if_splits option.splits)
  moreover have "fb_watchdogDurationSec fb' = 0" if "c = Call_pause"
    using assms(3) that by (auto simp: fb_pause_def)
  ultimately show ?thesis using assms(1,2,4) by (auto simp: watchdogTimeoutCheck_def)
qed

theorem fb303_watchdog_silence_witness:
  "\<exists>fb' s'. fb_handle (default_flags\<lparr>FLAGS_enable_watchdog_timer := True\<rparr>) list_queue dynamic_value_ops (\<lambda>_. None)
       (Call_setRps 5) 1000 ((TreadmillFB303 (0 :: nat) 0)\<lparr>fb_watchdogDurationSec := 30\<rparr>,
         Scheduler4 default_flags list_queue 1024 1 1000 500) = Inr (fb', s') \<and>
     watchdogTimeoutCheck (default_flags\<lparr>FLAGS_enable_watchdog_timer := True\<rparr>) 1031 True fb' = Inl Aborted"
proof -
  let ?F = "default_flags\<lparr>FLAGS_enable_watchdog_timer := True\<rparr>"
  let ?fb = "(TreadmillFB303 (0 :: nat) 0)\<lparr>fb_watchdogDurationSec := 30\<rparr>"
  let ?s = "Scheduler4 default_flags list_queue 1024 1 1000 500 :: dynamic_value event list scheduler"
  obtain fb' s' where r: "fb_handle ?F list_queue dynamic_value_ops (\<lambda>_. None) (Call_setRps 5) 1000 (?fb, ?s) = Inr (fb', s')"
    by (simp add: fb_setRps_def)
  have "FLAGS_enable_watchdog_timer ?F" "0 < fb_watchdogDurationSec ?fb" "in_int64 (1031 - uint (fb_watchdogDurationSec ?fb))"
    by (simp_all add: in_int64_def)
  from fb303_watchdog_silence [OF this(1,2) r this(3)] show ?thesis using r by simp
qed

text \<open>
  Enabling the watchdog arms it with a stale heartbeat. \<open>setConfiguration\<close> records the contact
  before it stores the duration; on a handler whose watchdog was off, the call that turns it on
  leaves the heartbeat unchanged (0 on a fresh handler), so the first check at any time \<open>now\<close> past
  the duration aborts the process, even in the second in which the call arrived.
\<close>

lemma fb303_watchdog_stale_heartbeat:
  assumes "FLAGS_enable_watchdog_timer F" "tryTo val = Some n" "0 < n" "in_int64 now" "uint n < now"
  shows "watchdogTimeoutCheck F now True
    (setConfiguration F tryTo now ''watchdog_sec'' val (TreadmillFB303 STARTING t0)) = Inl Aborted"
proof -
  have "in_int64 (now - uint n)" using assms(4,5) uint_ge_0 [of n] unfolding in_int64_def by linarith
  then show ?thesis
    using assms by (simp add: setConfiguration_def watchdogUpdate_def watchdogTimeoutCheck_def TreadmillFB303_def Let_def)
qed

text \<open>
  \<open>resume2\<close> ignores the required configuration. With \<open>--require_configuration_on_resume\<close> and no
  configuration, \<open>resume\<close> refuses and leaves the scheduler paused, while \<open>resume2\<close> on the same state
  starts it.
\<close>

lemma fb303_resume2_skips_configuration:
  assumes "FLAGS_require_configuration_on_resume F" "configurationEmpty fb" "sch_state s = PAUSED"
  shows "fb_resume F now fb s = (False, watchdogUpdate F now fb, s) \<and>
    (\<exists>s'. future_resume2 F Q D now req fb s = Inr (True, watchdogUpdate F now fb, s') \<and> isRunning s')"
  using assms
  by (simp add: fb_resume_def future_resume2_def configurationEmpty_def Let_def setPhase_eq resume_def
      compare_exchange_strong_def isRunning_def)

end
