(* ===== verification/Scheduler_System.thy ===== *)
theory Scheduler_System
  imports Scheduler_Pacing
begin

text \<open>
  The scheduler among threads: the thread that runs \<open>loop()\<close>, any number of other threads that
  call the public operations (the fb303 handler's, the runner's, a worker that terminates early),
  and the workers that consume their queues. A step is one step of one of them. A broadcast by
  another thread messages one queue per step, so it interleaves with the loop's own messages and
  with other broadcasts. Two history variables record what was ever put into each queue and what
  its worker has taken; they do not influence the steps.
\<close>

section \<open>The system\<close>

record ('q, 'd) sched_sys =
  sys_thread :: "(loop_pc \<times> loop_locals) option"
  sys_sched :: "'q scheduler"
  sys_pending :: "('d event \<times> nat) list"
  sys_put :: "'d event list list"
  sys_delivered :: "'d event list list"

text \<open>The message that the loop's next step puts into a queue, if any.\<close>

fun thread_put :: "('q, 'd) sched_env \<Rightarrow> loop_pc \<Rightarrow> 'q scheduler \<Rightarrow> (nat \<times> 'd event) option" where
  "thread_put E (Loop_reset i) s =
     (if i < length (sch_queues s) then Some (i, Event_of (env_dynamic E) RESET) else None)"
| "thread_put E Loop_put s = Some (unat (sch_next s), Event_of (env_dynamic E) SEND_REQUEST)"
| "thread_put E (Loop_stop i) s =
     (if i < length (sch_queues s) then Some (i, Event_of (env_dynamic E) STOP) else None)"
| "thread_put E _ s = None"

definition append_at :: "nat \<Rightarrow> 'a \<Rightarrow> 'a list list \<Rightarrow> 'a list list" where
  "append_at i x xss = xss[i := xss ! i @ [x]]"

definition record_put :: "(nat \<times> 'd event) option \<Rightarrow> 'd event list list \<Rightarrow> 'd event list list" where
  "record_put p hs = (case p of None \<Rightarrow> hs | Some (i, e) \<Rightarrow> append_at i e hs)"

inductive sched_step :: "flags \<Rightarrow> ('q, 'd) sched_env \<Rightarrow> ('q, 'd) sched_sys \<Rightarrow> ('q, 'd) sched_sys \<Rightarrow> bool"
  for F :: flags and E :: "('q, 'd) sched_env" where
  run_call: "sys_thread x = None \<Longrightarrow> run (sys_sched x) = Inr s' \<Longrightarrow>
    sched_step F E x (x\<lparr>sys_thread := Some (Loop_reset 0, initial_locals), sys_sched := s'\<rparr>)"
| thread: "sys_thread x = Some (pc, l) \<Longrightarrow> loop_step E (pc, l, sys_sched x) = Inr (pc', l', s') \<Longrightarrow>
    sched_step F E x (x\<lparr>sys_thread := Some (pc', l'), sys_sched := s',
      sys_put := record_put (thread_put E pc (sys_sched x)) (sys_put x)\<rparr>)"
| pause_call: "sched_step F E x (x\<lparr>sys_sched := pause (sys_sched x)\<rparr>)"
| resume_call: "sched_step F E x (x\<lparr>sys_sched := snd (resume (sys_sched x))\<rparr>)"
| stop_call: "sched_step F E x (x\<lparr>sys_sched := stop (sys_sched x)\<rparr>)"
| join_call: "sys_thread x = Some (Loop_exit, l) \<Longrightarrow> join (sys_sched x) = Inr s' \<Longrightarrow>
    sched_step F E x (x\<lparr>sys_sched := s'\<rparr>)"
| setRps_call: "sched_step F E x (x\<lparr>sys_sched := setRps rps (sys_sched x)\<rparr>)"
| setMax_call: "sched_step F E x (x\<lparr>
      sys_sched := (sys_sched x)\<lparr>sch_max_outstanding_requests := int32_to_uint32 m\<rparr>,
      sys_pending := sys_pending x @
        [(Event_with SET_MAX_OUTSTANDING (dyn_of_int (env_dynamic E) (uint (int32_to_uint32 m))), 0)]\<rparr>)"
| setPhase_call: "\<not> (FLAGS_wait_for_runner_ready F \<and> sch_state (sys_sched x) \<noteq> PAUSED) \<Longrightarrow>
    sched_step F E x (x\<lparr>
      sys_pending := sys_pending x @ [(Event_with SET_PHASE (dyn_of_string (env_dynamic E) phase), 0)]\<rparr>)"
| broadcast: "sys_pending x = us @ (e, i) # vs \<Longrightarrow> i < length (sch_queues (sys_sched x)) \<Longrightarrow>
    sched_step F E x (x\<lparr>
      sys_sched := message_worker (env_queue E) e i (sys_sched x),
      sys_pending := us @ (e, i + 1) # vs,
      sys_put := append_at i e (sys_put x)\<rparr>)"
| broadcast_end: "sys_pending x = us @ (e, i) # vs \<Longrightarrow> length (sch_queues (sys_sched x)) \<le> i \<Longrightarrow>
    sched_step F E x (x\<lparr>sys_pending := us @ vs\<rparr>)"
| consume: "i < length (sch_queues (sys_sched x)) \<Longrightarrow>
    q_consume (env_queue E) (sch_queues (sys_sched x) ! i) = Some (e, q') \<Longrightarrow>
    sched_step F E x (x\<lparr>
      sys_sched := (sys_sched x)\<lparr>sch_queues := (sch_queues (sys_sched x))[i := q']\<rparr>,
      sys_delivered := append_at i e (sys_delivered x)\<rparr>)"

definition sched_init :: "flags \<Rightarrow> ('q, 'd) sched_env \<Rightarrow> ('q, 'd) sched_sys \<Rightarrow> bool" where
  "sched_init F E x \<longleftrightarrow> (\<exists>rps n m threshold. 0 < n \<and> x = \<lparr>
     sys_thread = None,
     sys_sched = Scheduler4 F (env_queue E) rps n m threshold,
     sys_pending = [],
     sys_put = replicate (unat n) [],
     sys_delivered = replicate (unat n) []\<rparr>)"

section \<open>What a worker's queue has seen\<close>

definition control :: "EventType \<Rightarrow> bool" where
  "control t \<longleftrightarrow> t = SET_PHASE \<or> t = SET_MAX_OUTSTANDING"

text \<open>Requests since the last RESET of a history.\<close>

definition sends :: "EventType list \<Rightarrow> nat" where
  "sends h = foldl (\<lambda>k t. if t = RESET then 0 else if t = SEND_REQUEST then k + 1 else k) 0 h"

text \<open>A history with exactly one STOP, after which the loop sent nothing.\<close>

definition stopped_once :: "EventType list \<Rightarrow> bool" where
  "stopped_once h \<longleftrightarrow> (\<exists>us vs. h = us @ STOP # vs \<and> STOP \<notin> set us \<and> list_all control vs)"

definition history :: "('q, 'd) sched_sys \<Rightarrow> nat \<Rightarrow> EventType list" where
  "history x i = map getEventType (sys_put x ! i)"

text \<open>The histories of \<open>n\<close> workers after \<open>k\<close> requests dealt out in turn, beginning with worker 0.\<close>

definition balanced :: "nat \<Rightarrow> nat \<Rightarrow> (nat \<Rightarrow> EventType list) \<Rightarrow> bool" where
  "balanced n k h \<longleftrightarrow> (\<forall>i<n. sends (h i) = (k + n - 1 - i) div n)"

definition no_stop :: "nat \<Rightarrow> (nat \<Rightarrow> EventType list) \<Rightarrow> bool" where
  "no_stop n h \<longleftrightarrow> (\<forall>i<n. STOP \<notin> set (h i))"

definition dealt :: "nat \<Rightarrow> nat \<Rightarrow> (nat \<Rightarrow> EventType list) \<Rightarrow> bool" where
  "dealt n nx h \<longleftrightarrow> (\<exists>k. balanced n k h \<and> nx = k mod n) \<and> no_stop n h"

definition dealt_one_more :: "nat \<Rightarrow> nat \<Rightarrow> (nat \<Rightarrow> EventType list) \<Rightarrow> bool" where
  "dealt_one_more n nx h \<longleftrightarrow> (\<exists>k. balanced n (k + 1) h \<and> nx = k mod n) \<and> no_stop n h"

fun phase_inv :: "loop_pc \<Rightarrow> nat \<Rightarrow> nat \<Rightarrow> (nat \<Rightarrow> EventType list) \<Rightarrow> bool" where
  "phase_inv (Loop_reset i) n nx h \<longleftrightarrow> i \<le> n \<and> (\<forall>j<i. sends (h j) = 0) \<and> no_stop n h"
| "phase_inv Loop_init n nx h \<longleftrightarrow> balanced n 0 h \<and> no_stop n h"
| "phase_inv Loop_log n nx h \<longleftrightarrow> dealt_one_more n nx h"
| "phase_inv Loop_next n nx h \<longleftrightarrow> dealt_one_more n nx h"
| "phase_inv (Loop_stop i) n nx h \<longleftrightarrow>
     i \<le> n \<and> (\<forall>j<i. stopped_once (h j)) \<and> (\<forall>j. i \<le> j \<longrightarrow> j < n \<longrightarrow> STOP \<notin> set (h j))"
| "phase_inv Loop_promise n nx h \<longleftrightarrow> (\<forall>j<n. stopped_once (h j))"
| "phase_inv Loop_exit n nx h \<longleftrightarrow> (\<forall>j<n. stopped_once (h j))"
| "phase_inv _ n nx h \<longleftrightarrow> dealt n nx h"

section \<open>Histories grow\<close>

lemma sends_append [simp]:
  "sends (h @ [t]) = (if t = RESET then 0 else if t = SEND_REQUEST then sends h + 1 else sends h)"
  by (simp add: sends_def)

lemma sends_Nil [simp]: "sends [] = 0"
  by (simp add: sends_def)

lemma stopped_once_control: "stopped_once h \<Longrightarrow> control t \<Longrightarrow> stopped_once (h @ [t])"
proof -
  assume "stopped_once h" "control t"
  then obtain us vs where "h = us @ STOP # vs" "STOP \<notin> set us" "list_all control vs"
    by (auto simp: stopped_once_def)
  then have "h @ [t] = us @ STOP # (vs @ [t])" "STOP \<notin> set us" "list_all control (vs @ [t])"
    using \<open>control t\<close> by auto
  then show ?thesis unfolding stopped_once_def by blast
qed

lemma stopped_once_first: "STOP \<notin> set h \<Longrightarrow> stopped_once (h @ [STOP])"
  unfolding stopped_once_def by (rule exI [of _ h], rule exI [of _ "[]"]) simp

lemma not_control [simp]: "\<not> control STOP" "\<not> control RESET" "\<not> control SEND_REQUEST"
  by (simp_all add: control_def)

lemma balanced_control:
  "control t \<Longrightarrow> balanced n k (h(i := h i @ [t])) \<longleftrightarrow> balanced n k h"
  by (auto simp: balanced_def control_def)

lemma no_stop_control: "control t \<Longrightarrow> no_stop n (h(i := h i @ [t])) \<longleftrightarrow> no_stop n h"
  by (auto simp: no_stop_def control_def)

lemma no_stop_append: "t \<noteq> STOP \<Longrightarrow> no_stop n (h(i := h i @ [t])) \<longleftrightarrow> no_stop n h"
  by (auto simp: no_stop_def)

text \<open>A message from another thread keeps the phase invariant at every point of the loop.\<close>

lemma phase_inv_control:
  assumes "control t"
  shows "phase_inv pc n nx h \<Longrightarrow> phase_inv pc n nx (h(i := h i @ [t]))"
proof (cases pc)
  case (Loop_reset j)
  then show "phase_inv pc n nx h \<Longrightarrow> ?thesis"
    using assms by (auto simp: no_stop_control control_def)
next
  case (Loop_stop j)
  then show "phase_inv pc n nx h \<Longrightarrow> ?thesis"
    using assms by (auto simp: stopped_once_control control_def)
qed (use assms in \<open>auto simp: dealt_def dealt_one_more_def balanced_control no_stop_control
      stopped_once_control\<close>)

lemma deal_index:
  fixes i k n :: nat
  assumes "i < n"
  shows "(k + 1 + n - 1 - i) div n = (k + n - 1 - i) div n + (if i = k mod n then 1 else 0)"
proof -
  let ?m = "k + n - 1 - i"
  have m: "k + 1 + n - 1 - i = Suc ?m" using assms by simp
  have "Suc ?m = k + (n - i)" using assms by simp
  then have "Suc ?m mod n = 0 \<longleftrightarrow> (k + (n - i)) mod n = 0" by simp
  also have "\<dots> \<longleftrightarrow> i = k mod n"
  proof -
    let ?r = "k mod n"
    have r: "?r < n" using assms by simp
    have "(k + (n - i)) mod n = (?r + (n - i)) mod n" by (simp add: mod_simps)
    also have "\<dots> = 0 \<longleftrightarrow> i = ?r"
    proof (cases "?r < i")
      case True
      then have "?r + (n - i) < n" using assms by simp
      then have "(?r + (n - i)) mod n = ?r + (n - i)" by (rule mod_less)
      then show ?thesis using True assms by simp
    next
      case False
      then have eq: "?r + (n - i) = (?r - i) + n" using assms by simp
      have "(?r + (n - i)) mod n = ?r - i" unfolding eq mod_add_self2 using r by (intro mod_less) simp
      then show ?thesis using False by auto
    qed
    finally show ?thesis .
  qed
  finally show ?thesis unfolding m div_Suc by simp
qed

lemma balanced_deal:
  assumes "balanced n k h" "0 < n"
  shows "balanced n (k + 1) (h(k mod n := h (k mod n) @ [SEND_REQUEST]))"
  using assms deal_index [of _ n k] by (simp add: balanced_def)

lemma balanced_zero: "balanced n 0 h \<longleftrightarrow> (\<forall>i<n. sends (h i) = 0)"
  unfolding balanced_def by (auto simp: div_eq_0_iff)

section \<open>Steps of the loop\<close>

definition extend_history :: "(nat \<times> 'd event) option \<Rightarrow> (nat \<Rightarrow> EventType list) \<Rightarrow> nat \<Rightarrow> EventType list" where
  "extend_history p h = (case p of None \<Rightarrow> h | Some (i, e) \<Rightarrow> h(i := h i @ [getEventType e]))"

lemma extend_history_simps [simp]:
  "extend_history None h = h"
  "extend_history (Some (i, e)) h = h(i := h i @ [getEventType e])"
  by (simp_all add: extend_history_def)

lemmas loop_step_defs =
  step_reset_def step_init_def step_body_def step_wait_def step_woken_def step_put_def step_log_def
  step_next_def step_rps_def step_paused_def step_paused_wait_def step_stop_def step_promise_def

lemma dealt_put:
  assumes "dealt n nx h" "0 < n"
  shows "dealt_one_more n nx (h(nx := h nx @ [SEND_REQUEST]))"
proof -
  obtain k where k: "balanced n k h" "nx = k mod n" "no_stop n h"
    using assms(1) by (auto simp: dealt_def)
  with balanced_deal [OF k(1) assms(2)] show ?thesis
    unfolding dealt_one_more_def by (auto simp: no_stop_append intro!: exI [of _ k])
qed

lemma dealt_advance:
  assumes "dealt_one_more n nx h"
  shows "dealt n ((nx + 1) mod n) h"
proof -
  obtain k where k: "balanced n (k + 1) h" "nx = k mod n" "no_stop n h"
    using assms by (auto simp: dealt_one_more_def)
  then have "(nx + 1) mod n = (k + 1) mod n" by (simp add: mod_simps)
  with k show ?thesis unfolding dealt_def by metis
qed

lemma loop_step_wf:
  assumes "loop_step E (pc, l, s) = Inr (pc', l', s')" "sched_wf s"
  shows "sched_wf s'" "length (sch_queues s') = length (sch_queues s)"
    "sch_state s' = sch_state s" "sch_thread s' = sch_thread s"
    "sch_future_retrieved s' = sch_future_retrieved s"
proof -
  have "sched_wf s' \<and> length (sch_queues s') = length (sch_queues s) \<and> sch_state s' = sch_state s \<and>
      sch_thread s' = sch_thread s \<and> sch_future_retrieved s' = sch_future_retrieved s"
  proof (cases pc)
    case Loop_next
    have "unat (if unat (sch_next s + 1) = length (sch_queues s) then 0 else sch_next s + 1) =
        (unat (sch_next s) + 1) mod length (sch_queues s)"
      using assms(2) by (intro unat_next_wrap) (simp_all add: sched_wf_def)
    moreover have "\<dots> < length (sch_queues s)"
      using assms(2) by (auto simp: sched_wf_def intro: mod_less_divisor)
    ultimately show ?thesis using assms Loop_next by (auto simp: step_next_def sched_wf_def Let_def)
  qed (use assms in \<open>auto simp: loop_step_defs sched_wf_def Let_def res_bind_eq_Inr split: if_splits\<close>)
  then show "sched_wf s'" "length (sch_queues s') = length (sch_queues s)"
    "sch_state s' = sch_state s" "sch_thread s' = sch_thread s"
    "sch_future_retrieved s' = sch_future_retrieved s" by auto
qed

lemma loop_step_queues:
  assumes "loop_step E (pc, l, s) = Inr (pc', l', s')"
  shows "sch_queues s' = (case thread_put E pc s of None \<Rightarrow> sch_queues s
    | Some (i, e) \<Rightarrow> (sch_queues s)[i := q_putMessage (env_queue E) e (sch_queues s ! i)])"
  using assms
  by (cases pc) (auto simp: loop_step_defs Let_def res_bind_eq_Inr message_worker_queues split: if_splits)

lemma loop_step_promise:
  assumes "loop_step E (pc, l, s) = Inr (pc', l', s')" "sch_promise_fulfilled s \<longleftrightarrow> pc = Loop_exit"
  shows "sch_promise_fulfilled s' \<longleftrightarrow> pc' = Loop_exit"
  using assms by (cases pc) (auto simp: loop_step_defs Let_def res_bind_eq_Inr split: if_splits)

lemma loop_step_phase:
  assumes step: "loop_step E (pc, l, s) = Inr (pc', l', s')" and wf: "sched_wf s"
    and inv: "phase_inv pc (length (sch_queues s)) (unat (sch_next s)) h"
  shows "phase_inv pc' (length (sch_queues s)) (unat (sch_next s')) (extend_history (thread_put E pc s) h)"
proof -
  let ?n = "length (sch_queues s)"
  have n: "0 < ?n" using wf by (auto simp: sched_wf_def)
  show ?thesis
  proof (cases pc)
    case (Loop_reset i)
    then show ?thesis
      using step inv by (auto simp: step_reset_def no_stop_append balanced_zero less_Suc_eq split: if_splits)
  next
    case Loop_init
    have "dealt ?n 0 h" using inv Loop_init by (auto simp: dealt_def intro: exI [of _ 0])
    then show ?thesis using step Loop_init by (auto simp: step_init_def Let_def res_bind_eq_Inr)
  next
    case Loop_put
    then show ?thesis using step inv dealt_put [OF _ n] by (auto simp: step_put_def res_bind_eq_Inr)
  next
    case Loop_next
    have "unat (sch_next s') = (unat (sch_next s) + 1) mod ?n"
      using step wf Loop_next unat_next_wrap [of "sch_next s" ?n]
      by (auto simp: step_next_def Let_def sched_wf_def split: if_splits)
    then show ?thesis using step inv Loop_next dealt_advance by (auto simp: step_next_def Let_def)
  next
    case Loop_test
    then show ?thesis using step inv by (auto simp: dealt_def no_stop_def split: if_splits)
  next
    case (Loop_stop i)
    then show ?thesis
      using step inv by (auto simp: step_stop_def stopped_once_first less_Suc_eq split: if_splits)
  qed (use step inv in \<open>auto simp: loop_step_defs Let_def res_bind_eq_Inr split: if_splits\<close>)
qed

section \<open>The invariant of the system\<close>

definition sys_pc :: "('q, 'd) sched_sys \<Rightarrow> loop_pc" where
  "sys_pc x = (case sys_thread x of None \<Rightarrow> Loop_reset 0 | Some (pc, l) \<Rightarrow> pc)"

definition sched_inv :: "('q, 'd) sched_sys \<Rightarrow> bool" where
  "sched_inv x \<longleftrightarrow>
     sched_wf (sys_sched x) \<and>
     length (sys_put x) = length (sch_queues (sys_sched x)) \<and>
     length (sys_delivered x) = length (sch_queues (sys_sched x)) \<and>
     (\<forall>(e, i) \<in> set (sys_pending x). control (getEventType e)) \<and>
     phase_inv (sys_pc x) (length (sch_queues (sys_sched x))) (unat (sch_next (sys_sched x))) (history x) \<and>
     (sch_promise_fulfilled (sys_sched x) \<longleftrightarrow> sys_pc x = Loop_exit)"

lemma length_append_at [simp]: "length (append_at i y xss) = length xss"
  by (simp add: append_at_def)

lemma length_record_put [simp]: "length (record_put p hs) = length hs"
  by (simp add: record_put_def split: option.splits prod.splits)

lemma append_at_nth: "i < length xss \<Longrightarrow> append_at i y xss ! j = (if j = i then xss ! i @ [y] else xss ! j)"
  by (simp add: append_at_def)

lemma history_append_at:
  "i < length (sys_put x) \<Longrightarrow> sys_put y = append_at i e (sys_put x) \<Longrightarrow>
     history y = (history x)(i := history x i @ [getEventType e])"
  by (rule ext) (simp add: history_def append_at_nth)

lemma thread_put_index: "thread_put E pc s = Some (i, e) \<Longrightarrow> sched_wf s \<Longrightarrow> i < length (sch_queues s)"
  by (cases pc) (auto simp: sched_wf_def split: if_splits)

lemma history_record_put:
  assumes "sys_put y = record_put p (sys_put x)" "\<And>i e. p = Some (i, e) \<Longrightarrow> i < length (sys_put x)"
  shows "history y = extend_history p (history x)"
proof (cases p)
  case None
  then show ?thesis using assms by (simp add: record_put_def history_def [abs_def])
next
  case (Some a)
  then show ?thesis
    using assms by (cases a) (simp add: record_put_def history_append_at)
qed

lemma sched_inv_init: "sched_init F E x \<Longrightarrow> sched_inv x"
proof -
  assume "sched_init F E x"
  then obtain rps n m threshold where n: "0 < n" and x: "x = \<lparr>
     sys_thread = None, sys_sched = Scheduler4 F (env_queue E) rps n m threshold,
     sys_pending = [], sys_put = replicate (unat n) [], sys_delivered = replicate (unat n) []\<rparr>"
    by (auto simp: sched_init_def)
  have "0 < unat n" "unat n < 4294967296"
    using n unsigned_less [of n] by (simp_all add: unat_gt_0)
  then show ?thesis
    by (simp add: x sched_inv_def sched_wf_def Scheduler4_def sys_pc_def history_def no_stop_def)
qed

text \<open>
  The operations that other threads call change the state, the rate or the limit, or add a
  broadcast: none of it is in the invariant.
\<close>

definition same_frame :: "'q scheduler \<Rightarrow> 'q scheduler \<Rightarrow> bool" where
  "same_frame s s' \<longleftrightarrow> sch_queues s' = sch_queues s \<and> sch_logged s' = sch_logged s \<and>
     sch_next s' = sch_next s \<and> sch_promise_fulfilled s' = sch_promise_fulfilled s"

lemma same_frame_ops:
  "same_frame s (pause s)" "same_frame s (snd (resume s))" "same_frame s (stop s)"
  "same_frame s (setRps rps s)" "same_frame s (s\<lparr>sch_max_outstanding_requests := m\<rparr>)"
  "join s = Inr s' \<Longrightarrow> same_frame s s'" "run s = Inr s' \<Longrightarrow> same_frame s s'"
  by (auto simp: same_frame_def pause_def resume_def stop_def setRps_def join_def run_def
      compare_exchange_strong_def Let_def split: if_splits thread_handle.splits)

lemma sched_inv_frame:
  assumes "sched_inv x" "same_frame (sys_sched x) (sys_sched y)" "sys_pc y = sys_pc x"
    "sys_put y = sys_put x" "sys_delivered y = sys_delivered x"
    "\<forall>(e, i) \<in> set (sys_pending y). control (getEventType e)"
  shows "sched_inv y"
proof -
  have "history y = history x" using assms(4) by (simp add: history_def [abs_def])
  then show ?thesis using assms by (simp add: sched_inv_def same_frame_def sched_wf_def)
qed

lemma sched_inv_call:
  "sched_inv x \<Longrightarrow> same_frame (sys_sched x) s' \<Longrightarrow> sched_inv (x\<lparr>sys_sched := s'\<rparr>)"
  by (rule sched_inv_frame) (auto simp: sys_pc_def sched_inv_def)

lemma sched_inv_step:
  assumes inv: "sched_inv x" and step: "sched_step F E x y"
  shows "sched_inv y"
  using step
proof cases
  case (run_call s')
  then show ?thesis using inv by (intro sched_inv_frame [OF inv])
      (auto simp: same_frame_ops sys_pc_def sched_inv_def)
next
  case (thread pc l pc' l' s')
  have wf: "sched_wf (sys_sched x)" and ph: "phase_inv pc (length (sch_queues (sys_sched x)))
      (unat (sch_next (sys_sched x))) (history x)"
    and pr: "sch_promise_fulfilled (sys_sched x) \<longleftrightarrow> pc = Loop_exit"
    using inv thread(2) by (auto simp: sched_inv_def sys_pc_def)
  have "history y = extend_history (thread_put E pc (sys_sched x)) (history x)"
    using thread(1) inv thread_put_index [OF _ wf]
    by (intro history_record_put) (auto simp: sched_inv_def)
  then show ?thesis
    using inv thread(1) loop_step_wf [OF thread(3) wf] loop_step_promise [OF thread(3) pr]
      loop_step_phase [OF thread(3) wf ph]
    by (simp add: sched_inv_def sys_pc_def)
next
  case (broadcast us e i vs)
  have i: "i < length (sys_put x)" and e: "control (getEventType e)"
    using inv broadcast by (auto simp: sched_inv_def)
  have "history y = (history x)(i := history x i @ [getEventType e])"
    using i broadcast(1) by (intro history_append_at) simp_all
  then show ?thesis
    using inv broadcast phase_inv_control [OF e]
    by (auto simp: sched_inv_def sys_pc_def sched_wf_def)
next
  case (consume i e q')
  have "history y = history x" using consume(1) by (simp add: history_def [abs_def])
  then show ?thesis using inv consume by (simp add: sched_inv_def sys_pc_def sched_wf_def)
next
  case (join_call l s')
  then show ?thesis using sched_inv_call [OF inv] by (simp add: same_frame_ops)
next
  case (setMax_call m)
  show ?thesis unfolding setMax_call
    by (rule sched_inv_frame [OF inv])
      (use inv in \<open>auto simp: same_frame_def sys_pc_def sched_inv_def control_def\<close>)
next
  case (setPhase_call phase)
  show ?thesis unfolding setPhase_call(1)
    by (rule sched_inv_frame [OF inv])
      (use inv in \<open>auto simp: same_frame_def sys_pc_def sched_inv_def control_def\<close>)
next
  case (broadcast_end us e i vs)
  show ?thesis unfolding broadcast_end(1)
    by (rule sched_inv_frame [OF inv])
      (use inv broadcast_end in \<open>auto simp: same_frame_def sys_pc_def sched_inv_def\<close>)
qed (simp_all add: sched_inv_call [OF inv] same_frame_ops)

interpretation sched: step_invariant "sched_init F E" "sched_step F E" sched_inv for F E
  by unfold_locales (auto intro: sched_inv_init sched_inv_step)

section \<open>Queue contents\<close>

text \<open>
  Under the contract of the queue, what a worker has taken followed by what is still waiting is
  exactly what was put, in order.
\<close>

definition histories_agree :: "('q \<Rightarrow> 'd event list) \<Rightarrow> ('q, 'd) sched_sys \<Rightarrow> bool" where
  "histories_agree msgs x \<longleftrightarrow>
     (\<forall>i < length (sch_queues (sys_sched x)).
        sys_put x ! i = sys_delivered x ! i @ msgs (sch_queues (sys_sched x) ! i))"

locale event_queue = notification_queue Q msgs
  for Q :: "('q, 'd event) queue_ops" and msgs :: "'q \<Rightarrow> 'd event list"
begin

lemma histories_agree_put:
  assumes "histories_agree msgs x" "i < length (sch_queues (sys_sched x))"
    "length (sys_put x) = length (sch_queues (sys_sched x))"
    "sch_queues (sys_sched y) = (sch_queues (sys_sched x))[i := q_putMessage Q e (sch_queues (sys_sched x) ! i)]"
    "sys_put y = append_at i e (sys_put x)" "sys_delivered y = sys_delivered x"
  shows "histories_agree msgs y"
  using assms by (auto simp: histories_agree_def append_at_nth nth_list_update msgs_put)

lemma histories_agree_step:
  assumes "sched_inv x" "histories_agree msgs x" "sched_step F E x y" "env_queue E = Q"
  shows "histories_agree msgs y"
  using assms(3)
proof cases
  case (thread pc l pc' l' s')
  have wf: "sched_wf (sys_sched x)" using assms(1) by (simp add: sched_inv_def)
  show ?thesis
  proof (cases "thread_put E pc (sys_sched x)")
    case None
    then show ?thesis using assms(2) thread loop_step_queues [OF thread(3)]
      by (simp add: histories_agree_def record_put_def)
  next
    case (Some p)
    obtain i e where p: "p = (i, e)" by force
    have i: "i < length (sch_queues (sys_sched x))" using Some p thread_put_index [OF _ wf] by simp
    have len: "length (sys_put x) = length (sch_queues (sys_sched x))"
      using assms(1) by (simp add: sched_inv_def)
    have "sch_queues (sys_sched y) =
        (sch_queues (sys_sched x))[i := q_putMessage Q e (sch_queues (sys_sched x) ! i)]"
      using loop_step_queues [OF thread(3)] by (simp add: thread(1) Some p assms(4))
    then show ?thesis
      by (rule histories_agree_put [OF assms(2) i len]) (simp_all add: thread(1) Some p record_put_def)
  qed
next
  case (broadcast us e i vs)
  have len: "length (sys_put x) = length (sch_queues (sys_sched x))"
    using assms(1) by (simp add: sched_inv_def)
  show ?thesis
    by (rule histories_agree_put [OF assms(2) broadcast(3) len, of _ e])
      (simp_all add: broadcast(1) message_worker_queues assms(4))
next
  case (consume i e q')
  have "msgs (sch_queues (sys_sched x) ! i) = e # msgs q'"
    using consume(3) unfolding assms(4) by (rule consume_Some)
  then show ?thesis
    using assms(1,2) consume(1,2)
    by (simp add: histories_agree_def append_at_nth nth_list_update sched_inv_def)
next
  case (run_call s')
  then show ?thesis using assms(2) same_frame_ops(7) [of _ s']
    by (simp add: histories_agree_def same_frame_def)
next
  case (join_call l s')
  then show ?thesis using assms(2) same_frame_ops(6) [of _ s']
    by (simp add: histories_agree_def same_frame_def)
qed (use assms(2) same_frame_ops(1-4) [of "sys_sched x"] in
    \<open>simp_all add: histories_agree_def same_frame_def\<close>)

lemma histories_agree_init: "sched_init F E x \<Longrightarrow> env_queue E = Q \<Longrightarrow> histories_agree msgs x"
  using msgs_new by (auto simp: sched_init_def histories_agree_def Scheduler4_def)

lemma histories_agree_reachable:
  assumes "sched_init F E x" "(sched_step F E)\<^sup>*\<^sup>* x y" "env_queue E = Q"
  shows "histories_agree msgs y"
  using assms(2)
proof (induction rule: rtranclp_induct)
  case base
  then show ?case using histories_agree_init assms by blast
next
  case (step y z)
  then show ?case
    using histories_agree_step [OF sched.reachable_inv [OF assms(1) step.hyps(1)]] assms(3) by blast
qed

end

interpretation leq: event_queue list_queue "\<lambda>q. q"
  by unfold_locales

section \<open>Runs of the thread inside the system\<close>

lemma sched_steps_of_loop_steps:
  assumes "loop_steps E k (pc, l, s) = Inr (pc', l', s')" "sys_thread x = Some (pc, l)" "sys_sched x = s"
  shows "\<exists>y. (sched_step F E)\<^sup>*\<^sup>* x y \<and> sys_thread y = Some (pc', l') \<and> sys_sched y = s'"
  using assms
proof (induction k arbitrary: pc l s x)
  case 0
  then show ?case by auto
next
  case (Suc k)
  then obtain pc1 l1 s1 where one: "loop_step E (pc, l, sys_sched x) = Inr (pc1, l1, s1)"
    and rest: "loop_steps E k (pc1, l1, s1) = Inr (pc', l', s')"
    by (auto simp: res_bind_eq_Inr)
  let ?x = "x\<lparr>sys_thread := Some (pc1, l1), sys_sched := s1,
      sys_put := record_put (thread_put E pc (sys_sched x)) (sys_put x)\<rparr>"
  have "sched_step F E x ?x" by (rule sched_step.thread [OF Suc.prems(2) one])
  moreover obtain y where "(sched_step F E)\<^sup>*\<^sup>* ?x y" "sys_thread y = Some (pc', l')" "sys_sched y = s'"
    using Suc.IH [of pc1 l1 s1 ?x] rest by auto
  ultimately show ?case by (auto intro: converse_rtranclp_into_rtranclp)
qed

text \<open>The start of the thread: a RESET for every worker, the first interval and the first draw.\<close>

lemma loop_steps_startup:
  assumes rps: "1 \<le> getRps s" and env: "log_contract (env_log E)" "unit_draw (env_draw E (lp_draws l))"
  shows "\<exists>l'. loop_steps E (length (sch_queues s) + 2) (Loop_reset 0, l, s) =
    Inr (Loop_while, l', (messageAllWorkers (env_queue E) (Event_of (env_dynamic E) RESET) s)\<lparr>sch_next := 0\<rparr>)"
proof -
  let ?n = "length (sch_queues s)"
  let ?s = "messageAllWorkers (env_queue E) (Event_of (env_dynamic E) RESET) s"
  have "1 \<le> getRps ?s" using rps by (simp add: getRps_def)
  from loop_step_init [OF this env]
  obtain l' where init: "loop_step E (Loop_init, l, ?s) = Inr (Loop_while, l', ?s\<lparr>sch_next := 0\<rparr>)" ..
  have "loop_steps E 2 (Loop_reset ?n, l, ?s) = Inr (Loop_while, l', ?s\<lparr>sch_next := 0\<rparr>)"
    unfolding numeral_2_eq_2 loop_steps.simps using init by (simp add: step_reset_def)
  then show ?thesis unfolding loop_steps_add loop_steps_reset by auto
qed

section \<open>A run for the concrete instances\<close>

definition idle_env :: "(dynamic_value event list, dynamic_value) sched_env" where
  "idle_env = list_env (\<lambda>_. None) (\<lambda>_. Fin 1) (\<lambda>_. Fin 0)"

definition fresh_sys :: "(dynamic_value event list, dynamic_value) sched_sys" where
  "fresh_sys = \<lparr>sys_thread = None, sys_sched = Scheduler4 default_flags list_queue 1024 2 1000 500,
     sys_pending = [], sys_put = [[], []], sys_delivered = [[], []]\<rparr>"

lemma idle_env_contracts:
  "log_contract (env_log idle_env)" "unit_draw (env_draw idle_env t)" "env_queue idle_env = list_queue"
  by (simp_all add: idle_env_def log_contract_def unit_draw_def)

lemma fresh_sys_init: "sched_init default_flags idle_env fresh_sys"
  unfolding sched_init_def
  by (rule exI [of _ 1024], rule exI [of _ 2], rule exI [of _ 1000], rule exI [of _ 500])
    (simp add: fresh_sys_def idle_env_contracts)

lemma fresh_sys_started:
  "\<exists>l y. (sched_step default_flags idle_env)\<^sup>*\<^sup>* fresh_sys y \<and> sys_thread y = Some (Loop_while, l) \<and>
     length (sch_queues (sys_sched y)) = 2 \<and> sch_state (sys_sched y) = RUNNING \<and>
     \<not> sch_promise_fulfilled (sys_sched y)"
proof -
  let ?s = "(sys_sched fresh_sys)\<lparr>sch_thread := Joinable, sch_future_retrieved := True\<rparr>"
  let ?x = "fresh_sys\<lparr>sys_thread := Some (Loop_reset 0, initial_locals), sys_sched := ?s\<rparr>"
  have step: "sched_step default_flags idle_env fresh_sys ?x"
    by (rule sched_step.run_call) (simp_all add: fresh_sys_def run_def Scheduler4_def)
  let ?t = "(messageAllWorkers (env_queue idle_env) (Event_of (env_dynamic idle_env) RESET) ?s)\<lparr>sch_next := 0\<rparr>"
  have "1 \<le> getRps ?s"
    by (simp add: fresh_sys_def getRps_def Scheduler4_def uint32_to_int32_def int_range)
  from loop_steps_startup [OF this idle_env_contracts(1,2), of initial_locals]
  obtain l where "loop_steps idle_env (length (sch_queues ?s) + 2) (Loop_reset 0, initial_locals, ?s) =
      Inr (Loop_while, l, ?t)" ..
  from sched_steps_of_loop_steps [OF this, of ?x default_flags]
  obtain y where y: "(sched_step default_flags idle_env)\<^sup>*\<^sup>* ?x y"
    "sys_thread y = Some (Loop_while, l)" "sys_sched y = ?t" by auto
  then have "(sched_step default_flags idle_env)\<^sup>*\<^sup>* fresh_sys y"
    using step by (blast intro: converse_rtranclp_into_rtranclp)
  moreover have "length (sch_queues ?t) = 2" "sch_state ?t = RUNNING" "\<not> sch_promise_fulfilled ?t"
    by (simp_all add: fresh_sys_def messageAllWorkers_eq Scheduler4_def initial_run_state_def)
  ultimately show ?thesis using y(2,3) by metis
qed

lemma fresh_sys_stopped:
  "\<exists>y. (sched_step default_flags idle_env)\<^sup>*\<^sup>* fresh_sys y \<and>
     length (sch_queues (sys_sched y)) = 2 \<and> sch_promise_fulfilled (sys_sched y)"
proof -
  obtain l y where y: "(sched_step default_flags idle_env)\<^sup>*\<^sup>* fresh_sys y"
    "sys_thread y = Some (Loop_while, l)" "length (sch_queues (sys_sched y)) = 2"
    "\<not> sch_promise_fulfilled (sys_sched y)"
    using fresh_sys_started by blast
  let ?y = "y\<lparr>sys_sched := stop (sys_sched y)\<rparr>"
  have step: "sched_step default_flags idle_env y ?y" by (rule sched_step.stop_call)
  have "sch_state (sys_sched ?y) = STOPPING" "\<not> sch_promise_fulfilled (sys_sched ?y)"
    "length (sch_queues (sys_sched ?y)) = 2" "sys_thread ?y = Some (Loop_while, l)"
    using y by (simp_all add: stop_def)
  then obtain z where "(sched_step default_flags idle_env)\<^sup>*\<^sup>* ?y z" "sch_promise_fulfilled (sys_sched z)"
    "length (sch_queues (sys_sched z)) = 2"
    using sched_steps_of_loop_steps [OF loop_steps_shutdown, where x = ?y and s = "sys_sched ?y" and l = l
        and E = idle_env and F = default_flags]
    by (auto simp: messageAllWorkers_eq)
  then show ?thesis using y(1) step by (meson rtranclp.rtrancl_into_rtrancl rtranclp_trans)
qed

section \<open>Properties\<close>

text \<open>The loop is between two requests or preparing one: no request is half dealt.\<close>

fun sending :: "loop_pc \<Rightarrow> bool" where
  "sending Loop_while = True"
| "sending Loop_body = True"
| "sending (Loop_wait start ns) = True"
| "sending Loop_woken = True"
| "sending Loop_put = True"
| "sending Loop_rps = True"
| "sending _ = False"

lemma phase_inv_sending: "sending pc \<Longrightarrow> phase_inv pc n nx h = dealt n nx h"
  by (cases pc) simp_all

lemma deal_difference:
  fixes i j k n :: nat
  assumes "i < n" "j < n"
  shows "(k + n - 1 - i) div n \<le> (k + n - 1 - j) div n + 1"
proof -
  have "(k + n - 1 - i) div n \<le> (k + n - 1 - j + n) div n" using assms by (intro div_le_mono) simp
  also have "\<dots> = (k + n - 1 - j) div n + 1" using assms by (intro div_add_self2) simp
  finally show ?thesis .
qed

lemma state_step_stopping:
  "sched_step F E x y \<Longrightarrow> sch_state (sys_sched x) = STOPPING \<Longrightarrow> sch_state (sys_sched y) = STOPPING"
proof (induction rule: sched_step.induct)
  case (thread x pc l pc' l' s')
  then show ?case
    by (cases pc) (auto simp: loop_step_defs Let_def res_bind_eq_Inr split: if_splits)
qed (auto simp: pause_def resume_def stop_def setRps_def join_def run_def compare_exchange_strong_def
    Let_def split: if_splits thread_handle.splits)

text \<open>
  C4. Round robin under interleaving. In every reachable state of the system (the loop thread, any
  calls by other threads, workers consuming) in which the loop is in its sending phase, some number
  \<open>k\<close> of requests has been dealt since the last RESET, the next worker is \<open>k mod n\<close>, worker \<open>i\<close> has
  received exactly \<open>(k + n - 1 - i) div n\<close> of them, so any two workers differ by at most one, and no
  queue has seen a STOP.
\<close>

theorem scheduler_round_robin:
  assumes "sched_init F E x" "(sched_step F E)\<^sup>*\<^sup>* x y" "sys_thread y = Some (pc, l)" "sending pc"
  shows "\<exists>k. unat (sch_next (sys_sched y)) = k mod length (sch_queues (sys_sched y)) \<and>
    (\<forall>i < length (sch_queues (sys_sched y)).
       sends (history y i) = (k + length (sch_queues (sys_sched y)) - 1 - i) div length (sch_queues (sys_sched y)) \<and>
       STOP \<notin> set (history y i) \<and>
       (\<forall>j < length (sch_queues (sys_sched y)). sends (history y i) \<le> sends (history y j) + 1))"
proof -
  have "sched_inv y" by (rule sched.reachable_inv [OF assms(1,2)])
  then have "dealt (length (sch_queues (sys_sched y))) (unat (sch_next (sys_sched y))) (history y)"
    using assms(3,4) by (simp add: sched_inv_def sys_pc_def phase_inv_sending)
  then show ?thesis
    unfolding dealt_def balanced_def no_stop_def using deal_difference by auto
qed

theorem scheduler_round_robin_witness:
  "\<exists>y k. (sched_step default_flags idle_env)\<^sup>*\<^sup>* fresh_sys y \<and>
     unat (sch_next (sys_sched y)) = k mod 2 \<and> sends (history y 0) = (k + 1) div 2 \<and>
     sends (history y 1) = k div 2"
proof -
  obtain l y where y: "(sched_step default_flags idle_env)\<^sup>*\<^sup>* fresh_sys y"
    "sys_thread y = Some (Loop_while, l)" "length (sch_queues (sys_sched y)) = 2"
    using fresh_sys_started by blast
  show ?thesis
    using scheduler_round_robin [OF fresh_sys_init y(1,2)] y by (auto 4 4)
qed

text \<open>
  C18. STOP reaches every worker exactly once. In every reachable state in which the promise of the
  scheduler is fulfilled (the future that \<open>run\<close> returned is ready), the history of every queue
  contains exactly one STOP, and after it only SET_PHASE and SET_MAX_OUTSTANDING messages of other
  threads: no request and no RESET follows a STOP.
\<close>

theorem scheduler_stop_once:
  assumes "sched_init F E x" "(sched_step F E)\<^sup>*\<^sup>* x y" "sch_promise_fulfilled (sys_sched y)"
    "i < length (sch_queues (sys_sched y))"
  shows "\<exists>us vs. history y i = us @ STOP # vs \<and> STOP \<notin> set us \<and>
    set vs \<subseteq> {SET_PHASE, SET_MAX_OUTSTANDING}"
proof -
  have "sched_inv y" by (rule sched.reachable_inv [OF assms(1,2)])
  then have "phase_inv Loop_exit (length (sch_queues (sys_sched y))) (unat (sch_next (sys_sched y))) (history y)"
    using assms(3) by (auto simp: sched_inv_def)
  then show ?thesis
    using assms(4) by (fastforce simp: stopped_once_def list_all_iff control_def)
qed

theorem scheduler_stop_once_witness:
  "\<exists>y. (sched_step default_flags idle_env)\<^sup>*\<^sup>* fresh_sys y \<and>
     (\<exists>us vs. history y 1 = us @ STOP # vs \<and> STOP \<notin> set us \<and> set vs \<subseteq> {SET_PHASE, SET_MAX_OUTSTANDING})"
proof -
  obtain y where y: "(sched_step default_flags idle_env)\<^sup>*\<^sup>* fresh_sys y"
    "length (sch_queues (sys_sched y)) = 2" "sch_promise_fulfilled (sys_sched y)"
    using fresh_sys_stopped by blast
  show ?thesis using scheduler_stop_once [OF fresh_sys_init y(1,3), of 1] y by auto
qed



text \<open>
  STOPPING is final: whatever the threads do after a \<open>stop()\<close> (pause and resume included), the
  scheduler's state stays STOPPING in every state the system reaches.
\<close>

lemma scheduler_stopping_final:
  assumes "(sched_step F E)\<^sup>*\<^sup>* (x\<lparr>sys_sched := stop (sys_sched x)\<rparr>) y"
  shows "sch_state (sys_sched y) = STOPPING"
  using assms
proof (induction rule: rtranclp_induct)
  case base
  then show ?case by (simp add: stop_def)
next
  case (step y z)
  then show ?case by (blast intro: state_step_stopping)
qed

end
