(* ===== verification/Runner.thy ===== *)
theory Runner
  imports Worker_Properties FB303 Scheduler_System
begin

text \<open>
  \<open>Treadmill.h\<close> and the main programs: the runner that builds the scheduler and the workers, lets them run, and shuts them
  down in order. The record \<open>runner\<close> has the members of \<open>TreadmillRunner\<close>; \<open>process\<close> adds what
  \<open>run\<close> reaches through globals: the statistics manager, the fb303 instance, the files and the log.

  While the main thread waits or sleeps the other threads go on. \<open>background_step\<close> is one step of one
  of them, made of the models of those threads; what they did during a wait is a function in the
  environment \<open>runner_env\<close>, of which the properties only assume that it is a sequence of such steps.
  Folly's \<open>split\<close>, \<open>to\<close> and JSON are fields of the environment too.
\<close>

section \<open>Construction\<close>

record ('q, 'w, 'r, 'j) runner =
  rn_workers :: "('w, 'r) worker list"
  rn_scheduler :: "'q scheduler"
  rn_max_outstanding_requests_per_worker :: int32
  rn_config :: 'j
  rn_cpu_affinity_list :: "int32 list"
  rn_rps :: double

record ('q, 'w, 'r, 'j, 'h, 'm, 's) process = "('q, 'w, 'r, 'j) runner" +
  pr_statistics :: "('h, 'm) statistics_manager"
  pr_fb303 :: "'s treadmill_fb303 option"
  pr_server_thread :: thread_handle
  pr_files :: file_system
  pr_log :: "string list"

text \<open>\<open>a / b\<close> on \<open>int\<close>: truncation toward zero, undefined for a zero divisor and for an overflow.\<close>

definition int32_div :: "int32 \<Rightarrow> int32 \<Rightarrow> int32 res" where
  "int32_div a b = (if b = 0 then Inl (Undefined Division_by_zero)
     else check_int32 (if (0 \<le> a) = (0 < b) then \<bar>a\<bar> div \<bar>b\<bar> else - (\<bar>a\<bar> div \<bar>b\<bar>)))"

definition TreadmillRunner ::
  "flags \<Rightarrow> ('q, 'd event) queue_ops \<Rightarrow> 'j \<Rightarrow> ('q, 'w, 'r, 'j) runner res" where
  "TreadmillRunner F Q empty_object =
     res_bind (int32_div (FLAGS_max_outstanding_requests F) (FLAGS_number_of_workers F)) (\<lambda>per_worker.
       let s = Scheduler4 F Q (int32_to_uint32 (FLAGS_request_per_second F))
                 (int32_to_uint32 (FLAGS_number_of_workers F))
                 (int32_to_uint32 (FLAGS_max_outstanding_requests F)) (int32_to_uint32 per_worker)
       in if FLAGS_number_of_workers F < 0 then Inl (Thrown ''std::length_error'')
          else Inr \<lparr>
            rn_workers = [],
            rn_scheduler = s,
            rn_max_outstanding_requests_per_worker = per_worker,
            rn_config = empty_object,
            rn_cpu_affinity_list = replicate (nat (FLAGS_number_of_workers F)) (-1),
            rn_rps = double_of_int (FLAGS_request_per_second F) / double_of_int (FLAGS_number_of_workers F)\<rparr>)"

section \<open>Before the test\<close>

text \<open>The configuration: the file's, updated with the one given on the command line.\<close>

definition load_config ::
  "flags \<Rightarrow> (string \<Rightarrow> bool) \<Rightarrow> (string \<Rightarrow> 'j res) \<Rightarrow> ('j \<Rightarrow> 'j \<Rightarrow> 'j res) \<Rightarrow> file_system \<Rightarrow> 'j \<Rightarrow> 'j res" where
  "load_config F is_readable parseJson update files config =
     res_bind (if FLAGS_config_in_file F \<noteq> []
               then readDynamicFromFile parseJson is_readable (FLAGS_config_in_file F) files
               else Inr config) (\<lambda>config1.
       if FLAGS_config_in_json F \<noteq> []
       then res_bind (parseJson (FLAGS_config_in_json F)) (\<lambda>config2. update config1 config2)
       else Inr config1)"

text \<open>The loop over the affinity list: \<open>i\<close> is the worker, \<open>xs\<close> what is left of the strings.\<close>

primrec set_affinities ::
  "(string \<Rightarrow> int32 res) \<Rightarrow> int32 \<Rightarrow> string list \<Rightarrow> nat \<Rightarrow> int32 list \<Rightarrow> int32 list res" where
  "set_affinities to_int cores [] i affinities = Inr affinities"
| "set_affinities to_int cores (x # xs) i affinities =
     res_bind (to_int x) (\<lambda>cpu_affinity.
       if 0 \<le> cpu_affinity \<and> cpu_affinity < cores
       then set_affinities to_int cores xs (i + 1) (affinities[i := cpu_affinity])
       else Inl (Fatal (''Core '' @ string_of_int cpu_affinity @ '' does not exist'')))"

definition parse_cpu_affinity ::
  "flags \<Rightarrow> (string \<Rightarrow> string list) \<Rightarrow> (string \<Rightarrow> int32 res) \<Rightarrow> uint32 \<Rightarrow> int32 list \<Rightarrow> int32 list res" where
  "parse_cpu_affinity F split_commas to_int hardware_concurrency affinities =
     (if FLAGS_cpu_affinity F \<noteq> []
      then let xs = split_commas (FLAGS_cpu_affinity F)
           in if int (length xs) \<noteq> uint (word_of_int (FLAGS_number_of_workers F) :: uint64)
              then Inl (Fatal (''Length of the CPU affinity list ('' @ string_of_nat (length xs) @
                     '') does not match the number of workers ('' @
                     string_of_int (FLAGS_number_of_workers F) @ '')''))
              else set_affinities to_int (uint32_to_int32 hardware_concurrency) xs 0 affinities
      else Inr affinities)"

text \<open>\<open>for (i ...) workers[i]->f()\<close> for an operation that may fail\<close>

definition each_worker ::
  "(('w, 'r) worker \<Rightarrow> ('w, 'r) worker res) \<Rightarrow> flags \<Rightarrow> ('q, 'w, 'r, 'j, 'z) runner_scheme \<Rightarrow> ('q, 'w, 'r, 'j, 'z) runner_scheme res" where
  "each_worker f F rn =
     res_fold (\<lambda>i r. res_bind (vec_at (rn_workers r) i) (\<lambda>w.
         res_map (\<lambda>w'. r\<lparr>rn_workers := (rn_workers r)[i := w']\<rparr>) (f w)))
       [0..<nat (FLAGS_number_of_workers F)] rn"

section \<open>The test\<close>

text \<open>
  The main thread waits for the first of two futures, the scheduler's and a sleep of \<open>FLAGS_runtime\<close>
  seconds (none if that is not positive). \<open>meanwhile k\<close> is what the other threads do in the \<open>k\<close>-th second, up
  to the fulfilment of the promise if it falls into that second. The result is the number of seconds begun
  and the state.
\<close>

primrec collectAny_wait ::
  "(nat \<Rightarrow> ('q, 'w, 'r, 'j, 'z) runner_scheme \<Rightarrow> ('q, 'w, 'r, 'j, 'z) runner_scheme) \<Rightarrow> nat \<Rightarrow> nat \<Rightarrow>
     ('q, 'w, 'r, 'j, 'z) runner_scheme \<Rightarrow> nat \<times> ('q, 'w, 'r, 'j, 'z) runner_scheme" where
  "collectAny_wait meanwhile 0 k rn = (k, rn)"
| "collectAny_wait meanwhile (Suc n) k rn =
     (if sch_promise_fulfilled (rn_scheduler rn) then (k, rn)
      else collectAny_wait meanwhile n (k + 1) (meanwhile k rn))"

definition wait_for_test ::
  "flags \<Rightarrow> (nat \<Rightarrow> ('q, 'w, 'r, 'j, 'z) runner_scheme \<Rightarrow> ('q, 'w, 'r, 'j, 'z) runner_scheme) \<Rightarrow>
     ('q, 'w, 'r, 'j, 'z) runner_scheme \<Rightarrow> ('q, 'w, 'r, 'j, 'z) runner_scheme" where
  "wait_for_test F meanwhile rn = snd (collectAny_wait meanwhile (nat (FLAGS_runtime F)) 0 rn)"

section \<open>The end of the test\<close>

text \<open>
  The loop that waits for the workers; \<open>meanwhile k\<close> is what the other threads do in the \<open>k\<close>-th
  second. The result is the number of seconds slept, the number of workers found busy in the last
  round, and the state.
\<close>

definition busy :: "('q, 'w, 'r, 'j, 'z) runner_scheme \<Rightarrow> nat" where
  "busy rn = length (filter hasMoreWork (rn_workers rn))"

function shutdown_wait ::
  "(nat \<Rightarrow> ('q, 'w, 'r, 'j, 'z) runner_scheme \<Rightarrow> ('q, 'w, 'r, 'j, 'z) runner_scheme) \<Rightarrow> nat \<Rightarrow> uint64 \<Rightarrow>
     ('q, 'w, 'r, 'j, 'z) runner_scheme \<Rightarrow> nat \<times> nat \<times> ('q, 'w, 'r, 'j, 'z) runner_scheme" where
  "shutdown_wait meanwhile k secondsToWait rn =
     (let remaining = busy rn
      in if 0 < remaining
         then if 0 < secondsToWait - 1
              then shutdown_wait meanwhile (k + 1) (secondsToWait - 1) (meanwhile k rn)
              else (k + 1, remaining, meanwhile k rn)
         else (k, remaining, rn))"
  by pat_completeness auto
termination
proof (relation "measure (\<lambda>(meanwhile, k, n, rn). unat (n - 1))", goal_cases)
  case (2 meanwhile k n rn remaining)
  then have "n - 1 \<noteq> 0" by auto
  from unat_minus_one [OF this] this show ?case
    by (auto simp: unat_gt_0 simp del: diff_diff_add)
qed simp

definition drain_workers ::
  "flags \<Rightarrow> (nat \<Rightarrow> ('q, 'w, 'r, 'j, 'z) runner_scheme \<Rightarrow> ('q, 'w, 'r, 'j, 'z) runner_scheme) \<Rightarrow>
     ('q, 'w, 'r, 'j, 'z) runner_scheme \<Rightarrow> ('q, 'w, 'r, 'j, 'z) runner_scheme" where
  "drain_workers F meanwhile rn =
     (if 0 < FLAGS_worker_shutdown_delay F
      then snd (snd (shutdown_wait meanwhile 0 (word_of_int (FLAGS_worker_shutdown_delay F)) rn)) else rn)"

text \<open>\<open>scheduler->stop(); scheduler->join();\<close>\<close>

definition stop_scheduler :: "('q, 'w, 'r, 'j, 'z) runner_scheme \<Rightarrow> ('q, 'w, 'r, 'j, 'z) runner_scheme res" where
  "stop_scheduler rn =
     res_map (\<lambda>s. rn\<lparr>rn_scheduler := s\<rparr>) (join (stop (rn_scheduler rn)))"

section \<open>The whole run\<close>

record ('q, 'w, 'r, 'd, 'j, 'h, 'm, 's) runner_env =
  re_sched :: "('q, 'd) sched_env"
  re_worker :: "('w, 'r, 'd) worker_env"
  re_map :: "'m insert_map_ops"
  re_histogram :: "'h histogram_ops"
  re_show :: "quantile_estimates \<Rightarrow> string list"
  re_order :: "(string \<rightharpoonup> pointer) \<Rightarrow> (string \<times> pointer) list"
  re_is_readable :: "string \<Rightarrow> bool"
  re_write :: "string \<Rightarrow> string \<Rightarrow> write_outcome"
  re_parseJson :: "string \<Rightarrow> 'j res"
  re_toJson :: "'j \<Rightarrow> string"
  re_update :: "'j \<Rightarrow> 'j \<Rightarrow> 'j res"
  re_split :: "string \<Rightarrow> string list"
  re_to_int :: "string \<Rightarrow> int32 res"
  re_tryTo :: "string \<Rightarrow> uint32 option"
  re_cores :: uint32
  re_make_workload :: "'j \<Rightarrow> 'w"
  re_connect :: "('h, 'm) statistics_manager \<Rightarrow> ('h, 'm) statistics_manager res"
  re_makeConfigOutputs :: "'w list \<Rightarrow> 'w \<Rightarrow> 'j"
  re_ready :: "nat \<Rightarrow> nat \<Rightarrow> bool"
  re_STARTING :: 's
  re_time :: int64
  re_getCounters :: "('q, 'w, 'r, 'j, 'h, 'm, 's) process \<Rightarrow> (string \<times> int64) list"
  re_during_test :: "nat \<Rightarrow> ('q, 'w, 'r, 'j, 'h, 'm, 's) process \<Rightarrow> ('q, 'w, 'r, 'j, 'h, 'm, 's) process"
  re_during_drain :: "nat \<Rightarrow> ('q, 'w, 'r, 'j, 'h, 'm, 's) process \<Rightarrow> ('q, 'w, 'r, 'j, 'h, 'm, 's) process"

text \<open>
  Up to the start of the workers: configuration, affinities, the fb303 server, the workers. The server's
  thread is held by a local variable of \<open>run\<close>, which stops the server and joins the thread at the end.
\<close>

definition start_fb303 ::
  "flags \<Rightarrow> ('q, 'w, 'r, 'd, 'j, 'h, 'm, 's) runner_env \<Rightarrow> ('q, 'w, 'r, 'j, 'h, 'm, 's) process \<Rightarrow>
     ('q, 'w, 'r, 'j, 'h, 'm, 's) process res" where
  "start_fb303 F R p =
     (if 0 < FLAGS_server_port F
      then res_map (\<lambda>fb. p\<lparr>pr_fb303 := fb, pr_server_thread := Joinable\<rparr>) (make_fb303 (re_STARTING R) (re_time R) (pr_fb303 p))
      else Inr p)"

text \<open>
  \<open>initializeWorkers\<close>: worker \<open>i\<close> gets the scheduler's queue \<open>i\<close> and the \<open>i\<close>-th affinity, and its
  constructor makes the connections. \<open>re_make_workload\<close> is the constructor of the service's workload from
  the configuration and \<open>re_connect\<close> that of its connection.
\<close>

definition new_worker ::
  "flags \<Rightarrow> ('q, 'w, 'r, 'd, 'j, 'h, 'm, 's) runner_env \<Rightarrow> nat \<Rightarrow> ('q, 'w, 'r, 'j, 'h, 'm, 's) process \<Rightarrow>
     (('w, 'r) worker \<times> ('q, 'w, 'r, 'j, 'h, 'm, 's) process) res" where
  "new_worker F R i p =
     res_bind (getWorkerQueue (of_nat i) (rn_scheduler p)) (\<lambda>_.
     res_bind (vec_at (rn_cpu_affinity_list p) i) (\<lambda>cpu_affinity.
     res_bind (create_connections (re_connect R) (nat (FLAGS_number_of_connections F)) (pr_statistics p)) (\<lambda>sm.
       Inr (Worker8 False (int i) (FLAGS_number_of_workers F) (FLAGS_number_of_connections F)
              (rn_max_outstanding_requests_per_worker p) (re_make_workload R (rn_config p)) cpu_affinity,
            p\<lparr>pr_statistics := sm\<rparr>))))"

definition initializeWorkers ::
  "flags \<Rightarrow> ('q, 'w, 'r, 'd, 'j, 'h, 'm, 's) runner_env \<Rightarrow> ('q, 'w, 'r, 'j, 'h, 'm, 's) process \<Rightarrow>
     ('q, 'w, 'r, 'j, 'h, 'm, 's) process res" where
  "initializeWorkers F R p =
     res_fold (\<lambda>i p. res_map (\<lambda>(w, p'). p'\<lparr>rn_workers := rn_workers p' @ [w]\<rparr>) (new_worker F R i p))
       [0..<nat (FLAGS_number_of_workers F)] p"

definition prepare ::
  "flags \<Rightarrow> ('q, 'w, 'r, 'd, 'j, 'h, 'm, 's) runner_env \<Rightarrow> ('q, 'w, 'r, 'j, 'h, 'm, 's) process \<Rightarrow>
     ('q, 'w, 'r, 'j, 'h, 'm, 's) process res" where
  "prepare F R p =
     res_bind (load_config F (re_is_readable R) (re_parseJson R) (re_update R) (pr_files p) (rn_config p)) (\<lambda>config.
     res_bind (parse_cpu_affinity F (re_split R) (re_to_int R) (re_cores R) (rn_cpu_affinity_list p)) (\<lambda>affinities.
     res_bind (start_fb303 F R (p\<lparr>rn_config := config, rn_cpu_affinity_list := affinities\<rparr>))
       (initializeWorkers F R)))"

text \<open>Starting a worker may wait for its target; a wait that does not end is \<open>None\<close>.\<close>

primrec start_workers ::
  "flags \<Rightarrow> (nat \<Rightarrow> nat \<Rightarrow> bool) \<Rightarrow> nat list \<Rightarrow> ('q, 'w, 'r, 'j, 'z) runner_scheme \<Rightarrow>
     ('q, 'w, 'r, 'j, 'z) runner_scheme res option" where
  "start_workers F ready [] rn = Some (Inr rn)"
| "start_workers F ready (i # is) rn =
     (case vec_at (rn_workers rn) i of
        Inl e \<Rightarrow> Some (Inl e)
      | Inr w \<Rightarrow> Option.bind (worker_run F ready w) (\<lambda>r. case r of
          Inl e \<Rightarrow> Some (Inl e)
        | Inr w' \<Rightarrow> start_workers F ready is (rn\<lparr>rn_workers := (rn_workers rn)[i := w']\<rparr>)))"

definition print_statistics ::
  "('q, 'w, 'r, 'd, 'j, 'h, 'm, 's) runner_env \<Rightarrow> ('q, 'w, 'r, 'j, 'h, 'm, 's) process \<Rightarrow>
     ('q, 'w, 'r, 'j, 'h, 'm, 's) process res" where
  "print_statistics R p =
     res_map (\<lambda>(out, sm). p\<lparr>pr_log := pr_log p @ out, pr_statistics := sm\<rparr>)
       (print (re_map R) (re_histogram R) (re_show R)
          (re_order R (sm_count_map (pr_statistics p))) (re_order R (sm_histo_map (pr_statistics p)))
          (pr_statistics p))"

text \<open>\<open>makeConfigOutputs\<close> of the worker asks its workload, with the workloads of all workers.\<close>

definition worker_makeConfigOutputs :: "('w list \<Rightarrow> 'w \<Rightarrow> 'j) \<Rightarrow> ('w, 'r) worker list \<Rightarrow> ('w, 'r) worker \<Rightarrow> 'j" where
  "worker_makeConfigOutputs makeConfigOutputs worker_refs w = makeConfigOutputs (map wk_workload worker_refs) (wk_workload w)"

definition save_config ::
  "flags \<Rightarrow> ('q, 'w, 'r, 'd, 'j, 'h, 'm, 's) runner_env \<Rightarrow> ('q, 'w, 'r, 'j, 'h, 'm, 's) process \<Rightarrow>
     ('q, 'w, 'r, 'j, 'h, 'm, 's) process res" where
  "save_config F R p =
     (if FLAGS_config_out_file F \<noteq> []
      then res_bind (vec_at (rn_workers p) 0) (\<lambda>w.
             res_map (\<lambda>fs. p\<lparr>pr_files := fs\<rparr>)
               (writeDynamicToFile (re_toJson R) (re_write R) (FLAGS_config_out_file F)
                  (worker_makeConfigOutputs (re_makeConfigOutputs R) (rn_workers p) w) (pr_files p)))
      else Inr p)"

text \<open>
  The last lines of the log: the counters of fb303, in the order in which its map lists them.
\<close>

definition log_counters ::
  "('q, 'w, 'r, 'd, 'j, 'h, 'm, 's) runner_env \<Rightarrow> ('q, 'w, 'r, 'j, 'h, 'm, 's) process \<Rightarrow>
     ('q, 'w, 'r, 'j, 'h, 'm, 's) process" where
  "log_counters R p =
     p\<lparr>pr_log := pr_log p @ map (\<lambda>(k, v). k @ '': '' @ string_of_int v) (re_getCounters R p) @ [''Complete'']\<rparr>"

definition release_server :: "('q, 'w, 'r, 'j, 'h, 'm, 's) process \<Rightarrow> ('q, 'w, 'r, 'j, 'h, 'm, 's) process" where
  "release_server p =
     (if pr_server_thread p = No_thread then p else p\<lparr>pr_server_thread := Joined\<rparr>)"

definition finish ::
  "flags \<Rightarrow> ('q, 'w, 'r, 'd, 'j, 'h, 'm, 's) runner_env \<Rightarrow> ('q, 'w, 'r, 'j, 'h, 'm, 's) process \<Rightarrow>
     ('q, 'w, 'r, 'j, 'h, 'm, 's) process res" where
  "finish F R p =
     res_bind (stop_scheduler p) (\<lambda>p1.
     res_bind (print_statistics R (drain_workers F (re_during_drain R) p1)) (\<lambda>p2.
     res_bind (each_worker (\<lambda>w. Inr (worker_stop w)) F p2) (\<lambda>p3.
     res_bind (each_worker worker_join F p3) (\<lambda>p4.
     res_map (\<lambda>p5. release_server (log_counters R p5)) (save_config F R p4)))))"

definition runner_run ::
  "flags \<Rightarrow> ('q, 'w, 'r, 'd, 'j, 'h, 'm, 's) runner_env \<Rightarrow> ('q, 'w, 'r, 'j, 'h, 'm, 's) process \<Rightarrow>
     ('q, 'w, 'r, 'j, 'h, 'm, 's) process res option" where
  "runner_run F R p = (case prepare F R p of
     Inl e \<Rightarrow> Some (Inl e)
   | Inr p1 \<Rightarrow> Option.bind (start_workers F (re_ready R) [0..<nat (FLAGS_number_of_workers F)] p1) (\<lambda>r.
       case r of
         Inl e \<Rightarrow> Some (Inl e)
       | Inr p2 \<Rightarrow> Some (res_bind (run (rn_scheduler p2)) (\<lambda>s.
           finish F R (wait_for_test F (re_during_test R) (p2\<lparr>rn_scheduler := s\<rparr>))))))"

text \<open>\<open>run\<close> of the header: \<open>TreadmillRunner runner; runner.run()\<close>, in a fresh process.\<close>

definition fresh_process :: "file_system \<Rightarrow> ('q, 'w, 'r, 'j) runner \<Rightarrow> ('q, 'w, 'r, 'j, 'h, 'm, 's) process" where
  "fresh_process files rn = runner.extend rn (process.fields StatisticsManager None No_thread files [])"

definition run_service ::
  "flags \<Rightarrow> ('q, 'w, 'r, 'd, 'j, 'h, 'm, 's) runner_env \<Rightarrow> 'j \<Rightarrow> file_system \<Rightarrow>
     ('q, 'w, 'r, 'j, 'h, 'm, 's) process res option" where
  "run_service F R empty_object files =
     (case TreadmillRunner F (env_queue (re_sched R)) empty_object of
        Inl e \<Rightarrow> Some (Inl e)
      | Inr rn \<Rightarrow> runner_run F R (fresh_process files rn))"

text \<open>
  The two main programs: \<open>run\<close> for the classes of the service; \<open>resolve\<close> is \<open>nsLookUp\<close>.
\<close>

definition memcached_runner_env ::
  "flags \<Rightarrow> (string \<Rightarrow> string res) \<Rightarrow> 'j \<Rightarrow> ('q, memcached_workload, memcached_request, 'd, 'j, 'h, 'm, 's) runner_env \<Rightarrow>
     ('q, memcached_workload, memcached_request, 'd, 'j, 'h, 'm, 's) runner_env" where
  "memcached_runner_env F resolve empty_object R = R\<lparr>
     re_worker := (re_worker R)\<lparr>we_workload := memcached_ops F\<rparr>,
     re_make_workload := (\<lambda>config. Memcached_Workload),
     re_connect := memcached_connect F resolve,
     re_makeConfigOutputs := memcached_makeConfigOutputs empty_object,
     re_ready := (\<lambda>_ _. memcached_isReady)\<rparr>"

definition memcached_main ::
  "flags \<Rightarrow> (string \<Rightarrow> string res) \<Rightarrow> ('q, memcached_workload, memcached_request, 'd, 'j, 'h, 'm, 's) runner_env \<Rightarrow>
     'j \<Rightarrow> file_system \<Rightarrow> ('q, memcached_workload, memcached_request, 'j, 'h, 'm, 's) process res option" where
  "memcached_main F resolve R empty_object files =
     run_service F (memcached_runner_env F resolve empty_object R) empty_object files"

definition sleep_main_env ::
  "flags \<Rightarrow> (string \<Rightarrow> string res) \<Rightarrow> 'j \<Rightarrow> ('q, workload_base, sleep_request, 'd, 'j, 'h, 'm, 's) runner_env \<Rightarrow>
     ('q, workload_base, sleep_request, 'd, 'j, 'h, 'm, 's) runner_env" where
  "sleep_main_env F resolve empty_object R = R\<lparr>
     re_worker := (re_worker R)\<lparr>we_workload := sleep_ops F\<rparr>,
     re_make_workload := (\<lambda>config. Sleep_Workload),
     re_connect := sleep_connect (re_histogram R) F resolve,
     re_makeConfigOutputs := sleep_makeConfigOutputs empty_object,
     re_ready := (\<lambda>_ _. sleep_isReady)\<rparr>"

definition sleep_main ::
  "flags \<Rightarrow> (string \<Rightarrow> string res) \<Rightarrow> ('q, workload_base, sleep_request, 'd, 'j, 'h, 'm, 's) runner_env \<Rightarrow>
     'j \<Rightarrow> file_system \<Rightarrow> ('q, workload_base, sleep_request, 'j, 'h, 'm, 's) process res option" where
  "sleep_main F resolve R empty_object files =
     run_service F (sleep_main_env F resolve empty_object R) empty_object files"

section \<open>The other threads\<close>

text \<open>
  A worker's thread starts or takes a step; the scheduler's side takes a step of \<open>Scheduler_System\<close> (its
  thread, a worker that terminates early, a call, a broadcast, a message taken from a queue) other than
  \<open>run\<close> and \<open>join\<close>, which are the main thread's; a statistic changes; a remote control call is handled.
\<close>

inductive background_step ::
  "flags \<Rightarrow> ('q, 'w, 'r, 'd, 'j, 'h, 'm, 's) runner_env \<Rightarrow> ('q, 'w, 'r, 'j, 'h, 'm, 's) process \<Rightarrow>
     ('q, 'w, 'r, 'j, 'h, 'm, 's) process \<Rightarrow> bool"
  for F :: flags and R :: "('q, 'w, 'r, 'd, 'j, 'h, 'm, 's) runner_env" where
  worker_starts: "i < length (rn_workers p) \<Longrightarrow>
    senderLoop (re_worker R) (re_histogram R) (re_map R) (rn_workers p ! i) (pr_statistics p) = Inr (w', sm') \<Longrightarrow>
    background_step F R p (p\<lparr>rn_workers := (rn_workers p)[i := w'], pr_statistics := sm'\<rparr>)"
| worker_steps: "i < length (rn_workers p) \<Longrightarrow> worker_step (re_worker R) (rn_workers p ! i) w' \<Longrightarrow>
    background_step F R p (p\<lparr>rn_workers := (rn_workers p)[i := w']\<rparr>)"
| scheduler_side: "sched_step F (re_sched R) y z \<Longrightarrow> sys_sched y = rn_scheduler p \<Longrightarrow>
    sch_thread (sys_sched z) = sch_thread (sys_sched y) \<Longrightarrow>
    background_step F R p (p\<lparr>rn_scheduler := sys_sched z\<rparr>)"
| statistics_change: "length hs = length (sm_histograms (pr_statistics p)) \<Longrightarrow>
    length cs = length (sm_counters (pr_statistics p)) \<Longrightarrow>
    background_step F R p (p\<lparr>pr_statistics := (pr_statistics p)\<lparr>sm_histograms := hs, sm_counters := cs\<rparr>\<rparr>)"
| control_call: "pr_fb303 p = Some fb \<Longrightarrow>
    fb_handle F (env_queue (re_sched R)) (env_dynamic (re_sched R)) (re_tryTo R) c now (fb, rn_scheduler p) = Inr (fb', s') \<Longrightarrow>
    background_step F R p (p\<lparr>pr_fb303 := Some fb', rn_scheduler := s'\<rparr>)"

end
