(* ===== verification/Runner_Properties.thy ===== *)
theory Runner_Properties
  imports Runner Scheduler_System
begin

text \<open>
  What the runner guarantees: how the limits are divided, which affinity lists are accepted, what
  workers exist before the test, how long the shutdown waits, and that a run ends with every thread
  stopped and joined, whatever the other threads do meanwhile.
\<close>

section \<open>What other threads leave alone\<close>

text \<open>The thread handles, which only the main thread touches once it has created them.\<close>

definition handles :: "('q, 'w, 'r, 'j, 'z) runner_scheme \<Rightarrow> thread_handle list \<times> thread_handle" where
  "handles p = (map wk_sender_thread (rn_workers p), sch_thread (rn_scheduler p))"

lemma emit_handle [simp]: "wk_sender_thread (emit x w) = wk_sender_thread w" "wk_consuming (emit x w) = wk_consuming w"
  by (simp_all add: emit_def)

lemma res_fold_invariant:
  assumes "res_fold f xs a = Inr b" "I a" "\<And>x a b. f x a = Inr b \<Longrightarrow> I a \<Longrightarrow> I b"
  shows "I b"
  using assms(1,2) by (induction xs arbitrary: a) (auto simp: res_bind_eq_Inr intro: assms(3))

lemma res_fold_append: "res_fold f (xs @ ys) a = res_bind (res_fold f xs a) (res_fold f ys)"
  by (induction xs arbitrary: a) (simp_all add: res_bind_assoc cong: res_bind_cong)

lemma flush_counts_handle:
  "flush_counts q m w = Inr w' \<Longrightarrow> wk_sender_thread w' = wk_sender_thread w \<and> wk_consuming w' = wk_consuming w"
  unfolding flush_counts_def
  by (rule res_fold_invariant [where I = "\<lambda>x. wk_sender_thread x = wk_sender_thread w \<and> wk_consuming x = wk_consuming w"]) (auto simp: res_map_eq_Inr)

lemma read_clock_handle: "read_clock E w = Inr (t, w') \<Longrightarrow> wk_sender_thread w' = wk_sender_thread w \<and> wk_consuming w' = wk_consuming w"
  by (auto simp: read_clock_def res_map_eq_Inr)

lemma add_value_handle: "add_value q v w = Inr w' \<Longrightarrow> wk_sender_thread w' = wk_sender_thread w \<and> wk_consuming w' = wk_consuming w"
  by (auto simp: add_value_def res_map_eq_Inr)

lemma estimate_throughput_handle:
  "estimate_throughput E w = Inr w' \<Longrightarrow> wk_sender_thread w' = wk_sender_thread w \<and> wk_consuming w' = wk_consuming w"
  by (auto simp: estimate_throughput_def res_bind_eq_Inr Let_def split: if_splits
      dest!: read_clock_handle add_value_handle)

lemma estimate_handle: "estimate E w = Inr w' \<Longrightarrow> wk_sender_thread w' = wk_sender_thread w \<and> wk_consuming w' = wk_consuming w"
  by (auto simp: estimate_def res_bind_eq_Inr setWorkerCounter_def
      dest!: estimate_throughput_handle flush_counts_handle)

lemma send_next_handle: "send_next E w = Inr (b, w') \<Longrightarrow> wk_sender_thread w' = wk_sender_thread w \<and> wk_consuming w' = wk_consuming w"
  by (auto simp: send_next_def res_bind_eq_Inr Let_def split: option.splits if_splits dest!: read_clock_handle)

lemma sendRequest_handle:
  "worker_sendRequest E w = Inr w' \<Longrightarrow> wk_sender_thread w' = wk_sender_thread w \<and> wk_consuming w' = wk_consuming w"
  by (auto simp: worker_sendRequest_def res_bind_eq_Inr split: if_splits dest!: send_next_handle estimate_handle)

lemma reply_handle: "reply E i t w = Inr w' \<Longrightarrow> wk_sender_thread w' = wk_sender_thread w \<and> wk_consuming w' = wk_consuming w"
  by (auto simp: reply_def complete_promise_def setWorkerCounter_def Let_def res_bind_eq_Inr
      split: if_splits reply_try.splits dest!: read_clock_handle add_value_handle)

lemma messageAvailable_handle:
  "messageAvailable E e w = Inr w' \<Longrightarrow> wk_sender_thread w' = wk_sender_thread w"
  by (auto simp: messageAvailable_def setMaxOutstanding_def Let_def split: if_splits dest: sendRequest_handle)

lemma worker_step_consuming:
  assumes "worker_step E w w'" "wk_consuming w \<or> \<not> wk_running w"
  shows "wk_consuming w' \<or> \<not> wk_running w'"
  using assms(1)
proof (cases rule: worker_step_forms)
  case sends
  from sendRequest_handle [OF sends(3)] sends(1) show ?thesis by simp
next
  case (replied i t)
  then show ?thesis using reply_keeps [OF replied] reply_handle [OF replied] assms(2) by simp
qed (use assms(2) in simp_all)

lemma worker_steps_consuming:
  assumes "(worker_step E)\<^sup>*\<^sup>* w v" "wk_consuming w"
  shows "wk_consuming v \<or> \<not> wk_running v"
  using assms by (induction rule: rtranclp_induct) (auto dest: worker_step_consuming)

lemma senderLoop_consuming: "senderLoop E H M w sm = Inr (w', sm') \<Longrightarrow> wk_consuming w'"
  by (auto simp: senderLoop_def Let_def res_bind_eq_Inr split: prod.splits if_splits)

lemma worker_started_consuming: "worker_started E H M w \<Longrightarrow> wk_consuming w"
  by (auto simp: worker_started_def dest: senderLoop_consuming)

lemma worker_step_handle: "worker_step E w w' \<Longrightarrow> wk_sender_thread w' = wk_sender_thread w"
  by (auto elim!: worker_stepE simp: worker_stop_def dest: messageAvailable_handle reply_handle)

lemma senderLoop_handle:
  "senderLoop E H M w sm = Inr (w', sm') \<Longrightarrow> wk_sender_thread w' = wk_sender_thread w"
  by (auto simp: senderLoop_def Let_def res_bind_eq_Inr split: prod.splits if_splits dest!: read_clock_handle)

lemma senderLoop_manager:
  assumes "senderLoop E H M w sm = Inr (w', sm')"
  shows "\<exists>ps. manager_calls H M [Get_continuous OUTSTANDING_REQUESTS, Get_continuous THROUGHPUT,
      Get_continuous REQUEST_LATENCY, Get_counter EXCEPTIONS, Get_counter UNCAUGHT_EXCEPTIONS] sm = (ps, sm')"
  using assms by (auto simp: senderLoop_def Let_def res_bind_eq_Inr split: prod.splits)

lemma loop_step_handle:
  "loop_step E (pc, l, s) = Inr (pc', l', s') \<Longrightarrow> sch_thread s' = sch_thread s"
  by (cases pc) (auto simp: loop_step_defs message_worker_def Let_def res_bind_eq_Inr split: if_splits)

lemma fb_handle_handle:
  assumes "fb_handle F Q D tryTo c now (fb, s) = Inr (fb', s')"
  shows "sch_thread s' = sch_thread s" "sch_state s = STOPPING \<Longrightarrow> sch_state s' = STOPPING"
  using assms
  by (cases c; auto simp: fb_defs setPhase_eq setMax_queues setRps_def pause_def resume_def
      compare_exchange_strong_def Let_def res_map_eq_Inr res_bind_eq_Inr split: if_splits)+

lemma background_step_keeps:
  assumes "background_step F R p q"
  shows "handles q = handles p" "manager_wf (pr_statistics p) \<Longrightarrow> manager_wf (pr_statistics q)"
    "sch_state (rn_scheduler p) = STOPPING \<Longrightarrow> sch_state (rn_scheduler q) = STOPPING"
    "pr_server_thread q = pr_server_thread p"
  using assms
proof (induction rule: background_step.induct)
  case (worker_starts i p w' sm')
  { case 1 show ?case using senderLoop_handle [OF worker_starts(2)] worker_starts(1)
      by (simp add: handles_def map_update list_update_same_conv)
  next
    case 2 then show ?case using senderLoop_manager [OF worker_starts(2)] manager_calls_steps by fastforce
  next
    case 3 then show ?case by simp
  next
    case 4 show ?case by simp }
next
  case (worker_steps i p w')
  { case 1 show ?case using worker_step_handle [OF worker_steps(2)] worker_steps(1)
      by (simp add: handles_def map_update list_update_same_conv) }
next
  case (scheduler_side y z p)
  { case 3 then show ?case using state_step_stopping [OF scheduler_side(1)] scheduler_side(2) by simp }
qed (auto simp: handles_def fb_handle_handle manager_wf_def)

lemma background_keeps:
  assumes "(background_step F R)\<^sup>*\<^sup>* p q"
  shows "handles q = handles p" "manager_wf (pr_statistics p) \<Longrightarrow> manager_wf (pr_statistics q)"
    "sch_state (rn_scheduler p) = STOPPING \<Longrightarrow> sch_state (rn_scheduler q) = STOPPING"
    "pr_server_thread q = pr_server_thread p"
  using assms by (induction rule: rtranclp_induct) (auto dest: background_step_keeps)

section \<open>Construction\<close>

lemma int32_div_pos:
  assumes "0 < b" "0 \<le> a" "in_int32 a"
  shows "int32_div a b = Inr (a div b)"
proof -
  have "0 \<le> a div b" "a div b \<le> a"
    using assms pos_imp_zdiv_nonneg_iff [of b a] div_le_dividend [of "nat a" "nat b"]
    by (simp_all add: zdiv_mono2 [of a 1 b, simplified])
  then show ?thesis using assms by (simp add: int32_div_def int_range)
qed

lemma int32_to_uint32_unat: "0 \<le> x \<Longrightarrow> in_int32 x \<Longrightarrow> unat (int32_to_uint32 x) = nat x"
  by (simp add: int32_to_uint32_def int_range unat_eq_nat_uint uint_word_of_int)

section \<open>Affinities\<close>

lemma set_affinities_Inr:
  assumes "i + length xs = length as"
  shows "set_affinities to_int cores xs i as = Inr bs \<longleftrightarrow>
    (\<exists>vs. map to_int xs = map Inr vs \<and> (\<forall>v\<in>set vs. 0 \<le> v \<and> v < cores) \<and> bs = take i as @ vs)"
  using assms
proof (induction xs arbitrary: i as)
  case Nil
  then show ?case by auto
next
  case (Cons x xs)
  show ?case
  proof (cases "to_int x")
    case (Inl e)
    then show ?thesis by (auto simp: Cons_eq_map_conv map_eq_Cons_conv)
  next
    case (Inr v)
    have len: "i + 1 + length xs = length (as[i := v])" using Cons.prems by simp
    have take: "take (i + 1) (as[i := v]) = take i as @ [v]"
      using Cons.prems by (simp add: take_Suc_conv_app_nth)
    show ?thesis
      using Inr Cons.IH [OF len] unfolding take by (auto simp: Cons_eq_map_conv map_eq_Cons_conv)
  qed
qed

section \<open>Workers\<close>

lemma new_worker_eq:
  assumes "i < length (sch_queues (rn_scheduler p))" "i < 2 ^ 32" "i < length (rn_cpu_affinity_list p)"
  shows "new_worker F R i p =
    res_map (\<lambda>sm. (Worker8 False (int i) (FLAGS_number_of_workers F) (FLAGS_number_of_connections F)
        (rn_max_outstanding_requests_per_worker p) (re_make_workload R (rn_config p)) (rn_cpu_affinity_list p ! i),
      p\<lparr>pr_statistics := sm\<rparr>))
    (create_connections (re_connect R) (nat (FLAGS_number_of_connections F)) (pr_statistics p))"
  using assms
  by (cases "create_connections (re_connect R) (nat (FLAGS_number_of_connections F)) (pr_statistics p)")
    (simp_all add: new_worker_def getWorkerQueue_def unat_of_nat)

text \<open>The workers are made in order; the manager has seen the connections of all of them.\<close>

lemma initializeWorkers_eq:
  assumes "nat (FLAGS_number_of_workers F) \<le> length (sch_queues (rn_scheduler p))"
    and "nat (FLAGS_number_of_workers F) \<le> length (rn_cpu_affinity_list p)" "nat (FLAGS_number_of_workers F) \<le> 2 ^ 32"
  shows "initializeWorkers F R p =
    res_map (\<lambda>sm. p\<lparr>rn_workers := rn_workers p @ map (\<lambda>i. Worker8 False (int i) (FLAGS_number_of_workers F)
      (FLAGS_number_of_connections F) (rn_max_outstanding_requests_per_worker p) (re_make_workload R (rn_config p))
      (rn_cpu_affinity_list p ! i)) [0..<nat (FLAGS_number_of_workers F)], pr_statistics := sm\<rparr>)
    (res_fold (\<lambda>_. create_connections (re_connect R) (nat (FLAGS_number_of_connections F)))
       [0..<nat (FLAGS_number_of_workers F)] (pr_statistics p))"
proof -
  let ?f = "\<lambda>i p. res_map (\<lambda>(w, p'). p'\<lparr>rn_workers := rn_workers p' @ [w]\<rparr>) (new_worker F R i p)"
  let ?w = "\<lambda>i. Worker8 False (int i) (FLAGS_number_of_workers F) (FLAGS_number_of_connections F)
      (rn_max_outstanding_requests_per_worker p) (re_make_workload R (rn_config p)) (rn_cpu_affinity_list p ! i)"
  let ?g = "\<lambda>_. create_connections (re_connect R) (nat (FLAGS_number_of_connections F))"
  have "res_fold ?f [0..<k] p =
      res_map (\<lambda>sm. p\<lparr>rn_workers := rn_workers p @ map ?w [0..<k], pr_statistics := sm\<rparr>) (res_fold ?g [0..<k] (pr_statistics p))"
    if "k \<le> nat (FLAGS_number_of_workers F)" for k
    using that
  proof (induction k)
    case (Suc k)
    then show ?case using assms
      by (cases "res_fold ?g [0..<k] (pr_statistics p)"; cases "?g () (projr (res_fold ?g [0..<k] (pr_statistics p)))")
        (auto simp: res_fold_append new_worker_eq)
  qed simp
  from this [OF le_refl] show ?thesis by (simp add: initializeWorkers_def)
qed

lemma each_worker_Inr:
  assumes "nat (FLAGS_number_of_workers F) = length (rn_workers p)" "\<forall>w\<in>set (rn_workers p). f w = Inr (g w)"
  shows "each_worker f F p = Inr (p\<lparr>rn_workers := map g (rn_workers p)\<rparr>)"
proof -
  let ?ws = "rn_workers p"
  have "res_fold (\<lambda>i r. res_bind (vec_at (rn_workers r) i) (\<lambda>w.
      res_map (\<lambda>w'. r\<lparr>rn_workers := (rn_workers r)[i := w']\<rparr>) (f w))) [0..<k] p =
    Inr (p\<lparr>rn_workers := map g (take k ?ws) @ drop k ?ws\<rparr>)" if "k \<le> length ?ws" for k
    using that
  proof (induction k)
    case (Suc k)
    then have k: "k < length ?ws" "f (?ws ! k) = Inr (g (?ws ! k))" using assms(2) by auto
    then have "drop k ?ws = ?ws ! k # drop (Suc k) ?ws" by (simp add: Cons_nth_drop_Suc)
    then show ?case using Suc k
      by (simp add: res_fold_append nth_append list_update_append take_Suc_conv_app_nth)
  qed simp
  from this [of "length ?ws"] show ?thesis using assms(1) by (simp add: each_worker_def)
qed

section \<open>Starting\<close>

lemma wait_ready_ends: "ready (j + d) \<Longrightarrow> wait_ready ready j \<noteq> None"
  by (induction d arbitrary: j) (subst wait_ready.simps, simp)+

lemma wait_all_ready_ends: "\<forall>i\<in>set is. \<exists>j. ready i j \<Longrightarrow> wait_all_ready ready is = Some ()"
proof (induction "is")
  case (Cons i "is")
  then obtain j where "ready i (0 + j)" by auto
  then have "wait_ready (ready i) 0 \<noteq> None" by (rule wait_ready_ends)
  then show ?case using Cons by auto
qed simp

text \<open>What \<open>Worker::run\<close> needs in order to return: consistent flags and targets that become ready.\<close>

definition can_start :: "flags \<Rightarrow> (nat \<Rightarrow> nat \<Rightarrow> bool) \<Rightarrow> bool" where
  "can_start F ready \<longleftrightarrow>
     (FLAGS_counter_name F = [] \<or> FLAGS_wait_for_target_ready F \<and> 0 \<le> FLAGS_counter_threshold F) \<and>
     (FLAGS_wait_for_target_ready F \<longrightarrow> (\<forall>i. \<exists>j. ready i j))"

lemma worker_run_starts:
  assumes "can_start F ready" "wk_sender_thread w \<noteq> Joinable"
  shows "worker_run F ready w = Some (Inr (w\<lparr>wk_running := True, wk_sender_thread := Joinable\<rparr>))"
  using assms by (auto simp: worker_run_def can_start_def wait_all_ready_ends)

lemma start_workers_Inr:
  assumes "can_start F ready" "\<forall>w\<in>set (rn_workers p). wk_sender_thread w = No_thread" "n = length (rn_workers p)"
  shows "start_workers F ready [0..<n] p =
    Some (Inr (p\<lparr>rn_workers := map (\<lambda>w. w\<lparr>wk_running := True, wk_sender_thread := Joinable\<rparr>) (rn_workers p)\<rparr>))"
proof -
  let ?up = "\<lambda>w. w\<lparr>wk_running := True, wk_sender_thread := Joinable\<rparr>"
  have "start_workers F ready [k..<n] (p\<lparr>rn_workers := map ?up (take k (rn_workers p)) @ drop k (rn_workers p)\<rparr>) =
    Some (Inr (p\<lparr>rn_workers := map ?up (rn_workers p)\<rparr>))" if "k \<le> n" for k
    using that
  proof (induction k rule: inc_induct)
    case base
    then show ?case using assms(3) by simp
  next
    case (step k)
    let ?w = "rn_workers p ! k"
    have k: "k < length (rn_workers p)" using step assms(3) by simp
    then have "worker_run F ready ?w = Some (Inr (?up ?w))" using assms(1,2) by (simp add: worker_run_starts)
    moreover have "drop k (rn_workers p) = ?w # drop (Suc k) (rn_workers p)" using k by (simp add: Cons_nth_drop_Suc)
    moreover have "[k..<n] = k # [Suc k..<n]" using k assms(3) by (simp add: upt_conv_Cons)
    ultimately show ?case using step.IH k
      by (simp add: nth_append list_update_append take_Suc_conv_app_nth)
  qed
  from this [of 0] show ?thesis by simp
qed

section \<open>Shutting down\<close>

lemma shutdown_wait_bounds:
  assumes "shutdown_wait meanwhile k n p = (k', r, p')" "n \<noteq> 0"
  shows "k \<le> k' \<and> k' - k \<le> unat n \<and> p' = fold meanwhile [k..<k'] p \<and>
    (r = 0 \<and> busy p' = 0 \<or> k' - k = unat n)"
  using assms
proof (induction meanwhile k n p rule: shutdown_wait.induct)
  case (1 meanwhile k n p)
  have n: "unat n = Suc (unat (n - 1))" using unat_minus_one [OF 1(3)] 1(3) by (simp add: unat_gt_0)
  show ?case
  proof (cases "0 < busy p \<and> 0 < n - 1")
    case True
    then have "shutdown_wait meanwhile (k + 1) (n - 1) (meanwhile k p) = (k', r, p')"
      using 1(2) by (subst (asm) shutdown_wait.simps) (simp add: Let_def)
    moreover have "n - 1 \<noteq> 0" using True by (metis less_irrefl)
    ultimately have "k + 1 \<le> k' \<and> k' - (k + 1) \<le> unat (n - 1) \<and> p' = fold meanwhile [k + 1..<k'] (meanwhile k p) \<and>
        (r = 0 \<and> busy p' = 0 \<or> k' - (k + 1) = unat (n - 1))"
      by (rule 1(1) [OF refl conjunct1 [OF True] conjunct2 [OF True]])
    moreover from this have "fold meanwhile [k..<k'] p = fold meanwhile [k + 1..<k'] (meanwhile k p)"
      by (simp add: upt_conv_Cons)
    ultimately show ?thesis using n by auto
  next
    case False
    have "unat (n - 1) = 0" if "\<not> 0 < n - 1" using that by (metis word_gt_0 unat_0)
    then show ?thesis using False 1(2) n
      by (subst (asm) shutdown_wait.simps) (auto simp: Let_def split: if_splits)
  qed
qed

lemma fold_background:
  assumes "\<And>k q. (background_step F R)\<^sup>*\<^sup>* q (f k q)"
  shows "(background_step F R)\<^sup>*\<^sup>* p (fold f ks p)"
  by (induction ks arbitrary: p) (auto intro: rtranclp_trans assms)

lemma collectAny_wait_bounds:
  assumes "collectAny_wait meanwhile n k p = (k', q)"
  shows "k \<le> k' \<and> k' \<le> k + n \<and> q = fold meanwhile [k..<k'] p \<and>
    (sch_promise_fulfilled (rn_scheduler q) \<or> k' = k + n)"
  using assms
proof (induction n arbitrary: k p)
  case (Suc n)
  show ?case
  proof (cases "sch_promise_fulfilled (rn_scheduler p)")
    case False
    then have "collectAny_wait meanwhile n (k + 1) (meanwhile k p) = (k', q)" using Suc.prems by simp
    from Suc.IH [OF this] show ?thesis by (auto simp: upt_conv_Cons)
  qed (use Suc.prems in auto)
qed simp

lemma wait_for_test_background:
  assumes "\<And>k q. (background_step F R)\<^sup>*\<^sup>* q (meanwhile k q)"
  shows "(background_step F R)\<^sup>*\<^sup>* p (wait_for_test F meanwhile p)"
proof -
  obtain k q where w: "collectAny_wait meanwhile (nat (FLAGS_runtime F)) 0 p = (k, q)" by fastforce
  then show ?thesis
    using collectAny_wait_bounds [OF w] fold_background [OF assms] by (simp add: wait_for_test_def)
qed

lemma drain_background:
  assumes "\<And>k q. (background_step F R)\<^sup>*\<^sup>* q (meanwhile k q)" "in_int32 (FLAGS_worker_shutdown_delay F)"
  shows "(background_step F R)\<^sup>*\<^sup>* p (drain_workers F meanwhile p)"
proof (cases "0 < FLAGS_worker_shutdown_delay F")
  case True
  obtain k r p' where s: "shutdown_wait meanwhile 0 (word_of_int (FLAGS_worker_shutdown_delay F)) p = (k, r, p')"
    by (metis prod_cases3)
  have "(word_of_int (FLAGS_worker_shutdown_delay F) :: uint64) \<noteq> 0"
    using True assms(2) by (simp add: word_of_int_eq_0_iff int_range zdvd_not_zless)
  from shutdown_wait_bounds [OF s this] have "p' = fold meanwhile [0..<k] p" by simp
  then show ?thesis using True s fold_background [OF assms(1)] by (simp add: drain_workers_def)
qed (simp add: drain_workers_def)

section \<open>Printing\<close>

lemma res_fold_total:
  assumes "I a" "\<And>x a. x \<in> set xs \<Longrightarrow> I a \<Longrightarrow> \<exists>b. f x a = Inr b \<and> I b"
  shows "\<exists>b. res_fold f xs a = Inr b \<and> I b"
  using assms
proof (induction xs arbitrary: a)
  case (Cons x xs)
  obtain b where "f x a = Inr b" "I b" using Cons.prems(2) [of x a] Cons.prems(1) by auto
  then show ?case using Cons.IH [of b] Cons.prems(2) by auto
qed simp

text \<open>The iteration over a map visits only its entries.\<close>

definition lists_entries :: "((string \<rightharpoonup> pointer) \<Rightarrow> (string \<times> pointer) list) \<Rightarrow> bool" where
  "lists_entries order \<longleftrightarrow> (\<forall>m. \<forall>kv\<in>set (order m). m (fst kv) = Some (snd kv))"

lemma print_defined:
  assumes "manager_wf sm" "lists_entries order"
  shows "\<exists>out sm'. print M H show_est (order (sm_count_map sm)) (order (sm_histo_map sm)) sm = Inr (out, sm')"
proof -
  have c: "snd kv < length (sm_counters sm)" if "kv \<in> set (order (sm_count_map sm))" for kv
    using that assms ranI [of "sm_count_map sm" "fst kv" "snd kv"] by (auto simp: lists_entries_def manager_wf_def)
  have h: "snd kv < length (sm_histograms sm)" if "kv \<in> set (order (sm_histo_map sm))" for kv
    using that assms ranI [of "sm_histo_map sm" "fst kv" "snd kv"] by (auto simp: lists_entries_def manager_wf_def)
  obtain out where out: "res_fold (\<lambda>cp out. res_map (\<lambda>ls. out @ ls) (print_counter M sm cp))
      (order (sm_count_map sm)) [''Statistics:'', []] = Inr out"
    using res_fold_total [where I = "\<lambda>_. True" and a = "[''Statistics:'', []]" and xs = "order (sm_count_map sm)"
        and f = "\<lambda>cp out. res_map (\<lambda>ls. out @ ls) (print_counter M sm cp)"] c
    by (auto simp: print_counter_def)
  have "\<exists>b. res_fold (print_histogram H show_est) (order (sm_histo_map sm)) (out, sm) = Inr b \<and>
      length (sm_histograms (snd b)) = length (sm_histograms sm)"
    by (rule res_fold_total) (use h in \<open>auto simp: print_histogram_def Let_def split: prod.splits\<close>)
  then show ?thesis using out by (auto simp: print_def)
qed

section \<open>Preparation\<close>

definition int32_flags :: "flags \<Rightarrow> bool" where
  "int32_flags F \<longleftrightarrow> in_int32 (FLAGS_number_of_workers F) \<and> in_int32 (FLAGS_max_outstanding_requests F) \<and>
     in_int32 (FLAGS_request_per_second F) \<and> in_int32 (FLAGS_worker_shutdown_delay F)"

lemma TreadmillRunner_Inr:
  assumes "TreadmillRunner F Q j = Inr rn" "int32_flags F"
  shows "0 < FLAGS_number_of_workers F" "rn_workers rn = []"
    "length (sch_queues (rn_scheduler rn)) = nat (FLAGS_number_of_workers F)"
    "sch_thread (rn_scheduler rn) = No_thread" "\<not> sch_future_retrieved (rn_scheduler rn)"
    "rn_cpu_affinity_list rn = replicate (nat (FLAGS_number_of_workers F)) (-1)"
    "int32_div (FLAGS_max_outstanding_requests F) (FLAGS_number_of_workers F) =
      Inr (rn_max_outstanding_requests_per_worker rn)"
  using assms
  by (auto simp: TreadmillRunner_def int32_flags_def res_bind_eq_Inr Let_def Scheduler4_def int32_to_uint32_unat
      int32_div_def split: if_splits)

lemma parse_cpu_affinity_length:
  assumes "parse_cpu_affinity F split to_int hc as = Inr bs" "length as = nat (FLAGS_number_of_workers F)"
    "in_int32 (FLAGS_number_of_workers F)" "0 < FLAGS_number_of_workers F"
  shows "length bs = length as"
proof (cases "FLAGS_cpu_affinity F = []")
  case False
  let ?xs = "split (FLAGS_cpu_affinity F)"
  have "uint (word_of_int (FLAGS_number_of_workers F) :: uint64) = FLAGS_number_of_workers F"
    using assms(3,4) by (simp add: uint_word_of_int int_range)
  then have len: "0 + length ?xs = length as"
    and set: "set_affinities to_int (uint32_to_int32 hc) ?xs 0 as = Inr bs"
    using assms(1,2) False by (auto simp: parse_cpu_affinity_def Let_def split: if_splits)
  then show ?thesis using set_affinities_Inr [OF len, of to_int "uint32_to_int32 hc" bs] map_eq_imp_length_eq
    by force
qed (use assms(1) in \<open>simp add: parse_cpu_affinity_def\<close>)

lemma fresh_process_simps [simp]:
  "rn_workers (fresh_process fs rn) = rn_workers rn" "rn_scheduler (fresh_process fs rn) = rn_scheduler rn"
  "rn_config (fresh_process fs rn) = rn_config rn"
  "rn_cpu_affinity_list (fresh_process fs rn) = rn_cpu_affinity_list rn"
  "rn_max_outstanding_requests_per_worker (fresh_process fs rn) = rn_max_outstanding_requests_per_worker rn"
  "pr_statistics (fresh_process fs rn) = StatisticsManager" "pr_files (fresh_process fs rn) = fs"
  "pr_fb303 (fresh_process fs rn) = None" "pr_server_thread (fresh_process fs rn) = No_thread"
  by (simp_all add: fresh_process_def runner.defs process.defs)

text \<open>
  The three things that can fail in the preparation of a new runner are the configuration, the affinity
  list and the connections.
\<close>

definition server_handle :: "flags \<Rightarrow> thread_handle" where
  "server_handle F = (if 0 < FLAGS_server_port F then Joinable else No_thread)"

definition connect_all ::
  "flags \<Rightarrow> (('h, 'm) statistics_manager \<Rightarrow> ('h, 'm) statistics_manager res) \<Rightarrow> ('h, 'm) statistics_manager res" where
  "connect_all F connect = res_fold (\<lambda>_. create_connections connect (nat (FLAGS_number_of_connections F)))
     [0..<nat (FLAGS_number_of_workers F)] StatisticsManager"

lemma prepare_eq_Inr:
  assumes "TreadmillRunner F Q j = Inr rn" "int32_flags F"
  shows "prepare F R (fresh_process fs rn) = Inr p \<longleftrightarrow>
    (\<exists>config as sm q. load_config F (re_is_readable R) (re_parseJson R) (re_update R) fs (rn_config rn) = Inr config \<and>
       parse_cpu_affinity F (re_split R) (re_to_int R) (re_cores R)
         (replicate (nat (FLAGS_number_of_workers F)) (-1)) = Inr as \<and>
       connect_all F (re_connect R) = Inr sm \<and>
       start_fb303 F R ((fresh_process fs rn)\<lparr>rn_config := config, rn_cpu_affinity_list := as\<rparr>) = Inr q \<and>
       p = q\<lparr>rn_workers := map (\<lambda>i. Worker8 False (int i) (FLAGS_number_of_workers F)
           (FLAGS_number_of_connections F) (rn_max_outstanding_requests_per_worker rn) (re_make_workload R config)
           (as ! i)) [0..<nat (FLAGS_number_of_workers F)], pr_statistics := sm\<rparr>)"
proof -
  note new = TreadmillRunner_Inr [OF assms]
  let ?n = "nat (FLAGS_number_of_workers F)"
  have n: "?n \<le> 2 ^ 32" using assms(2) by (auto simp: int32_flags_def int_range)
  have init: "initializeWorkers F R q = res_map (\<lambda>sm. q\<lparr>rn_workers := map (\<lambda>i. Worker8 False (int i) (FLAGS_number_of_workers F)
      (FLAGS_number_of_connections F) (rn_max_outstanding_requests_per_worker rn) (re_make_workload R config) (as ! i)) [0..<?n],
      pr_statistics := sm\<rparr>) (connect_all F (re_connect R))"
    if q: "start_fb303 F R ((fresh_process fs rn)\<lparr>rn_config := config, rn_cpu_affinity_list := as\<rparr>) = Inr q"
      and a: "parse_cpu_affinity F (re_split R) (re_to_int R) (re_cores R) (replicate ?n (-1)) = Inr as" for q config as
  proof -
    have q': "rn_workers q = []" "rn_scheduler q = rn_scheduler rn" "rn_config q = config"
      "rn_cpu_affinity_list q = as" "pr_statistics q = StatisticsManager"
      "rn_max_outstanding_requests_per_worker q = rn_max_outstanding_requests_per_worker rn"
      using q by (auto simp: start_fb303_def res_map_eq_Inr new(2) split: if_splits)
    have "length as = ?n" using parse_cpu_affinity_length [OF a] assms(2) new(1) by (simp add: int32_flags_def)
    then show ?thesis using initializeWorkers_eq [of F q R] n by (simp add: q' new(3) connect_all_def)
  qed
  show ?thesis
    by (auto simp: prepare_def res_bind_eq_Inr new(6) init res_map_eq_Inr)
qed

lemma start_fb303_fresh:
  "\<exists>q. start_fb303 F R ((fresh_process fs rn)\<lparr>rn_config := config, rn_cpu_affinity_list := as\<rparr>) = Inr q \<and>
    rn_scheduler q = rn_scheduler rn \<and> rn_config q = config \<and> rn_cpu_affinity_list q = as \<and>
    pr_server_thread q = server_handle F"
  by (simp add: start_fb303_def make_fb303_def getGlobalTreadmillFB303_def server_handle_def)

lemma connect_all_wf: "connection_factory connect \<Longrightarrow> connect_all F connect = Inr sm \<Longrightarrow> manager_wf sm"
  unfolding connect_all_def
  by (erule res_fold_invariant [where I = manager_wf])
    (auto intro: connection_factory.create_connections_wf StatisticsManager_wf)

lemma connect_all_total:
  assumes "\<And>sm. \<exists>sm'. connect sm = Inr sm'"
  shows "\<exists>sm. connect_all F connect = Inr sm"
proof -
  have "\<exists>sm'. create_connections connect n sm = Inr sm'" for n sm
  proof (induction n arbitrary: sm)
    case (Suc n)
    obtain v where "connect sm = Inr v" using assms by blast
    then show ?case using Suc by simp
  qed simp
  then show ?thesis
    using res_fold_total [where I = "\<lambda>_. True" and f = "\<lambda>_ :: nat. create_connections connect (nat (FLAGS_number_of_connections F))"]
    by (simp add: connect_all_def)
qed

lemma prepare_Inr:
  assumes "TreadmillRunner F Q j = Inr rn" "int32_flags F" "prepare F R (fresh_process fs rn) = Inr p"
  shows "rn_scheduler p = rn_scheduler rn \<and> connect_all F (re_connect R) = Inr (pr_statistics p) \<and>
    pr_server_thread p = server_handle F \<and>
    parse_cpu_affinity F (re_split R) (re_to_int R) (re_cores R)
      (replicate (nat (FLAGS_number_of_workers F)) (-1)) = Inr (rn_cpu_affinity_list p) \<and>
    load_config F (re_is_readable R) (re_parseJson R) (re_update R) fs (rn_config rn) = Inr (rn_config p) \<and>
    rn_workers p = map (\<lambda>i. Worker8 False (int i) (FLAGS_number_of_workers F)
      (FLAGS_number_of_connections F) (rn_max_outstanding_requests_per_worker rn) (re_make_workload R (rn_config p))
      (rn_cpu_affinity_list p ! i)) [0..<nat (FLAGS_number_of_workers F)]"
proof -
  from assms(3) [unfolded prepare_eq_Inr [OF assms(1,2)]] obtain config as sm q where
    p: "load_config F (re_is_readable R) (re_parseJson R) (re_update R) fs (rn_config rn) = Inr config"
      "parse_cpu_affinity F (re_split R) (re_to_int R) (re_cores R) (replicate (nat (FLAGS_number_of_workers F)) (-1)) = Inr as"
      "connect_all F (re_connect R) = Inr sm"
      "start_fb303 F R ((fresh_process fs rn)\<lparr>rn_config := config, rn_cpu_affinity_list := as\<rparr>) = Inr q"
      "p = q\<lparr>rn_workers := map (\<lambda>i. Worker8 False (int i) (FLAGS_number_of_workers F)
           (FLAGS_number_of_connections F) (rn_max_outstanding_requests_per_worker rn) (re_make_workload R config)
           (as ! i)) [0..<nat (FLAGS_number_of_workers F)], pr_statistics := sm\<rparr>" by blast
  moreover have "rn_scheduler q = rn_scheduler rn \<and> rn_config q = config \<and> rn_cpu_affinity_list q = as \<and>
      pr_server_thread q = server_handle F"
    using start_fb303_fresh [where F = F and R = R and fs = fs and rn = rn and config = config and as = as] p(4) by auto
  ultimately show ?thesis by simp
qed

section \<open>A run\<close>

definition other_threads :: "flags \<Rightarrow> ('q, 'w, 'r, 'd, 'j, 'h, 'm, 's) runner_env \<Rightarrow> bool" where
  "other_threads F R \<longleftrightarrow> (\<forall>k p. (background_step F R)\<^sup>*\<^sup>* p (re_during_test R k p)) \<and>
     (\<forall>k p. (background_step F R)\<^sup>*\<^sup>* p (re_during_drain R k p))"

definition all_joined :: "flags \<Rightarrow> ('q, 'w, 'r, 'j, 'h, 'm, 's) process \<Rightarrow> bool" where
  "all_joined F p \<longleftrightarrow> sch_state (rn_scheduler p) = STOPPING \<and> sch_thread (rn_scheduler p) = Joined \<and>
     length (rn_workers p) = nat (FLAGS_number_of_workers F) \<and>
     (\<forall>w\<in>set (rn_workers p). \<not> wk_running w \<and> wk_terminate_loop w \<and> wk_sender_thread w = Joined) \<and>
     pr_server_thread p = (if 0 < FLAGS_server_port F then Joined else No_thread)"

lemma stop_join_workers:
  assumes "map wk_sender_thread (rn_workers p) = replicate (nat (FLAGS_number_of_workers F)) Joinable"
  shows "\<exists>q. res_bind (each_worker (\<lambda>w. Inr (worker_stop w)) F p) (each_worker worker_join F) = Inr q \<and>
    rn_scheduler q = rn_scheduler p \<and> pr_files q = pr_files p \<and> pr_server_thread q = pr_server_thread p \<and>
    length (rn_workers q) = nat (FLAGS_number_of_workers F) \<and>
    (\<forall>w\<in>set (rn_workers q). \<not> wk_running w \<and> wk_terminate_loop w \<and> wk_sender_thread w = Joined)"
proof -
  have len: "nat (FLAGS_number_of_workers F) = length (rn_workers p)"
    using assms by (metis length_map length_replicate)
  have joinable: "wk_sender_thread w = Joinable" if "w \<in> set (rn_workers p)" for w
    using that assms by (metis image_eqI in_set_replicate list.set_map)
  let ?p = "p\<lparr>rn_workers := map worker_stop (rn_workers p)\<rparr>"
  have "each_worker worker_join F ?p =
      Inr (?p\<lparr>rn_workers := map (\<lambda>w. w\<lparr>wk_sender_thread := Joined\<rparr>) (rn_workers ?p)\<rparr>)"
    by (rule each_worker_Inr) (use len joinable in \<open>auto simp: worker_join_def worker_stop_def\<close>)
  then show ?thesis
    using each_worker_Inr [of F p "\<lambda>w. Inr (worker_stop w)" worker_stop] len
    by (auto simp: worker_stop_def emit_def)
qed

lemma save_config_Inr:
  assumes "rn_workers p \<noteq> []" "FLAGS_config_out_file F = [] \<or> (\<forall>f txt. re_write R f txt = Written)"
  shows "\<exists>q. save_config F R p = Inr q \<and> rn_workers q = rn_workers p \<and> rn_scheduler q = rn_scheduler p \<and>
    pr_server_thread q = pr_server_thread p"
  using assms by (cases "FLAGS_config_out_file F = []")
    (auto simp: save_config_def writeDynamicToFile_def writeStringToFile_def)

lemma finish_joins:
  assumes "other_threads F R" "lists_entries (re_order R)" "int32_flags F"
    and "FLAGS_config_out_file F = [] \<or> (\<forall>f txt. re_write R f txt = Written)" "0 < FLAGS_number_of_workers F"
    and "handles p = (replicate (nat (FLAGS_number_of_workers F)) Joinable, Joinable)" "manager_wf (pr_statistics p)"
    and "pr_server_thread p = server_handle F"
  shows "\<exists>q. finish F R p = Inr q \<and> all_joined F q"
proof -
  let ?p1 = "p\<lparr>rn_scheduler := (stop (rn_scheduler p))\<lparr>sch_thread := Joined\<rparr>\<rparr>"
  let ?p2 = "drain_workers F (re_during_drain R) ?p1"
  have p1: "stop_scheduler p = Inr ?p1"
    using assms(6) by (simp add: stop_scheduler_def join_def stop_def handles_def)
  have "(background_step F R)\<^sup>*\<^sup>* ?p1 ?p2"
    using assms(1,3) by (intro drain_background) (simp_all add: other_threads_def int32_flags_def)
  note bg = background_keeps [OF this]
  have h2: "handles ?p2 = (replicate (nat (FLAGS_number_of_workers F)) Joinable, Joined)"
    using assms(6) unfolding bg(1) by (simp add: handles_def stop_def)
  have s2: "manager_wf (pr_statistics ?p2)" "sch_state (rn_scheduler ?p2) = STOPPING" "pr_server_thread ?p2 = server_handle F"
    using assms(7,8) bg(2-4) by (simp_all add: stop_def)
  obtain p3 where p3: "print_statistics R ?p2 = Inr p3" "rn_workers p3 = rn_workers ?p2" "rn_scheduler p3 = rn_scheduler ?p2"
    "pr_server_thread p3 = pr_server_thread ?p2"
    using print_defined [OF s2(1) assms(2), of "re_map R" "re_histogram R" "re_show R"]
    by (auto simp: print_statistics_def)
  have "map wk_sender_thread (rn_workers p3) = replicate (nat (FLAGS_number_of_workers F)) Joinable"
    using h2 p3(2) by (simp add: handles_def)
  from stop_join_workers [OF this] obtain p4 where
    p4: "res_bind (each_worker (\<lambda>w. Inr (worker_stop w)) F p3) (each_worker worker_join F) = Inr p4"
    and j: "rn_scheduler p4 = rn_scheduler p3" "length (rn_workers p4) = nat (FLAGS_number_of_workers F)"
      "\<forall>w\<in>set (rn_workers p4). \<not> wk_running w \<and> wk_terminate_loop w \<and> wk_sender_thread w = Joined"
      "pr_server_thread p4 = pr_server_thread p3"
    by blast
  obtain p5 where p5: "save_config F R p4 = Inr p5" "rn_workers p5 = rn_workers p4" "rn_scheduler p5 = rn_scheduler p4"
    "pr_server_thread p5 = pr_server_thread p4"
    using assms(4,5) j(2) save_config_Inr [of p4 F R] by fastforce
  let ?p6 = "release_server (log_counters R p5)"
  have "finish F R p = Inr ?p6"
    unfolding finish_def p1 using p3(1) p4 p5(1) by (auto simp: res_bind_eq_Inr)
  moreover have "all_joined F ?p6"
    using j p5(2-4) p3(3,4) s2(2,3) h2
    by (simp add: all_joined_def handles_def release_server_def log_counters_def server_handle_def)
  ultimately show ?thesis by blast
qed


section \<open>An environment for runs on concrete inputs\<close>

text \<open>The sleep service on the list queue; the other threads do nothing while the main thread waits.\<close>

definition sleep_runner_env ::
  "(dynamic_value event list, workload_base, sleep_request, dynamic_value, string, double list, bounded_alist, nat) runner_env" where
  "sleep_runner_env = \<lparr>
     re_sched = idle_env, re_worker = sleep_env, re_map = bounded_alist_ops, re_histogram = list_histogram,
     re_show = (\<lambda>_. []), re_order = (\<lambda>_. []), re_is_readable = (\<lambda>_. True), re_write = (\<lambda>_ _. Written),
     re_parseJson = Inr, re_toJson = (\<lambda>j. j), re_update = (\<lambda>a b. Inr b),
     re_split = (\<lambda>x. [x]), re_to_int = (\<lambda>x. Inr (int (length x))), re_tryTo = (\<lambda>_. None), re_cores = 8,
     re_make_workload = (\<lambda>_. \<lparr>wl_phase = []\<rparr>),
     re_connect = sleep_connect list_histogram default_flags Inr, re_makeConfigOutputs = (\<lambda>_ _. []),
     re_ready = (\<lambda>_ _. True), re_STARTING = 1, re_time = 0, re_getCounters = (\<lambda>_. []),
     re_during_test = (\<lambda>_ p. p), re_during_drain = (\<lambda>_ p. p)\<rparr>"

lemma sleep_runner_env_ok:
  "other_threads F sleep_runner_env" "lists_entries (re_order sleep_runner_env)" "re_write sleep_runner_env = (\<lambda>_ _. Written)"
  "re_ready sleep_runner_env = (\<lambda>_ _. True)" "connection_factory (re_connect sleep_runner_env)"
  by (simp_all add: other_threads_def lists_entries_def sleep_runner_env_def sleep_conn.connection_factory_axioms)

lemma default_flags_runner [simp]:
  "FLAGS_config_in_file default_flags = []" "FLAGS_config_in_json default_flags = []"
  "FLAGS_config_out_file default_flags = []"
  by (simp_all add: default_flags_def default_runner_flags_def runner_flags.defs flags.defs)

lemma default_int32_flags: "int32_flags default_flags" "can_start default_flags ready"
  by (simp_all add: int32_flags_def can_start_def int_range)

definition default_runner :: "(dynamic_value event list, workload_base, sleep_request, string) runner" where
  "default_runner = \<lparr>
     rn_workers = [], rn_scheduler = Scheduler4 default_flags list_queue 1024 1 1000 1000,
     rn_max_outstanding_requests_per_worker = 1000, rn_config = [], rn_cpu_affinity_list = [-1],
     rn_rps = double_of_int 1024 / double_of_int 1\<rparr>"

lemma default_runner_constructed: "TreadmillRunner default_flags list_queue [] = Inr default_runner"
  by (simp add: TreadmillRunner_def default_runner_def int32_div_def int32_to_uint32_def int_range)

lemma default_prepare:
  "\<exists>p :: (dynamic_value event list, workload_base, sleep_request, string, double list, bounded_alist, nat) process.
     prepare default_flags sleep_runner_env (fresh_process fs default_runner) = Inr p"
proof -
  have "\<exists>sm. connect_all default_flags (re_connect sleep_runner_env) = Inr sm"
    by (rule connect_all_total) (simp add: sleep_runner_env_def sleep_connect_def Connection_Sleep_def split: prod.split)
  then show ?thesis
    unfolding prepare_eq_Inr [OF default_runner_constructed default_int32_flags(1)]
    using start_fb303_fresh [where F = default_flags and R = sleep_runner_env and fs = fs and rn = default_runner
        and config = "rn_config default_runner" and as = "[-1]"]
    by (auto simp: load_config_def parse_cpu_affinity_def)
qed

section \<open>A run that ends\<close>

lemma run_joins:
  assumes "TreadmillRunner F Q j = Inr rn" "int32_flags F" "prepare F R (fresh_process fs rn) = Inr p"
    and "can_start F (re_ready R)" "other_threads F R" "lists_entries (re_order R)" "connection_factory (re_connect R)"
    and "FLAGS_config_out_file F = [] \<or> (\<forall>f txt. re_write R f txt = Written)"
  shows "\<exists>q. runner_run F R (fresh_process fs rn) = Some (Inr q) \<and> all_joined F q"
proof -
  note new = TreadmillRunner_Inr [OF assms(1,2)] and prep = prepare_Inr [OF assms(1-3)]
  let ?n = "nat (FLAGS_number_of_workers F)"
  let ?p2 = "p\<lparr>rn_workers := map (\<lambda>w. w\<lparr>wk_running := True, wk_sender_thread := Joinable\<rparr>) (rn_workers p)\<rparr>"
  let ?s = "(rn_scheduler rn)\<lparr>sch_thread := Joinable, sch_future_retrieved := True\<rparr>"
  have start: "start_workers F (re_ready R) [0..<?n] p = Some (Inr ?p2)"
    by (rule start_workers_Inr [OF assms(4)])
      (use prep in \<open>auto simp: Worker8_def setWorkerCounter_def emit_def\<close>)
  have run: "run (rn_scheduler ?p2) = Inr ?s" using prep new(4,5) by (simp add: run_def)
  let ?p3 = "wait_for_test F (re_during_test R) (?p2\<lparr>rn_scheduler := ?s\<rparr>)"
  have "(background_step F R)\<^sup>*\<^sup>* (?p2\<lparr>rn_scheduler := ?s\<rparr>) ?p3"
    using assms(5) by (intro wait_for_test_background) (simp add: other_threads_def)
  note bg = background_keeps [OF this]
  have "handles ?p3 = (replicate ?n Joinable, Joinable)"
    unfolding bg(1) using prep by (simp add: handles_def comp_def map_replicate_const)
  moreover have "manager_wf (pr_statistics p)" using prep by (intro connect_all_wf [OF assms(7), where F = F]) simp
  then have "manager_wf (pr_statistics ?p3)" by (intro bg(2)) simp
  moreover have "pr_server_thread ?p3 = server_handle F" unfolding bg(4) using prep by simp
  ultimately obtain q where "finish F R ?p3 = Inr q" "all_joined F q"
    using finish_joins [OF assms(5,6,2,8) new(1)] by blast
  then show ?thesis using assms(3) start run by (simp add: runner_run_def)
qed

section \<open>Properties\<close>

text \<open>
  C28. Division of the limit. The runner is constructed exactly when the number of workers is positive
  (with none it divides by zero); for a non-negative total the workers' limits, all equal, add up to
  at most the total and waste less than one request per worker, the scheduler reports the total, and
  it has one queue per worker.
\<close>

theorem runner_limits_divided:
  fixes Q :: "('q, 'd event) queue_ops" and j :: 'j
  assumes "int32_flags F" "0 \<le> FLAGS_max_outstanding_requests F"
  shows "((\<exists>rn :: ('q, 'w, 'r, 'j) runner. TreadmillRunner F Q j = Inr rn) \<longleftrightarrow> 0 < FLAGS_number_of_workers F) \<and>
    (FLAGS_number_of_workers F = 0 \<longrightarrow> (TreadmillRunner F Q j :: ('q, 'w, 'r, 'j) runner res) = Inl (Undefined Division_by_zero)) \<and>
    (\<forall>rn :: ('q, 'w, 'r, 'j) runner. TreadmillRunner F Q j = Inr rn \<longrightarrow>
       FLAGS_number_of_workers F * rn_max_outstanding_requests_per_worker rn \<le> FLAGS_max_outstanding_requests F \<and>
       FLAGS_max_outstanding_requests F <
         FLAGS_number_of_workers F * rn_max_outstanding_requests_per_worker rn + FLAGS_number_of_workers F \<and>
       getMaxOutstandingRequests (rn_scheduler rn) = FLAGS_max_outstanding_requests F \<and>
       length (sch_queues (rn_scheduler rn)) = nat (FLAGS_number_of_workers F))"
proof -
  let ?n = "FLAGS_number_of_workers F" and ?m = "FLAGS_max_outstanding_requests F"
  have m: "in_int32 ?m" using assms(1) by (simp add: int32_flags_def)
  have "\<exists>rn :: ('q, 'w, 'r, 'j) runner. TreadmillRunner F Q j = Inr rn" if "0 < ?n"
    using int32_div_pos [OF that assms(2) m] that by (simp add: TreadmillRunner_def Let_def)
  moreover have "?n * rn_max_outstanding_requests_per_worker rn \<le> ?m \<and>
      ?m < ?n * rn_max_outstanding_requests_per_worker rn + ?n \<and>
      getMaxOutstandingRequests (rn_scheduler rn) = ?m \<and> length (sch_queues (rn_scheduler rn)) = nat ?n"
    if rn: "TreadmillRunner F Q j = Inr rn" for rn :: "('q, 'w, 'r, 'j) runner"
  proof -
    note new = TreadmillRunner_Inr [OF rn assms(1)]
    then have "rn_max_outstanding_requests_per_worker rn = ?m div ?n"
      using int32_div_pos [OF new(1) assms(2) m] by simp
    moreover have "?n * (?m div ?n) \<le> ?m" "?m < ?n * (?m div ?n) + ?n"
      using new(1) mult_div_mod_eq [of ?n ?m] pos_mod_sign [of ?n ?m] pos_mod_bound [of ?n ?m] by linarith+
    moreover have "getMaxOutstandingRequests (rn_scheduler rn) = ?m"
      using rn m by (auto simp: TreadmillRunner_def Let_def res_bind_eq_Inr getMaxOutstandingRequests_def
          Scheduler4_def split: if_splits)
    ultimately show ?thesis using new(3) by simp
  qed
  moreover have "(TreadmillRunner F Q j :: ('q, 'w, 'r, 'j) runner res) = Inl (Undefined Division_by_zero)" if "?n = 0"
    using that by (simp add: TreadmillRunner_def int32_div_def)
  moreover have "0 < ?n" if "TreadmillRunner F Q j = Inr rn" for rn :: "('q, 'w, 'r, 'j) runner"
    using that by (rule TreadmillRunner_Inr(1) [OF _ assms(1)])
  ultimately show ?thesis by (intro conjI allI impI iffI) auto
qed

theorem runner_limits_divided_witness:
  "\<exists>rn. TreadmillRunner (default_flags\<lparr>FLAGS_number_of_workers := 3\<rparr>) (list_queue :: (dynamic_value event list, dynamic_value event) queue_ops) () =
       Inr (rn :: (dynamic_value event list, unit, unit, unit) runner) \<and>
     rn_max_outstanding_requests_per_worker rn = 333"
proof -
  let ?F = "default_flags\<lparr>FLAGS_number_of_workers := 3\<rparr>"
  let ?Q = "list_queue :: (dynamic_value event list, dynamic_value event) queue_ops"
  have F: "int32_flags ?F" "0 \<le> FLAGS_max_outstanding_requests ?F" by (simp_all add: int32_flags_def int_range)
  note t = runner_limits_divided [OF F, where Q = ?Q and j = "()"]
  obtain rn :: "(dynamic_value event list, unit, unit, unit) runner" where rn: "TreadmillRunner ?F ?Q () = Inr rn"
    using t by auto
  with t have "3 * rn_max_outstanding_requests_per_worker rn \<le> 1000" "1000 < 3 * rn_max_outstanding_requests_per_worker rn + 3"
    by auto
  then show ?thesis using rn by auto
qed

text \<open>
  C27. The affinity list. A non-empty list is accepted exactly when it has one entry per worker and
  every entry is the number of an existing core, and then the workers get these cores in order; every
  other list ends the program before a worker exists. Without a list no affinity is changed.
\<close>

theorem runner_affinity_accepted:
  assumes "int32_flags F" "0 < FLAGS_number_of_workers F" "length as = nat (FLAGS_number_of_workers F)"
  shows "parse_cpu_affinity F split to_int hardware_concurrency as = Inr bs \<longleftrightarrow>
    (if FLAGS_cpu_affinity F = [] then bs = as
     else int (length (split (FLAGS_cpu_affinity F))) = FLAGS_number_of_workers F \<and>
       map to_int (split (FLAGS_cpu_affinity F)) = map Inr bs \<and>
       (\<forall>b\<in>set bs. 0 \<le> b \<and> b < uint32_to_int32 hardware_concurrency))"
proof -
  have n: "uint (word_of_int (FLAGS_number_of_workers F) :: uint64) = FLAGS_number_of_workers F"
    using assms(1,2) by (simp add: int32_flags_def uint_word_of_int int_range)
  show ?thesis
  proof (cases "int (length (split (FLAGS_cpu_affinity F))) = FLAGS_number_of_workers F")
    case True
    then have "0 + length (split (FLAGS_cpu_affinity F)) = length as" using assms(3) by simp
    from set_affinities_Inr [OF this, of to_int "uint32_to_int32 hardware_concurrency" bs]
    show ?thesis using True by (auto simp: parse_cpu_affinity_def Let_def n)
  qed (auto simp: parse_cpu_affinity_def Let_def n)
qed

theorem runner_affinity_accepted_witness:
  "parse_cpu_affinity (default_flags\<lparr>FLAGS_number_of_workers := 2, FLAGS_cpu_affinity := ''0,3''\<rparr>)
     (\<lambda>_. [''0'', ''3'']) (\<lambda>x. if x = ''0'' then Inr 0 else Inr 3) 4 [-1, -1] = Inr [0, 3] \<and>
   parse_cpu_affinity (default_flags\<lparr>FLAGS_number_of_workers := 2, FLAGS_cpu_affinity := ''0,3''\<rparr>)
     (\<lambda>_. [''0'', ''3'']) (\<lambda>x. if x = ''0'' then Inr 0 else Inr 3) 3 [-1, -1] \<noteq> Inr [0, 3]"
proof -
  let ?F = "default_flags\<lparr>FLAGS_number_of_workers := 2, FLAGS_cpu_affinity := ''0,3''\<rparr>"
  have "int32_flags ?F" "0 < FLAGS_number_of_workers ?F" by (simp_all add: int32_flags_def int_range)
  from runner_affinity_accepted [OF this, of "[-1, -1]" "\<lambda>_. [''0'', ''3'']"
      "\<lambda>x. if x = ''0'' then Inr 0 else Inr 3" _ "[0, 3]"]
  show ?thesis by (simp add: uint32_to_int32_def int_range)
qed



text \<open>
  C29. The shutdown delay is a bound. For a positive delay of \<open>d\<close> seconds the wait for the workers
  ends, whatever the other threads do, after at most \<open>d\<close> sleeps of one second, and it ends early
  exactly by finding no worker busy: either no worker has work left or \<open>d\<close> seconds were slept.
\<close>

theorem runner_shutdown_bounded:
  assumes "0 < d" "in_int32 d" "shutdown_wait meanwhile 0 (word_of_int d) p = (slept, remaining, q)"
  shows "int slept \<le> d \<and> q = fold meanwhile [0..<slept] p \<and>
    (remaining = 0 \<and> (\<forall>w\<in>set (rn_workers q). \<not> hasMoreWork w) \<or> int slept = d)"
proof -
  have u: "unat (word_of_int d :: uint64) = nat d"
    using assms(1,2) by (simp add: int_range unat_eq_nat_uint uint_word_of_int)
  then have "(word_of_int d :: uint64) \<noteq> 0" using assms(1) by (metis nat_0_iff not_less unat_0)
  from shutdown_wait_bounds [OF assms(3) this]
  show ?thesis using assms(1) by (auto simp: u busy_def filter_empty_conv)
qed

theorem runner_shutdown_bounded_witness:
  "shutdown_wait (\<lambda>_ rn. rn\<lparr>rn_workers := []\<rparr>) 0 (word_of_int 5)
     (default_runner\<lparr>rn_workers := [Worker8 True 0 1 4 2 \<lparr>wl_phase = []\<rparr> (-1)]\<rparr>) = (1, 0, default_runner)"
proof -
  let ?p = "default_runner\<lparr>rn_workers := [Worker8 True 0 1 4 2 \<lparr>wl_phase = []\<rparr> (-1)]\<rparr>"
  have s: "shutdown_wait (\<lambda>_ rn. rn\<lparr>rn_workers := []\<rparr>) 0 (word_of_int 5) ?p = (1, 0, ?p\<lparr>rn_workers := []\<rparr>)"
    by (subst shutdown_wait.simps, subst shutdown_wait.simps)
      (simp add: Let_def busy_def hasMoreWork_def Worker8_def setWorkerCounter_def emit_def)
  have "in_int32 5" by (simp add: int_range)
  from runner_shutdown_bounded [OF _ this s] s show ?thesis by (simp add: default_runner_def)
qed



end
