(* ===== verification/Load_System.thy ===== *)
theory Load_System
  imports Runner_Properties
begin

text \<open>
  The scheduler and its workers as one system. A state is a state of \<open>Scheduler_System\<close> and the list of
  started workers, worker \<open>i\<close> consuming queue \<open>i\<close>. A step is a step of the scheduler's side (its thread,
  a call or broadcast of another thread), the handling of one message by a worker, the continuation of
  a reply, or a call of \<open>stop\<close> on a worker. Every step is a step of the parts, so their invariants
  hold in the whole; \<open>load_inv\<close> relates what a worker did to what its queue delivered.
\<close>

section \<open>The system\<close>

record ('q, 'd, 'w, 'r) load_system =
  ld_sys :: "('q, 'd) sched_sys"
  ld_workers :: "('w, 'r) worker list"

inductive load_step ::
  "flags \<Rightarrow> ('q, 'd) sched_env \<Rightarrow> ('w, 'r, 'd) worker_env \<Rightarrow> ('q, 'd, 'w, 'r) load_system \<Rightarrow>
     ('q, 'd, 'w, 'r) load_system \<Rightarrow> bool"
  for F :: flags and S :: "('q, 'd) sched_env" and E :: "('w, 'r, 'd) worker_env" where
  scheduler_side: "sched_step F S (ld_sys x) y \<Longrightarrow> sys_delivered y = sys_delivered (ld_sys x) \<Longrightarrow>
    load_step F S E x (x\<lparr>ld_sys := y\<rparr>)"
| worker_message: "i < length (ld_workers x) \<Longrightarrow> i < length (sch_queues (sys_sched (ld_sys x))) \<Longrightarrow>
    wk_consuming (ld_workers x ! i) \<Longrightarrow>
    q_consume (env_queue S) (sch_queues (sys_sched (ld_sys x)) ! i) = Some (e, q') \<Longrightarrow>
    messageAvailable E e (ld_workers x ! i) = Inr w' \<Longrightarrow>
    load_step F S E x (x\<lparr>
      ld_sys := (ld_sys x)\<lparr>
        sys_sched := (sys_sched (ld_sys x))\<lparr>sch_queues := (sch_queues (sys_sched (ld_sys x)))[i := q']\<rparr>,
        sys_delivered := append_at i e (sys_delivered (ld_sys x))\<rparr>,
      ld_workers := (ld_workers x)[i := w']\<rparr>)"
| worker_reply: "i < length (ld_workers x) \<Longrightarrow> reply E j (t :: unit reply_try) (ld_workers x ! i) = Inr w' \<Longrightarrow>
    load_step F S E x (x\<lparr>ld_workers := (ld_workers x)[i := w']\<rparr>)"
| worker_stopped: "i < length (ld_workers x) \<Longrightarrow>
    load_step F S E x (x\<lparr>ld_workers := (ld_workers x)[i := worker_stop (ld_workers x ! i)]\<rparr>)"

definition load_init ::
  "flags \<Rightarrow> ('q, 'd) sched_env \<Rightarrow> ('w, 'r, 'd) worker_env \<Rightarrow> 'h histogram_ops \<Rightarrow> 'm insert_map_ops \<Rightarrow>
     ('q, 'd, 'w, 'r) load_system \<Rightarrow> bool" where
  "load_init F S E H M x \<longleftrightarrow> sched_init F S (ld_sys x) \<and>
     length (ld_workers x) = length (sch_queues (sys_sched (ld_sys x))) \<and>
     (\<forall>w\<in>set (ld_workers x). worker_started E H M w)"

section \<open>The steps of the parts\<close>

lemma load_step_sched: "load_step F S E x y \<Longrightarrow> (sched_step F S)\<^sup>*\<^sup>* (ld_sys x) (ld_sys y)"
  by (induction rule: load_step.induct) (auto intro: sched_step.consume)

lemma load_steps_sched: "(load_step F S E)\<^sup>*\<^sup>* x y \<Longrightarrow> (sched_step F S)\<^sup>*\<^sup>* (ld_sys x) (ld_sys y)"
  by (induction rule: rtranclp_induct) (auto intro: rtranclp_trans load_step_sched)

lemma worker_step_update:
  "worker_step E (ws ! i) w' \<Longrightarrow> j < length ws \<Longrightarrow> (worker_step E)\<^sup>*\<^sup>* (ws ! j) (ws[i := w'] ! j)"
  by (cases "i = j") auto

lemma load_step_worker:
  assumes "load_step F S E x y"
  shows "length (ld_workers y) = length (ld_workers x) \<and>
    (\<forall>i<length (ld_workers x). (worker_step E)\<^sup>*\<^sup>* (ld_workers x ! i) (ld_workers y ! i))"
  using assms
proof (induction rule: load_step.induct)
  case (worker_message i x e q' w')
  then have "worker_step E (ld_workers x ! i) w'" by (intro worker_step.message)
  then show ?case by (simp add: worker_step_update)
next
  case (worker_reply i x j t w')
  then have "worker_step E (ld_workers x ! i) w'" by (intro worker_step.continuation)
  then show ?case by (simp add: worker_step_update)
next
  case (worker_stopped i x)
  have "worker_step E (ld_workers x ! i) (worker_stop (ld_workers x ! i))" by (rule worker_step.stop_call)
  then show ?case by (simp add: worker_step_update)
qed simp

lemma load_steps_worker:
  assumes "(load_step F S E)\<^sup>*\<^sup>* x y"
  shows "length (ld_workers y) = length (ld_workers x) \<and>
    (\<forall>i<length (ld_workers x). (worker_step E)\<^sup>*\<^sup>* (ld_workers x ! i) (ld_workers y ! i))"
  using assms
proof (induction rule: rtranclp_induct)
  case (step y z)
  then show ?case using load_step_worker [OF step.hyps(2)] by (auto intro: rtranclp_trans)
qed simp

section \<open>What a worker sends\<close>

lemma send_next_count:
  assumes "send_next E w = Inr (b, w')"
  shows "length (sent (wk_effects w')) = length (sent (wk_effects w)) + (if b then 1 else 0)"
  using assms by (cases b) (auto elim: send_next_sent send_next_null)

lemma messageAvailable_count:
  assumes "messageAvailable E e w = Inr w'"
  shows "length (sent (wk_effects w')) \<le> length (sent (wk_effects w)) + (if getEventType e = SEND_REQUEST then 1 else 0)"
proof (cases "getEventType e = SEND_REQUEST \<and> wk_running w")
  case True
  then have "worker_sendRequest E w = Inr w'" using assms by (simp add: messageAvailable_def)
  then show ?thesis using True
    by (cases rule: worker_sendRequest_forms) (auto simp: estimate_keeps(1) dest!: send_next_count)
next
  case False
  then have "sent (wk_effects w') = sent (wk_effects w)"
    using assms by (auto simp: messageAvailable_def setMaxOutstanding_def emit_def Let_def split: if_splits)
  then show ?thesis by simp
qed

lemma messageAvailable_stop:
  "messageAvailable E e w = Inr w' \<Longrightarrow> getEventType e = STOP \<Longrightarrow> \<not> wk_running w' \<and> \<not> wk_consuming w'"
  by (auto simp: messageAvailable_def emit_def)

section \<open>The invariant\<close>

text \<open>A worker and the events its queue has delivered.\<close>

definition served :: "('w, 'r) worker \<Rightarrow> 'd event list \<Rightarrow> bool" where
  "served w es \<longleftrightarrow> length (sent (wk_effects w)) \<le> deliveries SEND_REQUEST es \<and>
     (wk_consuming w \<or> \<not> wk_running w) \<and>
     (0 < deliveries STOP es \<longrightarrow> \<not> wk_running w \<and> \<not> wk_consuming w)"

lemma served_message:
  assumes "served w es" "messageAvailable E e w = Inr w'" "wk_consuming w"
  shows "served w' (es @ [e])"
proof -
  have "wk_consuming w' \<or> \<not> wk_running w'"
    using worker_step_consuming [OF worker_step.message [OF assms(3,2)]] assms(3) by blast
  then show ?thesis
    using assms(1,3) messageAvailable_count [OF assms(2)] messageAvailable_stop [OF assms(2)]
    by (auto simp: served_def)
qed

lemma served_reply:
  "reply E j t w = Inr w' \<Longrightarrow> served w es \<Longrightarrow> served w' es"
  by (auto simp: served_def dest: reply_keeps reply_handle)

lemma served_stop: "served w es \<Longrightarrow> served (worker_stop w) es"
  by (auto simp: served_def worker_stop_def emit_def)

lemma worker_started_sent: "worker_started E H M w \<Longrightarrow> sent (wk_effects w) = []"
proof -
  assume "worker_started E H M w"
  then obtain F ready b id n c m wl cpu w0 sm sm' where sm: "manager_wf sm"
    and run: "worker_run F ready (Worker8 b id n c m wl cpu) = Some (Inr w0)"
    and loop: "senderLoop E H M w0 sm = Inr (w, sm')"
    by (auto simp: worker_started_def)
  show ?thesis
    by (rule senderLoop_stats [OF loop sm])
      (simp add: worker_run_eq [OF run] Worker8_def setWorkerCounter_def emit_def no_account_silent)
qed

definition load_inv :: "('q, 'd, 'w, 'r) load_system \<Rightarrow> bool" where
  "load_inv x \<longleftrightarrow> sched_inv (ld_sys x) \<and>
     length (ld_workers x) = length (sch_queues (sys_sched (ld_sys x))) \<and>
     (\<forall>i<length (ld_workers x). served (ld_workers x ! i) (sys_delivered (ld_sys x) ! i))"

lemma load_inv_init: "load_init F S E H M x \<Longrightarrow> load_inv x"
proof -
  assume i: "load_init F S E H M x"
  then have s: "sched_init F S (ld_sys x)" by (simp add: load_init_def)
  have "sys_delivered (ld_sys x) ! i = []" if "i < length (sch_queues (sys_sched (ld_sys x)))" for i
    using s that by (auto simp: sched_init_def Scheduler4_def)
  then show ?thesis
    using i sched.initial_inv [OF s] worker_started_sent worker_started_consuming
    by (fastforce simp: load_inv_def load_init_def served_def deliveries_def)
qed

lemma load_inv_step:
  assumes "load_inv x" "load_step F S E x y"
  shows "load_inv y"
proof -
  have "sched_inv (ld_sys y)"
    using assms(1) sched.steps_inv [OF load_step_sched [OF assms(2)]] by (simp add: load_inv_def)
  from assms(2,1) this show ?thesis
  proof (induction rule: load_step.induct)
    case (scheduler_side x y)
    then have "length (sch_queues (sys_sched y)) = length (sch_queues (sys_sched (ld_sys x)))"
      by (simp add: load_inv_def sched_inv_def)
    then show ?case using scheduler_side by (simp add: load_inv_def)
  next
    case (worker_message i x e q' w')
    then have "i < length (sys_delivered (ld_sys x))" by (simp add: load_inv_def sched_inv_def)
    then show ?case
      using worker_message served_message [OF _ worker_message(5,3)]
      by (auto simp: load_inv_def nth_list_update append_at_nth)
  next
    case (worker_reply i x j t w')
    then show ?case by (auto simp: load_inv_def nth_list_update served_reply)
  next
    case (worker_stopped i x)
    then show ?case by (auto simp: load_inv_def nth_list_update served_stop)
  qed
qed

interpretation load: step_invariant "load_init F S E H M" "load_step F S E" load_inv for F S E H M
  by unfold_locales (auto intro: load_inv_init load_inv_step)

section \<open>A run for the concrete instances\<close>

lemma load_steps_of_loop_steps:
  assumes "loop_steps S k (pc, l, s) = Inr (pc', l', s')" "sys_thread (ld_sys x) = Some (pc, l)" "sys_sched (ld_sys x) = s"
  shows "\<exists>y. (load_step F S E)\<^sup>*\<^sup>* x y \<and> sys_thread (ld_sys y) = Some (pc', l') \<and> sys_sched (ld_sys y) = s' \<and>
    ld_workers y = ld_workers x"
  using assms
proof (induction k arbitrary: pc l s x)
  case 0
  then show ?case by auto
next
  case (Suc k)
  then obtain pc1 l1 s1 where one: "loop_step S (pc, l, sys_sched (ld_sys x)) = Inr (pc1, l1, s1)"
    and rest: "loop_steps S k (pc1, l1, s1) = Inr (pc', l', s')"
    by (auto simp: res_bind_eq_Inr)
  let ?y = "(ld_sys x)\<lparr>sys_thread := Some (pc1, l1), sys_sched := s1,
      sys_put := record_put (thread_put S pc (sys_sched (ld_sys x))) (sys_put (ld_sys x))\<rparr>"
  have "load_step F S E x (x\<lparr>ld_sys := ?y\<rparr>)"
    by (rule load_step.scheduler_side) (use sched_step.thread [OF Suc.prems(2) one] in auto)
  moreover obtain y where "(load_step F S E)\<^sup>*\<^sup>* (x\<lparr>ld_sys := ?y\<rparr>) y" "sys_thread (ld_sys y) = Some (pc', l')"
    "sys_sched (ld_sys y) = s'" "ld_workers y = ld_workers x"
    using Suc.IH [of pc1 l1 s1 "x\<lparr>ld_sys := ?y\<rparr>"] rest by auto
  ultimately show ?case by (auto intro: converse_rtranclp_into_rtranclp)
qed

lemma fresh_load:
  "\<exists>x :: (dynamic_value event list, dynamic_value, workload_base, sleep_request) load_system.
     load_init default_flags idle_env sleep_env list_histogram bounded_alist_ops x \<and> ld_sys x = fresh_sys \<and>
     length (ld_workers x) = 2"
proof -
  obtain w :: "(workload_base, sleep_request) worker" where "worker_started sleep_env list_histogram bounded_alist_ops w"
    using started_worker by blast
  then have "load_init default_flags idle_env sleep_env list_histogram bounded_alist_ops \<lparr>ld_sys = fresh_sys, ld_workers = [w, w]\<rparr>"
    using fresh_sys_init by (simp add: load_init_def) (simp add: fresh_sys_def Scheduler4_def)
  then show ?thesis by (intro exI [of _ "\<lparr>ld_sys = fresh_sys, ld_workers = [w, w]\<rparr>"]) simp
qed

text \<open>The thread starts, is stopped before its first request, and ends; no worker has taken a message.\<close>

definition started_sys :: "(dynamic_value event list, dynamic_value) sched_sys" where
  "started_sys = fresh_sys\<lparr>sys_thread := Some (Loop_reset 0, initial_locals),
     sys_sched := (sys_sched fresh_sys)\<lparr>sch_thread := Joinable, sch_future_retrieved := True\<rparr>\<rparr>"

lemma fresh_load_started:
  assumes "ld_sys x = fresh_sys"
  shows "load_step default_flags idle_env E x (x\<lparr>ld_sys := started_sys\<rparr>)"
  unfolding started_sys_def assms [symmetric]
  by (rule load_step.scheduler_side, rule sched_step.run_call)
    (simp_all add: assms fresh_sys_def run_def Scheduler4_def)

lemma started_load_stopped:
  assumes "ld_sys x = started_sys"
  shows "\<exists>y. (load_step default_flags idle_env E)\<^sup>*\<^sup>* x y \<and> sch_promise_fulfilled (sys_sched (ld_sys y)) \<and>
    sch_queues (sys_sched (ld_sys y)) =
      replicate 2 [Event_of dynamic_value_ops RESET, Event_of dynamic_value_ops STOP] \<and> ld_workers y = ld_workers x \<and>
    sch_thread (sys_sched (ld_sys y)) = Joinable"
proof -
  let ?step = "load_step default_flags idle_env E"
  let ?s = "sys_sched started_sys"
  let ?t = "(messageAllWorkers (env_queue idle_env) (Event_of (env_dynamic idle_env) RESET) ?s)\<lparr>sch_next := 0\<rparr>"
  have "1 \<le> getRps ?s" by (simp add: started_sys_def fresh_sys_def getRps_def Scheduler4_def uint32_to_int32_def int_range)
  from loop_steps_startup [OF this idle_env_contracts(1,2), of initial_locals]
  obtain l where "loop_steps idle_env (length (sch_queues ?s) + 2) (Loop_reset 0, initial_locals, ?s) =
      Inr (Loop_while, l, ?t)" ..
  from load_steps_of_loop_steps [OF this, of x default_flags E]
  obtain x2 where 2: "?step\<^sup>*\<^sup>* x x2" "sys_thread (ld_sys x2) = Some (Loop_while, l)" "sys_sched (ld_sys x2) = ?t"
    "ld_workers x2 = ld_workers x" using assms by (auto simp: started_sys_def)
  let ?x3 = "x2\<lparr>ld_sys := (ld_sys x2)\<lparr>sys_sched := stop (sys_sched (ld_sys x2))\<rparr>\<rparr>"
  have 3: "?step x2 ?x3" by (rule load_step.scheduler_side, rule sched_step.stop_call) simp
  have s3: "sch_state (stop ?t) = STOPPING" "\<not> sch_promise_fulfilled (stop ?t)"
    by (simp_all add: stop_def started_sys_def fresh_sys_def Scheduler4_def messageAllWorkers_eq)
  from load_steps_of_loop_steps [OF loop_steps_shutdown [OF s3, of idle_env l], of ?x3 default_flags E]
  obtain y where 4: "?step\<^sup>*\<^sup>* ?x3 y" "ld_workers y = ld_workers x"
    "sys_sched (ld_sys y) = (messageAllWorkers (env_queue idle_env) (Event_of (env_dynamic idle_env) STOP) (stop ?t))
       \<lparr>sch_promise_fulfilled := True\<rparr>" using 2 by auto
  have "?step\<^sup>*\<^sup>* x y" using 2(1) 3 4(1) by (meson converse_rtranclp_into_rtranclp rtranclp_trans)
  moreover have "sch_queues ?s = replicate 2 []" "sch_thread ?s = Joinable"
    by (simp_all add: started_sys_def fresh_sys_def Scheduler4_def)
  ultimately show ?thesis using 4(2,3)
    by (intro exI [of _ y]) (simp add: messageAllWorkers_eq stop_def idle_env_def)
qed

lemma fresh_load_stopped:
  assumes "ld_sys x = fresh_sys"
  shows "\<exists>y. (load_step default_flags idle_env E)\<^sup>*\<^sup>* x y \<and> sch_promise_fulfilled (sys_sched (ld_sys y)) \<and>
    sch_queues (sys_sched (ld_sys y)) =
      replicate 2 [Event_of dynamic_value_ops RESET, Event_of dynamic_value_ops STOP] \<and> ld_workers y = ld_workers x"
  using fresh_load_started [OF assms, of E] started_load_stopped [of "x\<lparr>ld_sys := started_sys\<rparr>" E]
  by (auto intro: converse_rtranclp_into_rtranclp)

section \<open>Properties\<close>

text \<open>
  C9. No request without a turn. In every reachable state of the scheduler with its workers, for every
  worker the requests it has sent and the SEND_REQUEST messages still waiting in its queue are together
  at most those the scheduler put there: no worker sends a request it was not given, and none sends
  one twice.
\<close>

theorem load_requests_dealt:
  assumes "notification_queue (env_queue S) msgs" "load_init F S E H M x" "(load_step F S E)\<^sup>*\<^sup>* x y"
    and "i < length (ld_workers y)"
  shows "length (sent (wk_effects (ld_workers y ! i))) +
      deliveries SEND_REQUEST (msgs (sch_queues (sys_sched (ld_sys y)) ! i)) \<le>
    deliveries SEND_REQUEST (sys_put (ld_sys y) ! i)"
proof -
  have inv: "load_inv y" by (rule load.reachable_inv [OF assms(2,3)])
  have q: "event_queue (env_queue S) msgs" using assms(1) by (simp add: event_queue_def)
  have "sched_init F S (ld_sys x)" using assms(2) by (simp add: load_init_def)
  then have "histories_agree msgs (ld_sys y)"
    by (rule event_queue.histories_agree_reachable [OF q _ load_steps_sched [OF assms(3)] refl])
  then have "sys_put (ld_sys y) ! i = sys_delivered (ld_sys y) ! i @ msgs (sch_queues (sys_sched (ld_sys y)) ! i)"
    using inv assms(4) by (simp add: histories_agree_def load_inv_def)
  then show ?thesis using inv assms(4) by (simp add: load_inv_def served_def)
qed

theorem load_requests_dealt_witness:
  "\<exists>(x :: (dynamic_value event list, dynamic_value, workload_base, sleep_request) load_system) y.
     load_init default_flags idle_env sleep_env list_histogram bounded_alist_ops x \<and>
     (load_step default_flags idle_env sleep_env)\<^sup>*\<^sup>* x y \<and> sch_promise_fulfilled (sys_sched (ld_sys y)) \<and>
     length (sent (wk_effects (ld_workers y ! 1))) \<le> deliveries SEND_REQUEST (sys_put (ld_sys y) ! 1)"
proof -
  obtain x :: "(dynamic_value event list, dynamic_value, workload_base, sleep_request) load_system" where
    x: "load_init default_flags idle_env sleep_env list_histogram bounded_alist_ops x" "ld_sys x = fresh_sys"
      "length (ld_workers x) = 2"
    using fresh_load by blast
  obtain y where y: "(load_step default_flags idle_env sleep_env)\<^sup>*\<^sup>* x y" "sch_promise_fulfilled (sys_sched (ld_sys y))"
    "ld_workers y = ld_workers x"
    using fresh_load_stopped [OF x(2)] by blast
  have q: "notification_queue (env_queue idle_env) (\<lambda>q. q)"
    using lq.notification_queue_axioms by (simp add: idle_env_contracts)
  have "1 < length (ld_workers y)" using x(3) y(3) by simp
  from load_requests_dealt [OF q x(1) y(1) this] show ?thesis using x(1) y(1,2) by fastforce
qed

text \<open>
  C8. The end of a run. In every reachable state in which the scheduler's promise is fulfilled, a worker
  that has emptied its queue or no longer consumes it does not run, sends nothing more in any
  continuation of the system, and has more work exactly as long as one of its replies is missing.
\<close>

theorem load_ends:
  assumes "notification_queue (env_queue S) msgs" "load_init F S E H M x" "(load_step F S E)\<^sup>*\<^sup>* x y"
    and "sch_promise_fulfilled (sys_sched (ld_sys y))" "i < length (ld_workers y)"
    and "msgs (sch_queues (sys_sched (ld_sys y)) ! i) = [] \<or> \<not> wk_consuming (ld_workers y ! i)"
    and "(load_step F S E)\<^sup>*\<^sup>* y z"
  shows "\<not> wk_running (ld_workers z ! i) \<and>
    sent (wk_effects (ld_workers z ! i)) = sent (wk_effects (ld_workers y ! i)) \<and>
    (hasMoreWork (ld_workers z ! i) \<longleftrightarrow> wk_in_flight (ld_workers z ! i) \<noteq> [])"
proof -
  have inv: "load_inv y" by (rule load.reachable_inv [OF assms(2,3)])
  have q: "event_queue (env_queue S) msgs" using assms(1) by (simp add: event_queue_def)
  have s: "sched_init F S (ld_sys x)" "(sched_step F S)\<^sup>*\<^sup>* (ld_sys x) (ld_sys y)"
    using assms(2) load_steps_sched [OF assms(3)] by (simp_all add: load_init_def)
  have agree: "histories_agree msgs (ld_sys y)"
    by (rule event_queue.histories_agree_reachable [OF q s refl])
  have i: "i < length (sch_queues (sys_sched (ld_sys y)))" using inv assms(5) by (simp add: load_inv_def)
  have "phase_inv Loop_exit (length (sch_queues (sys_sched (ld_sys y)))) (unat (sch_next (sys_sched (ld_sys y)))) (history (ld_sys y))"
    using sched.reachable_inv [OF s] assms(4) by (auto simp: sched_inv_def)
  then have "STOP \<in> set (history (ld_sys y) i)" using i by (fastforce simp: stopped_once_def)
  then have "0 < deliveries STOP (sys_put (ld_sys y) ! i)"
    by (force simp: history_def deliveries_def filter_empty_conv)
  then have "\<not> wk_running (ld_workers y ! i)"
    using assms(5,6) inv agree i by (auto simp: load_inv_def served_def histories_agree_def)
  moreover have "(worker_step E)\<^sup>*\<^sup>* (ld_workers y ! i) (ld_workers z ! i)"
    using load_steps_worker [OF assms(7)] assms(5) by blast
  moreover have "worker_inv (ld_workers z ! i)"
  proof -
    have all: "length (ld_workers z) = length (ld_workers x)"
      "\<forall>i<length (ld_workers x). (worker_step E)\<^sup>*\<^sup>* (ld_workers x ! i) (ld_workers z ! i)"
      using load_steps_worker [OF rtranclp_trans [OF assms(3,7)]] by blast+
    moreover have "i < length (ld_workers x)" using assms(5) load_steps_worker [OF assms(3)] by simp
    moreover have "worker_started E H M (ld_workers x ! i)" using assms(2) calculation(3) by (simp add: load_init_def)
    ultimately show ?thesis using wrk.reachable_inv by blast
  qed
  ultimately show ?thesis
    using stopped_steps [of E "ld_workers y ! i" "ld_workers z ! i"] by (auto simp: hasMoreWork_def worker_inv_def)
qed

theorem load_ends_witness:
  "\<exists>(x :: (dynamic_value event list, dynamic_value, workload_base, sleep_request) load_system) y.
     load_init default_flags idle_env sleep_env list_histogram bounded_alist_ops x \<and>
     (load_step default_flags idle_env sleep_env)\<^sup>*\<^sup>* x y \<and> sch_promise_fulfilled (sys_sched (ld_sys y)) \<and>
     \<not> wk_running (ld_workers y ! 0) \<and> (hasMoreWork (ld_workers y ! 0) \<longleftrightarrow> wk_in_flight (ld_workers y ! 0) \<noteq> [])"
proof -
  let ?step = "load_step default_flags idle_env sleep_env"
  obtain x :: "(dynamic_value event list, dynamic_value, workload_base, sleep_request) load_system" where
    x: "load_init default_flags idle_env sleep_env list_histogram bounded_alist_ops x" "ld_sys x = fresh_sys"
      "length (ld_workers x) = 2"
    using fresh_load by blast
  obtain y where y: "?step\<^sup>*\<^sup>* x y" "sch_promise_fulfilled (sys_sched (ld_sys y))" "ld_workers y = ld_workers x"
    "sch_queues (sys_sched (ld_sys y)) = replicate 2 [Event_of dynamic_value_ops RESET, Event_of dynamic_value_ops STOP]"
    using fresh_load_stopped [OF x(2)] by blast
  let ?w = "worker_stop (ld_workers y ! 0)"
  let ?y1 = "y\<lparr>ld_workers := (ld_workers y)[0 := ?w]\<rparr>"
  have 1: "?step y ?y1" by (rule load_step.worker_stopped) (simp add: x(3) y(3))
  have "worker_started sleep_env list_histogram bounded_alist_ops (ld_workers x ! 0)"
    using x by (simp add: load_init_def)
  then have c: "wk_consuming (ld_workers ?y1 ! 0)"
    using worker_started_consuming x(3) y(3) by (fastforce simp: worker_stop_def)
  have m: "messageAvailable sleep_env (Event_of dynamic_value_ops RESET) (ld_workers ?y1 ! 0) =
      Inr (emit Stop_consuming (?w\<lparr>wk_consuming := False, wk_running := False\<rparr>))"
    using x(3) y(3) by (simp add: messageAvailable_def worker_stop_def emit_def)
  have q: "q_consume (env_queue idle_env) (sch_queues (sys_sched (ld_sys ?y1)) ! 0) =
      Some (Event_of dynamic_value_ops RESET, [Event_of dynamic_value_ops STOP])"
    by (simp add: y(4) idle_env_contracts)
  obtain z where 2: "?step ?y1 z" "sch_promise_fulfilled (sys_sched (ld_sys z))" "length (ld_workers z) = 2"
    "\<not> wk_consuming (ld_workers z ! 0)"
    using load_step.worker_message [OF _ _ c q m] x(3) y(2-4) by fastforce
  have xz: "?step\<^sup>*\<^sup>* x z" using y(1) 1 2(1) by (meson rtranclp.rtrancl_into_rtrancl)
  have "notification_queue (env_queue idle_env) (\<lambda>q. q)"
    using lq.notification_queue_axioms by (simp add: idle_env_contracts)
  from load_ends [OF this x(1) xz 2(2) _ _ rtranclp.rtrancl_refl, of 0]
  show ?thesis using x(1) xz 2(2-4) by auto
qed

end
