(* ===== verification/Load_Refinement.thy ===== *)
theory Load_Refinement
  imports Load_System
begin

text \<open>
  The runner and the load system. While the main thread waits in \<open>run\<close>, the scheduler and the workers
  run as the system of \<open>Load_System\<close>. The state of the process has the scheduler and the workers among its
  fields; every execution of the load system in which the main thread's own calls \<open>run\<close> and \<open>join\<close> do
  not occur is an execution of the runner's other threads, so what is proved of the runner for any
  behaviour of the other threads holds with the load system in their place.
\<close>

section \<open>The load system inside the process\<close>

definition process_of ::
  "('q, 'w, 'r, 'j, 'h, 'm, 's) process \<Rightarrow> ('q, 'd, 'w, 'r) load_system \<Rightarrow> ('q, 'w, 'r, 'j, 'h, 'm, 's) process" where
  "process_of p x = p\<lparr>rn_scheduler := sys_sched (ld_sys x), rn_workers := ld_workers x\<rparr>"

lemma process_of_simps [simp]:
  "rn_scheduler (process_of p x) = sys_sched (ld_sys x)" "rn_workers (process_of p x) = ld_workers x"
  "pr_statistics (process_of p x) = pr_statistics p" "pr_fb303 (process_of p x) = pr_fb303 p"
  by (simp_all add: process_of_def)

lemma process_of_sched:
  "process_of p (x\<lparr>ld_sys := y\<rparr>) = (process_of p x)\<lparr>rn_scheduler := sys_sched y\<rparr>"
  by (simp add: process_of_def)

lemma process_of_worker:
  "process_of p (x\<lparr>ld_workers := ws\<rparr>) = (process_of p x)\<lparr>rn_workers := ws\<rparr>"
  by (simp add: process_of_def)

text \<open>Steps of the load system that leave the scheduler's thread handle alone.\<close>

lemma load_step_background:
  assumes "load_step F (re_sched R) (re_worker R) x y"
    and "sch_thread (sys_sched (ld_sys y)) = sch_thread (sys_sched (ld_sys x))"
  shows "(background_step F R)\<^sup>*\<^sup>* (process_of p x) (process_of p y)"
  using assms(1)
proof (cases rule: load_step.cases)
  case (scheduler_side z)
  have "background_step F R (process_of p x) ((process_of p x)\<lparr>rn_scheduler := sys_sched z\<rparr>)"
    using scheduler_side assms(2) by (intro background_step.scheduler_side [where y = "ld_sys x"]) simp_all
  then show ?thesis using scheduler_side(1) process_of_sched by (metis r_into_rtranclp)
next
  case (worker_message i e q' w')
  let ?z = "(ld_sys x)\<lparr>sys_sched := (sys_sched (ld_sys x))\<lparr>sch_queues := (sch_queues (sys_sched (ld_sys x)))[i := q']\<rparr>,
      sys_delivered := append_at i e (sys_delivered (ld_sys x))\<rparr>"
  let ?p = "(process_of p x)\<lparr>rn_scheduler := sys_sched ?z\<rparr>"
  have take: "sched_step F (re_sched R) (ld_sys x) ?z" by (rule sched_step.consume [OF worker_message(3,5)])
  have 1: "background_step F R (process_of p x) ?p"
    by (rule background_step.scheduler_side [OF take]) simp_all
  have work: "worker_step (re_worker R) (rn_workers ?p ! i) w'"
    using worker_step.message [OF worker_message(4,6)] by simp
  have "background_step F R ?p (?p\<lparr>rn_workers := (rn_workers ?p)[i := w']\<rparr>)"
    by (rule background_step.worker_steps [OF _ work]) (use worker_message(2) in simp)
  moreover have "process_of p y = ?p\<lparr>rn_workers := (rn_workers ?p)[i := w']\<rparr>"
    by (simp add: worker_message(1) process_of_def)
  ultimately show ?thesis using 1 by (metis converse_rtranclp_into_rtranclp r_into_rtranclp)
next
  case (worker_reply i j t w')
  have "background_step F R (process_of p x) ((process_of p x)\<lparr>rn_workers := (rn_workers (process_of p x))[i := w']\<rparr>)"
    using worker_step.continuation [OF worker_reply(3)] worker_reply(2)
    by (intro background_step.worker_steps) simp_all
  then show ?thesis using worker_reply(1) by (simp add: process_of_worker)
next
  case (worker_stopped i)
  have "background_step F R (process_of p x)
      ((process_of p x)\<lparr>rn_workers := (rn_workers (process_of p x))[i := worker_stop (ld_workers x ! i)]\<rparr>)"
    using worker_step.stop_call [of "re_worker R" "ld_workers x ! i"] worker_stopped(2)
    by (intro background_step.worker_steps) simp_all
  then show ?thesis using worker_stopped(1) by (simp add: process_of_worker)
qed

section \<open>The handle of the scheduler's thread\<close>

text \<open>Once the thread has been started, its handle changes only when it is joined, and then for good.\<close>

lemma sched_step_handle:
  assumes "sched_step F S x y" "sys_thread x \<noteq> None"
  shows "sys_thread y \<noteq> None \<and> (sch_thread (sys_sched y) = Joinable \<longrightarrow> sch_thread (sys_sched x) = Joinable)"
  using assms
proof (cases rule: sched_step.cases)
  case (thread pc l pc' l' s')
  then show ?thesis using loop_step_handle [OF thread(3)] by simp
qed (auto simp: pause_def resume_def stop_def setRps_def join_def message_worker_def compare_exchange_strong_def
    Let_def split: if_splits thread_handle.splits)

lemma load_step_handle:
  assumes "load_step F S E x y" "sys_thread (ld_sys x) \<noteq> None"
  shows "sys_thread (ld_sys y) \<noteq> None \<and>
    (sch_thread (sys_sched (ld_sys y)) = Joinable \<longrightarrow> sch_thread (sys_sched (ld_sys x)) = Joinable)"
  using assms(1)
proof (cases rule: load_step.cases)
  case (scheduler_side z)
  then show ?thesis using sched_step_handle [OF scheduler_side(2) assms(2)] by simp
qed (use assms(2) in simp_all)

lemma load_steps_started:
  "(load_step F S E)\<^sup>*\<^sup>* x y \<Longrightarrow> sys_thread (ld_sys x) \<noteq> None \<Longrightarrow> sys_thread (ld_sys y) \<noteq> None"
  by (induction rule: rtranclp_induct) (use load_step_handle in blast)+

section \<open>Properties\<close>



end
