(* ===== verification/Scheduler_Stopping.thy ===== *)
theory Scheduler_Stopping
  imports Scheduler_Pacing
begin

text \<open>
  The end of the scheduler's thread, from wherever it is. \<open>stop()\<close> may arrive between any two accesses of
  \<open>loop()\<close>; the thread then finishes what it is doing (a broadcast, a wait, a request that is on its way),
  leaves the loop, puts STOP into the queues and fulfils the promise. \<open>join()\<close> therefore returns, and a stop
  is followed by at most one request.
\<close>

section \<open>What the thread still puts\<close>

text \<open>No queue gets another request, except that queue \<open>i\<close> may get one if \<open>r\<close> is \<open>Some i\<close>.\<close>

definition requests_added :: "('q \<Rightarrow> 'd event list) \<Rightarrow> nat option \<Rightarrow> 'q list \<Rightarrow> 'q list \<Rightarrow> bool" where
  "requests_added msgs r qs qs' \<longleftrightarrow> length qs' = length qs \<and>
     (\<forall>i<length qs. deliveries SEND_REQUEST (msgs (qs' ! i)) \<le>
        deliveries SEND_REQUEST (msgs (qs ! i)) + (if r = Some i then 1 else 0))"

lemma requests_added_refl [simp]: "requests_added msgs r qs qs"
  by (simp add: requests_added_def)

lemma requests_added_trans:
  "requests_added msgs None qs qs1 \<Longrightarrow> requests_added msgs r qs1 qs2 \<Longrightarrow> requests_added msgs r qs qs2"
  "requests_added msgs r qs qs1 \<Longrightarrow> requests_added msgs None qs1 qs2 \<Longrightarrow> requests_added msgs r qs qs2"
  unfolding requests_added_def by force+

lemma requests_added_mono: "requests_added msgs None qs qs' \<Longrightarrow> requests_added msgs r qs qs'"
  unfolding requests_added_def by force

text \<open>From \<open>x\<close> the thread ends on its own; the queues from \<open>j\<close> on end with a STOP.\<close>

definition ends_from :: "('q, 'd) sched_env \<Rightarrow> ('q \<Rightarrow> 'd event list) \<Rightarrow> nat option \<Rightarrow> nat \<Rightarrow> 'q loop_state \<Rightarrow> bool" where
  "ends_from E msgs r j x \<longleftrightarrow> (\<exists>k l' s'. loop_steps E k x = Inr (Loop_exit, l', s') \<and> sch_promise_fulfilled s' \<and>
     requests_added msgs r (sch_queues (snd (snd x))) (sch_queues s') \<and>
     (\<forall>i. j \<le> i \<and> i < length (sch_queues s') \<longrightarrow>
        (\<exists>es. msgs (sch_queues s' ! i) = es @ [Event_of (env_dynamic E) STOP])))"

lemma ends_after:
  assumes "ends_from E msgs r2 j (pc', l', t)" "loop_steps E k (pc, l, s) = Inr (pc', l', t)"
    and "requests_added msgs r1 (sch_queues s) (sch_queues t)"
    and "r1 = None \<and> r = r2 \<or> r2 = None \<and> r = r1"
  shows "ends_from E msgs r j (pc, l, s)"
proof -
  obtain k' l2 s2 where 2: "loop_steps E k' (pc', l', t) = Inr (Loop_exit, l2, s2)" "sch_promise_fulfilled s2"
    "requests_added msgs r2 (sch_queues t) (sch_queues s2)"
    "\<forall>i. j \<le> i \<and> i < length (sch_queues s2) \<longrightarrow> (\<exists>es. msgs (sch_queues s2 ! i) = es @ [Event_of (env_dynamic E) STOP])"
    using assms(1) by (auto simp: ends_from_def)
  have "loop_steps E (k + k') (pc, l, s) = Inr (Loop_exit, l2, s2)"
    by (simp add: loop_steps_add assms(2) 2(1))
  moreover have "requests_added msgs r (sch_queues s) (sch_queues s2)"
    using assms(3,4) 2(3) requests_added_trans by blast
  ultimately show ?thesis using 2(2,4) unfolding ends_from_def by (metis snd_conv)
qed

lemma ends_unasked:
  "ends_from E msgs r j (pc', l', t) \<Longrightarrow> loop_steps E k (pc, l, s) = Inr (pc', l', t) \<Longrightarrow>
     requests_added msgs None (sch_queues s) (sch_queues t) \<Longrightarrow> ends_from E msgs r j (pc, l, s)"
  by (erule (2) ends_after) simp

lemma ends_quietly:
  assumes "ends_from E msgs r j (pc', l', t)" "loop_steps E k (pc, l, s) = Inr (pc', l', t)" "sch_queues t = sch_queues s"
  shows "ends_from E msgs r j (pc, l, s)"
  by (rule ends_unasked [OF assms(1,2)]) (simp add: assms(3))

lemma ends_mono: "ends_from E msgs None j x \<Longrightarrow> j \<le> j' \<Longrightarrow> ends_from E msgs r j' x"
  unfolding ends_from_def by (meson order_trans requests_added_mono)

section \<open>Broadcasts from the middle\<close>

lemma broadcast_from:
  assumes "j \<le> m" "m \<le> length (sch_queues s)"
  shows "length (sch_queues (fold (message_worker Q e) [j..<m] s)) = length (sch_queues s) \<and>
    sch_state (fold (message_worker Q e) [j..<m] s) = sch_state s \<and>
    sch_rps (fold (message_worker Q e) [j..<m] s) = sch_rps s \<and>
    sch_promise_fulfilled (fold (message_worker Q e) [j..<m] s) = sch_promise_fulfilled s \<and>
    (\<forall>i<length (sch_queues s). sch_queues (fold (message_worker Q e) [j..<m] s) ! i =
       (if j \<le> i \<and> i < m then q_putMessage Q e (sch_queues s ! i) else sch_queues s ! i))"
  using assms by (induction rule: dec_induct) (auto simp: message_worker_nth)

lemma broadcast_added:
  assumes "notification_queue Q msgs" "j \<le> length (sch_queues s)" "getEventType e \<noteq> SEND_REQUEST"
  shows "requests_added msgs None (sch_queues s)
    (sch_queues (fold (message_worker Q e) [j..<length (sch_queues s)] s))"
  using broadcast_from [OF assms(2) le_refl, of Q e] assms(3) notification_queue.msgs_put [OF assms(1)]
  by (simp add: requests_added_def)

lemma ends_from_stop:
  assumes "notification_queue (env_queue E) msgs" "j \<le> length (sch_queues s)" "\<not> sch_promise_fulfilled s"
  shows "ends_from E msgs None j (Loop_stop j, l, s)"
proof -
  let ?n = "length (sch_queues s)"
  let ?t = "fold (message_worker (env_queue E) (Event_of (env_dynamic E) STOP)) [j..<?n] s"
  note t = broadcast_from [OF assms(2) le_refl, of "env_queue E" "Event_of (env_dynamic E) STOP"]
  have "loop_steps E (?n - j) (Loop_stop j, l, s) = Inr (Loop_stop ?n, l, ?t)"
    by (rule loop_steps_broadcast) (simp_all add: step_stop_def assms(2))
  moreover have "loop_steps E 2 (Loop_stop ?n, l, ?t) = Inr (Loop_exit, l, ?t\<lparr>sch_promise_fulfilled := True\<rparr>)"
    using t assms(3) by (simp add: numeral_2_eq_2 step_stop_def step_promise_def)
  ultimately have "loop_steps E (?n - j + 2) (Loop_stop j, l, s) = Inr (Loop_exit, l, ?t\<lparr>sch_promise_fulfilled := True\<rparr>)"
    unfolding loop_steps_add by simp
  moreover have "requests_added msgs None (sch_queues s) (sch_queues ?t)"
    by (rule broadcast_added [OF assms(1,2)]) simp
  ultimately show ?thesis
    using t notification_queue.msgs_put [OF assms(1)] unfolding ends_from_def
    by (intro exI [of _ "?n - j + 2"] exI [of _ l] exI [of _ "?t\<lparr>sch_promise_fulfilled := True\<rparr>"]) simp
qed

section \<open>From every point of the loop\<close>

text \<open>The state of the object in which a stop finds it.\<close>

definition told_to_stop :: "'q scheduler \<Rightarrow> bool" where
  "told_to_stop s \<longleftrightarrow> sch_state s = STOPPING \<and> \<not> sch_promise_fulfilled s \<and> sched_wf s \<and> 1 \<le> getRps s"

lemma ends_step:
  "loop_step E (pc, l, s) = Inr (pc', l', t) \<Longrightarrow> ends_from E msgs r j (pc', l', t) \<Longrightarrow> sch_queues t = sch_queues s \<Longrightarrow>
     ends_from E msgs r j (pc, l, s)"
  by (rule ends_quietly [where k = 1 and pc' = pc' and l' = l' and t = t]) simp_all

lemma ends_from_while:
  assumes "notification_queue (env_queue E) msgs" "sch_state s = STOPPING" "\<not> sch_promise_fulfilled s"
  shows "ends_from E msgs None 0 (Loop_test, l, s)" "ends_from E msgs None 0 (Loop_paused, l, s)"
    "ends_from E msgs None 0 (Loop_while, l, s)"
proof -
  show test: "ends_from E msgs None 0 (Loop_test, l, s)"
    by (rule ends_step [OF _ ends_from_stop [OF assms(1) _ assms(3)]]) (simp_all add: assms(2))
  show paused: "ends_from E msgs None 0 (Loop_paused, l, s)"
    by (rule ends_step [OF _ test]) (simp_all add: assms(2) step_paused_def)
  show "ends_from E msgs None 0 (Loop_while, l, s)"
    by (rule ends_step [OF _ paused]) (simp_all add: assms(2))
qed

lemma ends_from_rps:
  assumes "notification_queue (env_queue E) msgs" "sch_state s = STOPPING" "\<not> sch_promise_fulfilled s" "1 \<le> getRps s"
  shows "ends_from E msgs None 0 (Loop_rps, l, s)"
proof -
  obtain l' where "loop_step E (Loop_rps, l, s) = Inr (Loop_while, l', s)" using loop_step_rps [OF assms(4)] by blast
  then show ?thesis by (rule ends_step [OF _ ends_from_while(3) [OF assms(1-3)]]) simp
qed

lemma ends_from_send:
  assumes "notification_queue (env_queue E) msgs" "told_to_stop s"
  shows "ends_from E msgs None 0 (Loop_next, l, s)" "ends_from E msgs None 0 (Loop_log, l, s)"
    "ends_from E msgs (Some (unat (sch_next s))) 0 (Loop_put, l, s)"
proof -
  have next_worker: "ends_from E msgs None 0 (Loop_next, l, t)"
    if "sch_state t = STOPPING" "\<not> sch_promise_fulfilled t" "1 \<le> getRps t" for t
  proof -
    let ?n = "if unat (sch_next t + 1) = length (sch_queues t) then 0 else sch_next t + 1"
    have "loop_step E (Loop_next, l, t) = Inr (Loop_rps, l, t\<lparr>sch_next := ?n\<rparr>)" by (simp add: step_next_def Let_def)
    then show ?thesis by (rule ends_step [OF _ ends_from_rps [OF assms(1)]]) (use that in \<open>simp_all add: getRps_def\<close>)
  qed
  have log: "ends_from E msgs None 0 (Loop_log, l, t)" if "told_to_stop t" for t
  proof (rule ends_step [OF _ next_worker])
    show "loop_step E (Loop_log, l, t) = Inr (Loop_next, l, overload_check E t)"
      using that by (simp add: told_to_stop_def sched_wf_def step_log_def overload_check_def Let_def)
  qed (use that in \<open>simp_all add: told_to_stop_def getRps_def overload_check_def Let_def\<close>)
  show "ends_from E msgs None 0 (Loop_next, l, s)" "ends_from E msgs None 0 (Loop_log, l, s)"
    using assms(2) by (auto intro: next_worker log simp: told_to_stop_def)
  let ?t = "message_worker (env_queue E) (Event_of (env_dynamic E) SEND_REQUEST) (unat (sch_next s)) s"
  have put: "loop_steps E 1 (Loop_put, l, s) = Inr (Loop_log, l, ?t)"
    using assms(2) by (simp add: told_to_stop_def sched_wf_def step_put_def)
  have one: "requests_added msgs (Some (unat (sch_next s))) (sch_queues s) (sch_queues ?t)"
    using notification_queue.msgs_put [OF assms(1)]
    by (simp add: requests_added_def message_worker_nth)
  have "told_to_stop ?t" using assms(2) by (simp add: told_to_stop_def sched_wf_def getRps_def)
  then show "ends_from E msgs (Some (unat (sch_next s))) 0 (Loop_put, l, s)"
    by (rule ends_after [OF log put one]) simp
qed

text \<open>
  What the clock and the draws have to do for the thread to get on: a wait that has begun, or is about
  to, ends, and no difference of times overflows. \<open>c t\<close> is the \<open>t\<close>-th reading of the clock.
\<close>

definition timed :: "(nat \<Rightarrow> int) \<Rightarrow> loop_pc \<Rightarrow> loop_locals \<Rightarrow> bool" where
  "timed c pc l = (case pc of
     Loop_body \<Rightarrow> 0 \<le> lp_a l \<and> lp_a l \<le> c (lp_ticks l) \<and> \<bar>lp_budget l\<bar> \<le> 2 ^ 50 \<and>
       (\<forall>t. c t \<le> last_send l (c (lp_ticks l)) + 2 ^ 50) \<and>
       (\<exists>k. wait_ends c (lp_ticks l + 2) (c (lp_ticks l + 1)) (max (budget_at l (c (lp_ticks l))) 0) k)
   | Loop_wait start ns \<Rightarrow> \<bar>lp_budget l\<bar> \<le> 2 ^ 51 \<and> (\<exists>t0\<le>lp_ticks l. lp_b l = c t0) \<and> (\<forall>t. c t \<le> lp_b l + 2 ^ 51) \<and>
       (\<exists>t0. start = c t0) \<and> (\<exists>k. wait_ends c (lp_ticks l) start ns k)
   | Loop_woken \<Rightarrow> \<bar>lp_budget l\<bar> \<le> 2 ^ 51 \<and> (\<exists>t0\<le>lp_ticks l. lp_b l = c t0) \<and> (\<forall>t. c t \<le> lp_b l + 2 ^ 51)
   | Loop_paused_wait start \<Rightarrow> (\<exists>t0. start = c t0) \<and> (\<exists>k. wait_ends c (lp_ticks l) start 1000 k)
   | _ \<Rightarrow> True)"

text \<open>The environment: a monotonic clock, a sane logarithm, uniform draws.\<close>

definition paced_env :: "('q, 'd) sched_env \<Rightarrow> (nat \<Rightarrow> int) \<Rightarrow> bool" where
  "paced_env E c \<longleftrightarrow> clock_reads (env_clock E) c \<and> log_contract (env_log E) \<and> (\<forall>n. unit_draw (env_draw E n))"

lemma ends_from_wait:
  assumes "notification_queue (env_queue E) msgs" "told_to_stop s" "paced_env E c"
    and "0 \<le> lp_interval_ns l" "lp_interval_ns l \<le> k_ns_per_s"
  shows "timed c Loop_woken l \<Longrightarrow> ends_from E msgs (Some (unat (sch_next s))) 0 (Loop_woken, l, s)"
    "timed c (Loop_wait start ns) l \<Longrightarrow> ends_from E msgs (Some (unat (sch_next s))) 0 (Loop_wait start ns, l, s)"
    "timed c Loop_body l \<Longrightarrow> ends_from E msgs (Some (unat (sch_next s))) 0 (Loop_body, l, s)"
proof -
  note env = assms(3) [unfolded paced_env_def]
  have woken: "ends_from E msgs (Some (unat (sch_next s))) 0 (Loop_woken, v, s)"
    if "timed c Loop_woken v" "lp_interval_ns v = lp_interval_ns l" for v
  proof -
    note interval = that(2)
    have "\<exists>t0\<le>lp_ticks v. lp_b v = c t0" using that(1) by (simp add: timed_def)
    then obtain t0 where "lp_b v = c t0" "t0 \<le> lp_ticks v" by blast
    moreover have "\<bar>lp_budget v\<bar> \<le> 2 ^ 51" "c (lp_ticks v) \<le> lp_b v + 2 ^ 51" using that(1) by (simp_all add: timed_def)
    ultimately obtain v' where "loop_step E (Loop_woken, v, s) = Inr (Loop_put, v', s)"
      using env assms(4,5) interval loop_step_woken [of E c v t0 s] by auto
    then show ?thesis by (rule ends_step [OF _ ends_from_send(3) [OF assms(1,2)]]) simp
  qed
  then show "timed c Loop_woken l \<Longrightarrow> ends_from E msgs (Some (unat (sch_next s))) 0 (Loop_woken, l, s)" by simp
  show "ends_from E msgs (Some (unat (sch_next s))) 0 (Loop_wait start ns, l, s)" if timed: "timed c (Loop_wait start ns) l"
  proof -
    obtain t0 k where w: "start = c t0" "wait_ends c (lp_ticks l) start ns k" using timed by (auto simp: timed_def)
    have waited: "loop_steps E (Suc k) (Loop_wait start ns, l, s) = Inr (Loop_woken, l\<lparr>lp_ticks := lp_ticks l + k + 1\<rparr>, s)"
      using loop_steps_wait [of E c l t0 ns k s] env w by simp
    have "\<exists>t0\<le>lp_ticks l. lp_b l = c t0" using timed by (simp add: timed_def)
    then have "\<exists>t0\<le>lp_ticks l + k + 1. lp_b l = c t0" by (meson add.assoc trans_le_add1)
    then have "timed c Loop_woken (l\<lparr>lp_ticks := lp_ticks l + k + 1\<rparr>)" using timed by (simp add: timed_def)
    then show ?thesis by (rule ends_quietly [OF woken waited]) simp_all
  qed
  show "ends_from E msgs (Some (unat (sch_next s))) 0 (Loop_body, l, s)" if timed: "timed c Loop_body l"
  proof -
    let ?t = "lp_ticks l"
    have a: "0 \<le> lp_a l" "lp_a l \<le> c ?t" "\<bar>lp_budget l\<bar> \<le> 2 ^ 50" "\<And>t. c t \<le> last_send l (c ?t) + 2 ^ 50"
      using timed by (auto simp: timed_def)
    obtain k where k: "wait_ends c (?t + 2) (c (?t + 1)) (max (budget_at l (c ?t)) 0) k"
      using timed by (auto simp: timed_def)
    let ?l = "l\<lparr>lp_b := c ?t, lp_budget := budget_at l (c ?t), lp_ticks := ?t + k + 3\<rparr>"
    have body: "loop_steps E (k + 2) (Loop_body, l, s) = Inr (Loop_woken, ?l, s)"
      using loop_steps_body [OF _ a(1-3) k] env by blast
    have "\<bar>budget_at l (c ?t)\<bar> \<le> 2 ^ 51" using a by (intro budget_at_bound)
    moreover have "c t \<le> c ?t + 2 ^ 51" for t
      using a(2) a(4) [of t] by (auto simp: last_send_def split: if_splits)
    ultimately have "timed c Loop_woken ?l" by (auto simp: timed_def intro!: exI [of _ ?t])
    then show ?thesis by (intro ends_quietly [OF woken body]) simp_all
  qed
qed

lemma loop_steps_paused_wait:
  assumes "clock_reads (env_clock E) c" "wait_ends c (lp_ticks l) (c t0) 1000 k"
  shows "loop_steps E (Suc k) (Loop_paused_wait (c t0), l, s) =
    Inr (Loop_paused, l\<lparr>lp_ticks := lp_ticks l + k + 1\<rparr>, s)"
  using assms(2)
proof (induction k arbitrary: l)
  case 0
  then show ?case using assms(1) by (simp add: wait_ends_def step_paused_wait_def waitNs_poll_reads)
next
  case (Suc k)
  let ?l = "l\<lparr>lp_ticks := lp_ticks l + 1\<rparr>"
  have first: "loop_step E (Loop_paused_wait (c t0), l, s) = Inr (Loop_paused_wait (c t0), ?l, s)"
    using Suc.prems assms(1) by (auto simp: wait_ends_def step_paused_wait_def waitNs_poll_reads)
  have "wait_ends c (lp_ticks ?l) (c t0) 1000 k"
    using Suc.prems unfolding wait_ends_def by (auto dest: spec [of _ "Suc _"])
  from Suc.IH [OF this] show ?case unfolding loop_steps.simps(2) [of E "Suc k"] first by simp
qed

lemma ends_from_paused_wait:
  assumes "notification_queue (env_queue E) msgs" "sch_state s = STOPPING" "\<not> sch_promise_fulfilled s"
    and "clock_reads (env_clock E) c" "timed c (Loop_paused_wait start) l"
  shows "ends_from E msgs None 0 (Loop_paused_wait start, l, s)"
proof -
  obtain t0 k where w: "start = c t0" "wait_ends c (lp_ticks l) (c t0) 1000 k" using assms(5) by (auto simp: timed_def)
  show ?thesis
    unfolding w(1) by (rule ends_quietly [OF ends_from_while(2) [OF assms(1-3)] loop_steps_paused_wait [OF assms(4) w(2)]]) simp
qed

lemma ends_from_start:
  assumes "notification_queue (env_queue E) msgs" "sch_state s = STOPPING" "\<not> sch_promise_fulfilled s" "1 \<le> getRps s"
    and "paced_env E c"
  shows "ends_from E msgs None 0 (Loop_init, l, s)"
    "j \<le> length (sch_queues s) \<Longrightarrow> ends_from E msgs None 0 (Loop_reset j, l, s)"
proof -
  have init: "ends_from E msgs None 0 (Loop_init, l, t)"
    if t: "sch_state t = STOPPING" "\<not> sch_promise_fulfilled t" "1 \<le> getRps t" for t
  proof -
    obtain l' where "loop_step E (Loop_init, l, t) = Inr (Loop_while, l', t\<lparr>sch_next := 0\<rparr>)"
      using loop_step_init [OF t(3)] assms(5) unfolding paced_env_def by blast
    then show ?thesis by (rule ends_step [OF _ ends_from_while(3) [OF assms(1)]]) (simp_all add: t)
  qed
  show "ends_from E msgs None 0 (Loop_init, l, s)" by (rule init [OF assms(2-4)])
  let ?n = "length (sch_queues s)"
  let ?t = "fold (message_worker (env_queue E) (Event_of (env_dynamic E) RESET)) [j..<?n] s"
  show "ends_from E msgs None 0 (Loop_reset j, l, s)" if j: "j \<le> ?n"
  proof -
    note t = broadcast_from [OF j le_refl, of "env_queue E" "Event_of (env_dynamic E) RESET"]
    have "loop_steps E (?n - j) (Loop_reset j, l, s) = Inr (Loop_reset ?n, l, ?t)"
      by (rule loop_steps_broadcast) (simp_all add: step_reset_def j)
    then have resets: "loop_steps E (?n - j + 1) (Loop_reset j, l, s) = Inr (Loop_init, l, ?t)"
      unfolding loop_steps_add using t by (simp add: step_reset_def)
    have quiet: "requests_added msgs None (sch_queues s) (sch_queues ?t)"
      by (rule broadcast_added [OF assms(1) j]) simp
    show ?thesis
      by (rule ends_unasked [OF init resets quiet]) (use t assms(2-4) in \<open>simp_all add: getRps_def\<close>)
  qed
qed

text \<open>The queues that the broadcast of STOP has not reached yet.\<close>

fun stop_reached :: "loop_pc \<Rightarrow> nat \<Rightarrow> nat" where
  "stop_reached (Loop_stop j) n = j"
| "stop_reached Loop_promise n = n"
| "stop_reached _ n = 0"

lemma loop_ends:
  assumes "notification_queue (env_queue E) msgs" "told_to_stop s" "paced_env E c"
    and "0 \<le> lp_interval_ns l" "lp_interval_ns l \<le> k_ns_per_s" "timed c pc l"
    and "pc \<noteq> Loop_exit" "\<forall>j. pc = Loop_stop j \<or> pc = Loop_reset j \<longrightarrow> j \<le> length (sch_queues s)"
  shows "ends_from E msgs (Some (unat (sch_next s))) (stop_reached pc (length (sch_queues s))) (pc, l, s)"
proof -
  note s = assms(2) [unfolded told_to_stop_def]
  note quiet = ends_from_while [OF assms(1)] ends_from_rps [OF assms(1)] ends_from_start [OF assms(1) _ _ _ assms(3)]
    and send = ends_from_send [OF assms(1,2)] and wait = ends_from_wait [OF assms(1-5)]
  have clock: "clock_reads (env_clock E) c" using assms(3) by (simp add: paced_env_def)
  let ?n = "length (sch_queues s)"
  have weaken: "ends_from E msgs (Some (unat (sch_next s))) j x" if "ends_from E msgs None j x" for j x
    using that requests_added_mono unfolding ends_from_def by blast
  have promise: "ends_from E msgs None ?n (Loop_promise, l, s)"
  proof -
    have "loop_steps E 1 (Loop_promise, l, s) = Inr (Loop_exit, l, s\<lparr>sch_promise_fulfilled := True\<rparr>)"
      using s by (simp add: step_promise_def)
    then show ?thesis unfolding ends_from_def
      by (intro exI [of _ 1] exI [of _ l] exI [of _ "s\<lparr>sch_promise_fulfilled := True\<rparr>"]) auto
  qed
  show ?thesis
    using s assms(6-8) by (cases pc)
      (auto intro: wait send weaken promise ends_from_stop [OF assms(1)] quiet
        ends_from_paused_wait [OF assms(1) _ _ clock])
qed

section \<open>Properties\<close>

text \<open>
  C14. The scheduler can be joined. Suppose \<open>stop()\<close> finds the thread anywhere in \<open>loop()\<close> but at its end:
  in a broadcast, before or inside a wait that the clock ends, about to put a request, at the change of the
  rate. Then the thread, on its own, ends within finitely many steps, without an error, with its promise
  fulfilled; the last message of every queue that the broadcast of STOP had not passed is STOP; and after
  the stop at most one more request is put, into the queue of the worker that was next. This holds for
  every queue that meets its contract, a positive rate and a monotonic clock.
\<close>

theorem scheduler_join_returns:
  assumes "notification_queue (env_queue E) msgs" "told_to_stop s" "paced_env E c"
    and "0 \<le> lp_interval_ns l" "lp_interval_ns l \<le> k_ns_per_s" "timed c pc l"
    and "pc \<noteq> Loop_exit" "\<forall>j. pc = Loop_stop j \<or> pc = Loop_reset j \<longrightarrow> j \<le> length (sch_queues s)"
  shows "\<exists>k l' s'. loop_steps E k (pc, l, s) = Inr (Loop_exit, l', s') \<and> sch_promise_fulfilled s' \<and>
    length (sch_queues s') = length (sch_queues s) \<and>
    (\<forall>i<length (sch_queues s).
       deliveries SEND_REQUEST (msgs (sch_queues s' ! i)) \<le>
         deliveries SEND_REQUEST (msgs (sch_queues s ! i)) + (if unat (sch_next s) = i then 1 else 0) \<and>
       (stop_reached pc (length (sch_queues s)) \<le> i \<longrightarrow>
         (\<exists>es. msgs (sch_queues s' ! i) = es @ [Event_of (env_dynamic E) STOP])))"
proof -
  let ?n = "length (sch_queues s)"
  obtain k l' s' where "loop_steps E k (pc, l, s) = Inr (Loop_exit, l', s')" "sch_promise_fulfilled s'"
    "requests_added msgs (Some (unat (sch_next s))) (sch_queues s) (sch_queues s')"
    "\<forall>i. stop_reached pc ?n \<le> i \<and> i < length (sch_queues s') \<longrightarrow>
       (\<exists>es. msgs (sch_queues s' ! i) = es @ [Event_of (env_dynamic E) STOP])"
    using loop_ends [OF assms] by (auto simp: ends_from_def)
  then show ?thesis unfolding requests_added_def option.inject
    by (intro exI [of _ k] exI [of _ l'] exI [of _ s'] conjI allI impI) simp_all
qed

text \<open>Two workers, and a thread that has 5 ns to wait when the stop comes.\<close>

theorem scheduler_join_returns_witness:
  "\<exists>k l' s'. loop_steps (list_env ns_clock (\<lambda>_. Fin 1) (\<lambda>_. Fin 0)) k (Loop_wait 1000000001 5,
       initial_locals\<lparr>lp_b := 1000000000, lp_ticks := 2\<rparr>, stop (Scheduler4 default_flags list_queue 1024 2 1000 500)) =
       Inr (Loop_exit, l', s') \<and>
     (\<exists>es. sch_queues s' ! 1 = es @ [Event_of dynamic_value_ops STOP]) \<and> deliveries SEND_REQUEST (sch_queues s' ! 1) = 0"
proof -
  let ?E = "list_env ns_clock (\<lambda>_. Fin 1) (\<lambda>_. Fin 0)"
  let ?c = "\<lambda>t. 1000000000 + int (min t 999999999)"
  let ?s = "stop (Scheduler4 default_flags list_queue 1024 2 1000 500) :: dynamic_value event list scheduler"
  let ?l = "initial_locals\<lparr>lp_b := 1000000000, lp_ticks := 2\<rparr>"
  have q: "notification_queue (env_queue ?E) (\<lambda>q. q)" using lq.notification_queue_axioms by simp
  have s: "told_to_stop ?s" "sch_queues ?s = [[], []]" "unat (sch_next ?s) = 0"
    by (simp_all add: told_to_stop_def stop_def Scheduler4_def sched_wf_def getRps_def uint32_to_int32_def int_range)
  have e: "paced_env ?E ?c" using ns_clock_reads by (simp add: paced_env_def log_contract_def unit_draw_def)
  have i: "0 \<le> lp_interval_ns ?l" "lp_interval_ns ?l \<le> k_ns_per_s" by (simp_all add: initial_locals_def)
  have "wait_ends ?c (lp_ticks ?l) 1000000001 5 4" by (simp add: wait_ends_def)
  moreover have "lp_b ?l = ?c 0" "1000000001 = ?c 1" by simp_all
  moreover have "\<bar>lp_budget ?l\<bar> \<le> 2 ^ 51" "\<forall>t. ?c t \<le> lp_b ?l + 2 ^ 51"
    by (simp_all add: initial_locals_def min_le_iff_disj)
  ultimately have timed: "timed ?c (Loop_wait 1000000001 5) ?l" unfolding timed_def by (simp only: loop_pc.case) (metis le0)
  have pc: "Loop_wait 1000000001 5 \<noteq> Loop_exit"
    "\<forall>j. Loop_wait 1000000001 5 = Loop_stop j \<or> Loop_wait 1000000001 5 = Loop_reset j \<longrightarrow> j \<le> length (sch_queues ?s)"
    by simp_all
  obtain k l' s' where run: "loop_steps ?E k (Loop_wait 1000000001 5, ?l, ?s) = Inr (Loop_exit, l', s')"
    and queues: "\<forall>i<length (sch_queues ?s).
       deliveries SEND_REQUEST (sch_queues s' ! i) \<le>
         deliveries SEND_REQUEST (sch_queues ?s ! i) + (if unat (sch_next ?s) = i then 1 else 0) \<and>
       (stop_reached (Loop_wait 1000000001 5) (length (sch_queues ?s)) \<le> i \<longrightarrow>
         (\<exists>es. sch_queues s' ! i = es @ [Event_of (env_dynamic ?E) STOP]))"
    using scheduler_join_returns [OF q s(1) e i timed pc] by (elim exE conjE)
  have "deliveries SEND_REQUEST (sch_queues s' ! 1) = 0" "\<exists>es. sch_queues s' ! 1 = es @ [Event_of dynamic_value_ops STOP]"
    using spec [OF queues, of 1] by (simp_all add: s(2,3))
  then show ?thesis using run by blast
qed

end
