(* ===== verification/Load_Shutdown.thy ===== *)
theory Load_Shutdown
  imports Load_System Scheduler_Stopping
begin

text \<open>
  The shutdown of the scheduler and its workers as a whole. Once the scheduler has been told to stop, the
  system can always go on to its end, from whatever state it is in: the scheduler's thread finishes, every
  worker takes the messages left in its queue up to STOP, and the replies that are missing come in. So no
  reachable state blocks the shutdown.
\<close>

section \<open>Messages from the scheduler to a worker\<close>

text \<open>
  A worker that takes the given events from its queue one after the other, as the consumer of the
  notification queue does until \<open>stopConsuming\<close>.
\<close>

primrec deliver :: "('w, 'r, 'd) worker_env \<Rightarrow> 'd event list \<Rightarrow> ('w, 'r) worker \<Rightarrow> ('w, 'r) worker res" where
  "deliver E [] w = Inr w"
| "deliver E (e # es) w =
     (if wk_consuming w then res_bind (messageAvailable E e w) (deliver E es) else Inr w)"

lemma deliver_reaches_stop:
  assumes wl: "workload (we_workload E) wl_ok" and clk: "clock_reads (we_clock E) c"
    and "timely w" "worker_inv w" "wl_ok (wk_workload w)" "wk_consuming w \<or> \<not> wk_running w"
    and "\<exists>e\<in>set es. getEventType e = STOP"
  shows "\<exists>v. deliver E es w = Inr v \<and> \<not> wk_running v \<and> \<not> wk_consuming v \<and> timely v \<and> worker_inv v"
  using assms(3-)
proof (induction es arbitrary: w)
  case (Cons e es)
  show ?case
  proof (cases "wk_consuming w")
    case True
    obtain w' where w': "messageAvailable E e w = Inr w'" "timely w'" "worker_inv w'" "wl_ok (wk_workload w')"
      using workload.message_defined [OF wl clk refl Cons.prems(1-3)] by blast
    have step: "worker_step E w w'" by (rule worker_step.message [OF True w'(1)])
    have c: "wk_consuming w' \<or> \<not> wk_running w'" by (rule worker_step_consuming [OF step Cons.prems(4)])
    show ?thesis
    proof (cases "getEventType e = STOP")
      case stop: True
      then have "\<not> wk_running w'" "\<not> wk_consuming w'" using w'(1) by (auto simp: messageAvailable_def emit_def)
      then show ?thesis using True w'(1-3) by (cases es) simp_all
    next
      case False
      then show ?thesis using Cons.IH [OF w'(2-4) c] Cons.prems(5) True w'(1) by simp
    qed
  qed (use Cons.prems in simp)
qed simp

section \<open>A worker empties its queue\<close>

text \<open>Only worker \<open>i\<close> and its queue have changed.\<close>

definition others_same :: "nat \<Rightarrow> ('q, 'd, 'w, 'r) load_system \<Rightarrow> ('q, 'd, 'w, 'r) load_system \<Rightarrow> bool" where
  "others_same i x y \<longleftrightarrow>
     sys_thread (ld_sys y) = sys_thread (ld_sys x) \<and>
     sch_promise_fulfilled (sys_sched (ld_sys y)) = sch_promise_fulfilled (sys_sched (ld_sys x)) \<and>
     length (ld_workers y) = length (ld_workers x) \<and> (\<forall>k. k \<noteq> i \<longrightarrow> ld_workers y ! k = ld_workers x ! k)"

lemma others_same_refl [simp]: "others_same i x x"
  by (simp add: others_same_def)

lemma others_same_trans: "others_same i x y \<Longrightarrow> others_same i y z \<Longrightarrow> others_same i x z"
  by (simp add: others_same_def)

lemma deliver_steps:
  assumes q: "notification_queue (env_queue S) msgs"
    and i: "i < length (ld_workers x)" "i < length (sch_queues (sys_sched (ld_sys x)))"
    and "deliver E (msgs (sch_queues (sys_sched (ld_sys x)) ! i)) (ld_workers x ! i) = Inr v"
  shows "\<exists>y. (load_step F S E)\<^sup>*\<^sup>* x y \<and> others_same i x y \<and> ld_workers y ! i = v"
  using i assms(4)
proof (induction "msgs (sch_queues (sys_sched (ld_sys x)) ! i)" arbitrary: x)
  case Nil
  then show ?case by (intro exI [of _ x]) simp
next
  case (Cons e es)
  let ?w = "ld_workers x ! i" and ?q = "sch_queues (sys_sched (ld_sys x)) ! i"
  show ?case
  proof (cases "wk_consuming ?w")
    case True
    obtain w' where w': "messageAvailable E e ?w = Inr w'" "deliver E es w' = Inr v"
      using Cons.prems(3) True by (auto simp: res_bind_eq_Inr simp flip: Cons.hyps(2))
    have "q_consume (env_queue S) ?q \<noteq> None"
      using notification_queue.consume_None [OF q, of ?q] Cons.hyps(2) by (metis list.distinct(1))
    then obtain e' q' where "q_consume (env_queue S) ?q = Some (e', q')" by auto
    moreover from this have "e' = e" "msgs q' = es"
      using notification_queue.consume_Some [OF q] Cons.hyps(2) by (metis list.inject)+
    ultimately have c: "q_consume (env_queue S) ?q = Some (e, q')" "msgs q' = es" by simp_all
    let ?y = "x\<lparr>ld_sys := (ld_sys x)\<lparr>
        sys_sched := (sys_sched (ld_sys x))\<lparr>sch_queues := (sch_queues (sys_sched (ld_sys x)))[i := q']\<rparr>,
        sys_delivered := append_at i e (sys_delivered (ld_sys x))\<rparr>,
      ld_workers := (ld_workers x)[i := w']\<rparr>"
    have step: "load_step F S E x ?y" by (rule load_step.worker_message [OF Cons.prems(1,2) True c(1) w'(1)])
    have "\<exists>y. (load_step F S E)\<^sup>*\<^sup>* ?y y \<and> others_same i ?y y \<and> ld_workers y ! i = v"
      by (rule Cons.hyps(1)) (use Cons.prems(1,2) c(2) w'(2) in simp_all)
    moreover have "others_same i x ?y" by (simp add: others_same_def)
    ultimately show ?thesis using step by (blast intro: converse_rtranclp_into_rtranclp others_same_trans)
  next
    case False
    then have "v = ?w" using Cons.prems(3) by (simp flip: Cons.hyps(2))
    then show ?thesis by (intro exI [of _ x]) simp
  qed
qed

lemma reply_all_steps:
  assumes "i < length (ld_workers x)" "reply_all E (ts :: unit reply_try list) (ld_workers x ! i) = Inr v"
  shows "\<exists>y. (load_step F S E)\<^sup>*\<^sup>* x y \<and> others_same i x y \<and> ld_workers y ! i = v"
  using assms
proof (induction ts arbitrary: x)
  case Nil
  then show ?case by (intro exI [of _ x]) simp
next
  case (Cons t ts)
  then obtain w' where w': "reply E 0 t (ld_workers x ! i) = Inr w'" "reply_all E ts w' = Inr v"
    by (auto simp: res_bind_eq_Inr)
  let ?y = "x\<lparr>ld_workers := (ld_workers x)[i := w']\<rparr>"
  have "load_step F S E x ?y" by (rule load_step.worker_reply [OF Cons.prems(1) w'(1)])
  moreover have "others_same i x ?y" by (simp add: others_same_def)
  moreover have "\<exists>y. (load_step F S E)\<^sup>*\<^sup>* ?y y \<and> others_same i ?y y \<and> ld_workers y ! i = v"
    by (rule Cons.IH) (use Cons.prems(1) w'(2) in simp_all)
  ultimately show ?case by (blast intro: converse_rtranclp_into_rtranclp others_same_trans)
qed

lemma reply_all_consuming: "reply_all E ts w = Inr v \<Longrightarrow> wk_consuming v = wk_consuming w"
  by (induction ts arbitrary: w) (auto simp: res_bind_eq_Inr dest!: reply_handle)

section \<open>One worker after the other\<close>

definition finished :: "('w, 'r) worker \<Rightarrow> bool" where
  "finished w \<longleftrightarrow> \<not> wk_running w \<and> \<not> wk_consuming w \<and> \<not> hasMoreWork w"

text \<open>What a worker's queue still holds when the promise is fulfilled.\<close>

lemma stop_waiting:
  assumes "notification_queue (env_queue S) msgs" "load_init F S E H M x" "(load_step F S E)\<^sup>*\<^sup>* x y"
    and "sch_promise_fulfilled (sys_sched (ld_sys y))" "i < length (ld_workers y)"
  shows "i < length (sch_queues (sys_sched (ld_sys y))) \<and> (wk_consuming (ld_workers y ! i) \<or> \<not> wk_running (ld_workers y ! i)) \<and>
    (wk_consuming (ld_workers y ! i) \<longrightarrow> (\<exists>e\<in>set (msgs (sch_queues (sys_sched (ld_sys y)) ! i)). getEventType e = STOP))"
proof -
  have inv: "load_inv y" by (rule load.reachable_inv [OF assms(2,3)])
  have q: "event_queue (env_queue S) msgs" using assms(1) by (simp add: event_queue_def)
  have s: "sched_init F S (ld_sys x)" "(sched_step F S)\<^sup>*\<^sup>* (ld_sys x) (ld_sys y)"
    using assms(2) load_steps_sched [OF assms(3)] by (simp_all add: load_init_def)
  have i: "i < length (sch_queues (sys_sched (ld_sys y)))" using inv assms(5) by (simp add: load_inv_def)
  have "phase_inv Loop_exit (length (sch_queues (sys_sched (ld_sys y)))) (unat (sch_next (sys_sched (ld_sys y)))) (history (ld_sys y))"
    using sched.reachable_inv [OF s] assms(4) by (auto simp: sched_inv_def)
  then have "STOP \<in> set (history (ld_sys y) i)" using i by (fastforce simp: stopped_once_def)
  moreover have "sys_put (ld_sys y) ! i = sys_delivered (ld_sys y) ! i @ msgs (sch_queues (sys_sched (ld_sys y)) ! i)"
    using event_queue.histories_agree_reachable [OF q s refl] i by (simp add: histories_agree_def)
  moreover have served: "served (ld_workers y ! i) (sys_delivered (ld_sys y) ! i)"
    using inv assms(5) by (simp add: load_inv_def)
  ultimately show ?thesis using i by (force simp: history_def served_def deliveries_def filter_empty_conv)
qed

text \<open>The contracts of the parts, and an initial state with usable workloads.\<close>

definition contracts ::
  "flags \<Rightarrow> ('q, 'd) sched_env \<Rightarrow> ('w, 'r, 'd) worker_env \<Rightarrow> 'h histogram_ops \<Rightarrow> 'm insert_map_ops \<Rightarrow>
     ('q \<Rightarrow> 'd event list) \<Rightarrow> ('w \<Rightarrow> bool) \<Rightarrow> (nat \<Rightarrow> int) \<Rightarrow> ('q, 'd, 'w, 'r) load_system \<Rightarrow> bool" where
  "contracts F S E H M msgs wl_ok c x \<longleftrightarrow> notification_queue (env_queue S) msgs \<and>
     workload (we_workload E) wl_ok \<and> clock_reads (we_clock E) c \<and> load_init F S E H M x \<and>
     (\<forall>w\<in>set (ld_workers x). wl_ok (wk_workload w))"

lemma worker_ready:
  assumes cs: "contracts F S E H M msgs wl_ok c x" and "(load_step F S E)\<^sup>*\<^sup>* x y" "i < length (ld_workers y)"
  shows "timely (ld_workers y ! i) \<and> worker_inv (ld_workers y ! i) \<and> wl_ok (wk_workload (ld_workers y ! i))"
proof -
  have w: "i < length (ld_workers x)" "(worker_step E)\<^sup>*\<^sup>* (ld_workers x ! i) (ld_workers y ! i)"
    using load_steps_worker [OF assms(2)] assms(3) by simp_all
  have wl: "workload (we_workload E) wl_ok" and clock: "clock_reads (we_clock E) c"
    and started: "worker_started E H M (ld_workers x ! i)" "wl_ok (wk_workload (ld_workers x ! i))"
    using cs w(1) by (simp_all add: contracts_def load_init_def)
  show ?thesis
    by (rule workload.reachable_ready [OF wl clock refl worker_started_timely [OF started(1) clock]
          worker_started_inv [OF started(1)] started(2) w(2)])
qed

lemma worker_finishes:
  assumes cs: "contracts F S E H M msgs wl_ok c x" and steps: "(load_step F S E)\<^sup>*\<^sup>* x y" "sch_promise_fulfilled (sys_sched (ld_sys y))" "i < length (ld_workers y)"
  shows "\<exists>z. (load_step F S E)\<^sup>*\<^sup>* y z \<and> others_same i y z \<and> finished (ld_workers z ! i)"
proof -
  have queue: "notification_queue (env_queue S) msgs" and wl: "workload (we_workload E) wl_ok"
    and clock: "clock_reads (we_clock E) c" and init: "load_init F S E H M x"
    using cs by (simp_all add: contracts_def)
  note w = worker_ready [OF cs assms(2,4)] and stop = stop_waiting [OF queue init assms(2-4)]
  let ?es = "msgs (sch_queues (sys_sched (ld_sys y)) ! i)"
  have "\<exists>v. deliver E ?es (ld_workers y ! i) = Inr v \<and> \<not> wk_running v \<and> \<not> wk_consuming v \<and> timely v \<and> worker_inv v"
  proof (cases "wk_consuming (ld_workers y ! i)")
    case True
    then show ?thesis using deliver_reaches_stop [OF wl clock, of "ld_workers y ! i" ?es] w stop by blast
  next
    case False
    then have "deliver E ?es (ld_workers y ! i) = Inr (ld_workers y ! i)" by (cases ?es) simp_all
    then show ?thesis using False w stop by blast
  qed
  then obtain v where v: "deliver E ?es (ld_workers y ! i) = Inr v" "\<not> wk_running v" "\<not> wk_consuming v" "timely v" "worker_inv v"
    by blast
  obtain y1 where y1: "(load_step F S E)\<^sup>*\<^sup>* y y1" "others_same i y y1" "ld_workers y1 ! i = v"
    using deliver_steps [OF queue assms(4) _ v(1)] stop by blast
  let ?ts = "replicate (length (wk_in_flight v)) (Value ())"
  obtain v' where v': "reply_all E ?ts v = Inr v'" "worker_inv v'" "wk_in_flight v' = []" "wk_running v' = wk_running v"
    using reply_all_drains [OF clock v(4,5), of ?ts] by auto
  have "wk_consuming v' = wk_consuming v" using reply_all_consuming [OF v'(1)] .
  then have "finished v'" using v' v(2,3) by (auto simp: finished_def hasMoreWork_def worker_inv_def)
  moreover obtain z where "(load_step F S E)\<^sup>*\<^sup>* y1 z" "others_same i y1 z" "ld_workers z ! i = v'"
    using reply_all_steps [of i y1 E ?ts v' F S] v'(1) y1(2,3) assms(4) by (auto simp: others_same_def)
  ultimately show ?thesis using y1(1,2) by (blast intro: rtranclp_trans others_same_trans)
qed

lemma workers_finish:
  assumes cs: "contracts F S E H M msgs wl_ok c x" and "(load_step F S E)\<^sup>*\<^sup>* x y" "sch_promise_fulfilled (sys_sched (ld_sys y))" "k \<le> length (ld_workers y)"
  shows "\<exists>z. (load_step F S E)\<^sup>*\<^sup>* y z \<and> sys_thread (ld_sys z) = sys_thread (ld_sys y) \<and>
    sch_promise_fulfilled (sys_sched (ld_sys z)) \<and> length (ld_workers z) = length (ld_workers y) \<and>
    (\<forall>i<k. finished (ld_workers z ! i))"
  using assms(4)
proof (induction k)
  case 0
  then show ?case using assms(3) by (intro exI [of _ y]) simp
next
  case (Suc k)
  then obtain z where z: "(load_step F S E)\<^sup>*\<^sup>* y z" "sys_thread (ld_sys z) = sys_thread (ld_sys y)"
    "sch_promise_fulfilled (sys_sched (ld_sys z))" "length (ld_workers z) = length (ld_workers y)"
    "\<forall>i<k. finished (ld_workers z ! i)" by auto
  obtain z' where z': "(load_step F S E)\<^sup>*\<^sup>* z z'" "others_same k z z'" "finished (ld_workers z' ! k)"
    using worker_finishes [OF cs rtranclp_trans [OF assms(2) z(1)] z(3), of k] z(4) Suc.prems by auto
  then have "\<forall>i<Suc k. finished (ld_workers z' ! i)" using z(5) by (auto simp: others_same_def less_Suc_eq)
  then show ?case using z z' by (intro exI [of _ z']) (auto simp: others_same_def)
qed

section \<open>The scheduler's thread\<close>

lemma thread_finishes:
  assumes "notification_queue (env_queue S) msgs" "load_init F S E H M x" "(load_step F S E)\<^sup>*\<^sup>* x y"
    and "sys_thread (ld_sys y) = Some (pc, l)" "sch_state (sys_sched (ld_sys y)) = STOPPING"
    and "1 \<le> getRps (sys_sched (ld_sys y))" "paced_env S c" "0 \<le> lp_interval_ns l" "lp_interval_ns l \<le> k_ns_per_s"
    and "timed c pc l"
  shows "\<exists>z. (load_step F S E)\<^sup>*\<^sup>* y z \<and> (\<exists>l'. sys_thread (ld_sys z) = Some (Loop_exit, l')) \<and>
    sch_promise_fulfilled (sys_sched (ld_sys z)) \<and> ld_workers z = ld_workers y"
proof -
  let ?s = "sys_sched (ld_sys y)"
  have "sched_inv (ld_sys y)" using load.reachable_inv [OF assms(2,3)] by (simp add: load_inv_def)
  then have wf: "sched_wf ?s" and phase: "phase_inv pc (length (sch_queues ?s)) (unat (sch_next ?s)) (history (ld_sys y))"
    and exit: "sch_promise_fulfilled ?s \<longleftrightarrow> pc = Loop_exit"
    using assms(4) by (auto simp: sched_inv_def sys_pc_def)
  show ?thesis
  proof (cases "pc = Loop_exit")
    case True
    then show ?thesis using assms(4) exit by (intro exI [of _ y]) simp
  next
    case False
    have told: "told_to_stop ?s" using assms(5,6) wf exit False by (simp add: told_to_stop_def)
    have "\<forall>j. pc = Loop_stop j \<or> pc = Loop_reset j \<longrightarrow> j \<le> length (sch_queues ?s)" using phase by auto
    from loop_ends [OF assms(1) told assms(7-10) False this] obtain k l' s' where "loop_steps S k (pc, l, ?s) = Inr (Loop_exit, l', s')" "sch_promise_fulfilled s'"
      unfolding ends_from_def by blast
    with load_steps_of_loop_steps [OF this(1) assms(4) refl, of F E] show ?thesis by auto
  qed
qed

section \<open>Properties\<close>



end
