(* ===== verification/Typing.thy ===== *)
theory Typing
  imports Load_System
begin

text \<open>
  Signed integers are modelled as mathematical integers with explicit checks and conversions. This
  theory shows that the model never leaves the machine's types: in every reachable state of the
  scheduler with its workers, every variable that the source declares \<open>int\<close>, \<open>int32_t\<close> or
  \<open>int64_t\<close> holds a value of its type, without any assumption on the clock, the queues or the workload.
\<close>

section \<open>Well-typed states\<close>

fun effect_typed :: "'r effect \<Rightarrow> bool" where
  "effect_typed (Increase p n k) \<longleftrightarrow> in_int64 n"
| "effect_typed (Set_counter key v) \<longleftrightarrow> in_int64 v"
| "effect_typed (Set_affinity cpu) \<longleftrightarrow> in_int32 cpu"
| "effect_typed _ \<longleftrightarrow> True"

definition worker_typed :: "('w, 'r) worker \<Rightarrow> bool" where
  "worker_typed w \<longleftrightarrow>
     in_int32 (wk_worker_id w) \<and> in_int32 (wk_number_of_workers w) \<and> in_int32 (wk_number_of_connections w) \<and>
     in_int32 (wk_max_outstanding_requests w) \<and> in_int32 (wk_cpu_affinity w) \<and>
     in_int64 (wk_last_throughput_time w) \<and> in_int64 (wk_n_throughput_requests w) \<and>
     in_int64 (wk_outstanding_requests w) \<and>
     (\<forall>fl\<in>set (wk_in_flight w). in_int64 (fl_send_time fl) \<and> fl_conn fl < wk_connections w) \<and>
     list_all effect_typed (wk_effects w)"

fun pc_typed :: "loop_pc \<Rightarrow> bool" where
  "pc_typed (Loop_wait start ns) \<longleftrightarrow> in_int64 start \<and> in_int64 ns"
| "pc_typed (Loop_paused_wait start) \<longleftrightarrow> in_int64 start"
| "pc_typed _ \<longleftrightarrow> True"

definition locals_typed :: "loop_locals \<Rightarrow> bool" where
  "locals_typed l \<longleftrightarrow> in_int32 (lp_rps l) \<and> in_int64 (lp_interval_ns l) \<and> in_int64 (lp_a l) \<and>
     in_int64 (lp_b l) \<and> in_int64 (lp_budget l)"

definition load_typed :: "('q, 'd, 'w, 'r) load_system \<Rightarrow> bool" where
  "load_typed x \<longleftrightarrow> list_all worker_typed (ld_workers x) \<and>
     (case sys_thread (ld_sys x) of None \<Rightarrow> True | Some (pc, l) \<Rightarrow> pc_typed pc \<and> locals_typed l)"

section \<open>The scheduler's loop\<close>

lemma nowNs_typed: "nowNs clk t = Inr x \<Longrightarrow> in_int64 x"
  by (auto simp: nowNs_def res_bind_eq_Inr check_int64_eq_Inr split: option.splits)

lemma double_to_int64_typed: "double_to_int64 d = Inr x \<Longrightarrow> in_int64 x"
  by (cases d) (auto simp: double_to_int64_def split: if_splits)

lemma uint32_to_int32_typed: "in_int32 (uint32_to_int32 v)"
  by (simp add: uint32_to_int32_def to_int32_range)

lemma budget_typed:
  assumes "(if a \<noteq> 0 then res_bind (check_int64 (b - a)) (\<lambda>d. check_int64 (budget - d)) else Inr budget) = Inr x"
    and "in_int64 budget"
  shows "in_int64 x"
  using assms by (auto simp: res_bind_eq_Inr check_int64_eq_Inr split: if_splits)

lemma loop_step_typed:
  assumes "loop_step E (pc, l, s) = Inr (pc', l', s')" "pc_typed pc" "locals_typed l"
  shows "pc_typed pc' \<and> locals_typed l'"
proof (cases pc)
  case Loop_init
  then obtain i b where "interval_ns_of (uint32_to_int32 (sch_rps s)) = Inr i"
    "double_to_int64 (draw_interval E l i) = Inr b" "pc' = Loop_while"
    "l' = l\<lparr>lp_rps := uint32_to_int32 (sch_rps s), lp_interval_ns := i, lp_a := 0, lp_b := 0,
       lp_budget := b, lp_draws := lp_draws l + 1\<rparr>"
    using assms(1) by (auto simp: step_init_def res_bind_eq_Inr Let_def)
  then show ?thesis by (auto simp: locals_typed_def interval_ns_of_def uint32_to_int32_typed dest: double_to_int64_typed)
next
  case Loop_body
  then obtain b budget start where b: "nowNs (env_clock E) (lp_ticks l) = Inr b"
    "(if lp_a l \<noteq> 0 then res_bind (check_int64 (b - lp_a l)) (\<lambda>d. check_int64 (lp_budget l - d)) else Inr (lp_budget l)) = Inr budget"
    "nowNs (env_clock E) (lp_ticks l + 1) = Inr start" "pc' = Loop_wait start (max budget 0)"
    "l' = l\<lparr>lp_b := b, lp_budget := budget, lp_ticks := lp_ticks l + 2\<rparr>"
    using assms(1) by (auto simp: step_body_def res_bind_eq_Inr)
  then have "in_int64 budget" using assms(3) by (intro budget_typed [OF b(2)]) (simp add: locals_typed_def)
  then show ?thesis
    using b nowNs_typed [OF b(1)] nowNs_typed [OF b(3)] assms(3) by (simp add: locals_typed_def max_def)
next
  case Loop_woken
  then obtain a r where r: "nowNs (env_clock E) (lp_ticks l) = Inr a" "double_to_int64 r = Inr (lp_budget l')" "pc' = Loop_put"
    "lp_rps l' = lp_rps l" "lp_interval_ns l' = lp_interval_ns l" "lp_a l' = a" "lp_b l' = lp_b l"
    using assms(1) by (auto simp: step_woken_def res_bind_eq_Inr)
  then show ?thesis
    using nowNs_typed [OF r(1)] double_to_int64_typed [OF r(2)] assms(3) by (simp add: locals_typed_def)
next
  case Loop_rps
  then show ?thesis
    using assms(1,3) by (auto simp: step_rps_def res_bind_eq_Inr locals_typed_def interval_ns_of_def uint32_to_int32_typed
        split: if_splits dest: double_to_int64_typed)
next
  case Loop_paused
  then show ?thesis
    using assms(1,3) by (auto simp: step_paused_def res_bind_eq_Inr locals_typed_def split: if_splits dest: nowNs_typed)
next
  case (Loop_wait start ns)
  then show ?thesis using assms by (auto simp: step_wait_def res_bind_eq_Inr locals_typed_def)
next
  case (Loop_paused_wait start)
  then show ?thesis using assms by (auto simp: step_paused_wait_def res_bind_eq_Inr locals_typed_def)
qed (use assms in \<open>auto simp: step_reset_def step_put_def step_log_def step_next_def step_stop_def step_promise_def
    res_bind_eq_Inr Let_def split: if_splits\<close>)

lemma sched_step_typed:
  assumes "sched_step F E x y" "case sys_thread x of None \<Rightarrow> True | Some (pc, l) \<Rightarrow> pc_typed pc \<and> locals_typed l"
  shows "case sys_thread y of None \<Rightarrow> True | Some (pc, l) \<Rightarrow> pc_typed pc \<and> locals_typed l"
  using assms
proof (cases rule: sched_step.cases)
  case (thread pc l pc' l' s')
  then show ?thesis using loop_step_typed [of E pc l "sys_sched x"] assms(2) by simp
qed (simp_all add: locals_typed_def initial_locals_def)

section \<open>The workers\<close>

lemma read_clock_typed: "read_clock E w = Inr (t, w') \<Longrightarrow> in_int64 t"
  by (auto simp: read_clock_eq dest: nowNs_typed)

lemma estimate_throughput_typed:
  assumes "estimate_throughput E w = Inr w'" "worker_typed w"
  shows "worker_typed w'"
proof -
  obtain t elapsed where t: "nowNs (we_clock E) (wk_ticks w) = Inr t" "check_int64 (t - wk_last_throughput_time w) = Inr elapsed"
    using assms by (auto simp: estimate_throughput_def res_bind_eq_Inr read_clock_eq)
  show ?thesis
  proof (cases "double_of (1 / 10) \<le> double_of_int elapsed / double_of_int k_ns_per_s")
    case True
    then obtain p q u v where "w' = w\<lparr>wk_ticks := wk_ticks w + 1, wk_n_throughput_requests := 0,
        wk_last_throughput_time := t, wk_effects := wk_effects w @ [Add_value p u, Add_value q v]\<rparr>"
      using assms t
      by (auto simp: estimate_throughput_def read_clock_def res_bind_eq_Inr add_value_eq emit_def Let_def
          simp del: k_ns_per_s_def)
    then show ?thesis using assms(2) nowNs_typed [OF t(1)] by (simp add: worker_typed_def)
  next
    case False
    then have "w' = w\<lparr>wk_ticks := wk_ticks w + 1\<rparr>"
      using assms t by (simp add: estimate_throughput_def read_clock_def Let_def del: k_ns_per_s_def)
    then show ?thesis using assms(2) by (simp add: worker_typed_def)
  qed
qed

lemma flush_counts_typed:
  assumes "flush_counts p m w = Inr w'" "worker_typed w"
  shows "worker_typed w'"
proof -
  obtain fs where "flush_log p m fs" "w' = w\<lparr>wk_effects := wk_effects w @ fs\<rparr>"
    using flush_counts_eq [OF assms(1)] by blast
  moreover from this(1) have "list_all effect_typed fs"
    by (auto simp: flush_log_def flushed_def list_all_iff to_int64_range)
  ultimately show ?thesis using assms(2) by (simp add: worker_typed_def)
qed

lemma estimate_typed:
  assumes "estimate E w = Inr w'" "worker_typed w"
  shows "worker_typed w'"
proof -
  obtain w1 w2 w3 where 1: "estimate_throughput E w = Inr w1"
    and 2: "flush_counts (wk_exceptions_statistic w1) (wk_n_exceptions_by_type w1) w1 = Inr w2"
    and 3: "flush_counts (wk_uncaught_exceptions_statistic w2) (wk_n_uncaught_exceptions_by_type w2)
      (w2\<lparr>wk_n_exceptions_by_type := []\<rparr>) = Inr w3"
    and w': "w' = setWorkerCounter kOutstandingRequestsCounter (wk_outstanding_requests w3)
      (w3\<lparr>wk_n_uncaught_exceptions_by_type := []\<rparr>)"
    using assms(1) unfolding estimate_def res_bind_eq_Inr sum.inject by metis
  have "worker_typed w2" by (rule flush_counts_typed [OF 2 estimate_throughput_typed [OF 1 assms(2)]])
  then have "worker_typed w3" by (intro flush_counts_typed [OF 3]) (simp add: worker_typed_def)
  then show ?thesis by (simp add: w' setWorkerCounter_def emit_def worker_typed_def)
qed

lemma send_next_typed:
  assumes "send_next E w = Inr (b, w')" "worker_typed w"
  shows "worker_typed w'"
proof (cases b)
  case True
  then obtain r wl where r: "wl_getNextRequest (we_workload E) (wk_workload w) = Inr (Some r, wl)"
    using assms(1) by (auto simp: send_next_def res_bind_eq_Inr split: option.splits)
  then obtain t where t: "nowNs (we_clock E) (wk_ticks w) = Inr t" "unat (wk_conn_idx w) < wk_connections w"
    "w' = w\<lparr>wk_workload := wl, wk_outstanding_requests := to_int64 (wk_outstanding_requests w + 1),
           wk_conn_idx := (wk_conn_idx w + 1) mod word_of_int (wk_number_of_connections w),
           wk_ticks := wk_ticks w + 1,
           wk_in_flight := wk_in_flight w @ [\<lparr>fl_conn = unat (wk_conn_idx w), fl_send_time = t, fl_request = r\<rparr>],
           wk_effects := wk_effects w @ [Sent (unat (wk_conn_idx w)) r]\<rparr>"
    using assms(1) True
    by (auto simp: send_next_def Let_def res_bind_eq_Inr read_clock_eq emit_def split: if_splits)
  then show ?thesis using assms(2) nowNs_typed [OF t(1)] to_int64_range by (auto simp: worker_typed_def)
next
  case False
  then have "send_next E w = Inr (False, w')" using assms(1) by simp
  then show ?thesis by (rule send_next_null) (use assms(2) in \<open>simp add: worker_typed_def\<close>)
qed

lemma reply_typed:
  assumes "reply E i t w = Inr w'" "worker_typed w"
  shows "worker_typed w'"
proof -
  obtain w0 w1 rt where i: "i < length (wk_in_flight w)" and w0: "read_clock E w = Inr (rt, w0)"
    and w1: "(if wk_running w0
               then res_bind (check_int64 (rt - fl_send_time (wk_in_flight w ! i))) (\<lambda>d.
                      add_value (wk_latency_statistic w0) (double_of_int d / double_of 1000) w0)
               else Inr w0) = Inr w1"
    using assms(1) by (auto simp: reply_def res_bind_eq_Inr vec_at_eq_Inr)
  have "worker_typed w0" using w0 assms(2) by (auto simp: read_clock_eq worker_typed_def)
  then have typed: "worker_typed w1"
    using w1 by (auto simp: res_bind_eq_Inr add_value_eq worker_typed_def emit_def split: if_splits)
  let ?w2 = "complete_promise t (w1\<lparr>wk_n_throughput_requests := to_int64 (wk_n_throughput_requests w1 + 1)\<rparr>)"
  have "w' = setWorkerCounter kOutstandingRequestsCounter (to_int64 (wk_outstanding_requests ?w2 - 1))
      (?w2\<lparr>wk_outstanding_requests := to_int64 (wk_outstanding_requests ?w2 - 1),
           wk_in_flight := take i (wk_in_flight ?w2) @ drop (i + 1) (wk_in_flight ?w2)\<rparr>)"
    using assms(1) i w0 w1 by (simp add: reply_def Let_def)
  then show ?thesis
    using typed to_int64_range
    by (auto simp: complete_promise_eq setWorkerCounter_def emit_def worker_typed_def dest: in_set_takeD in_set_dropD)
qed

lemma worker_step_typed:
  assumes "worker_step E w w'" "worker_typed w"
  shows "worker_typed w'"
  using assms(1)
proof (cases rule: worker_step_forms)
  case sends
  from sends(3) show ?thesis
    by (cases rule: worker_sendRequest_forms) (use assms(2) estimate_typed send_next_typed in blast)+
next
  case (replied i t)
  then show ?thesis using reply_typed assms(2) by blast
qed (use assms(2) in \<open>simp_all add: worker_typed_def\<close>)

lemma senderLoop_typed:
  assumes "senderLoop E H M w sm = Inr (w', sm')" "worker_typed w"
  shows "worker_typed w'"
proof -
  obtain p1 sm1 where 1: "getContinuousStat H OUTSTANDING_REQUESTS sm = (p1, sm1)" by force
  obtain p2 sm2 where 2: "getContinuousStat H THROUGHPUT sm1 = (p2, sm2)" by force
  obtain p3 sm3 where 3: "getContinuousStat H REQUEST_LATENCY sm2 = (p3, sm3)" by force
  obtain p4 sm4 where 4: "getCounterStat M EXCEPTIONS sm3 = (p4, sm4)" by force
  obtain p5 sm5 where 5: "getCounterStat M UNCAUGHT_EXCEPTIONS sm4 = (p5, sm5)" by force
  obtain t where "in_int64 t" "w' = w\<lparr>wk_ticks := wk_ticks w + 1, wk_outstanding_statistic := Some p1,
      wk_throughput_statistic := Some p2, wk_latency_statistic := Some p3, wk_exceptions_statistic := Some p4,
      wk_uncaught_exceptions_statistic := Some p5, wk_last_throughput_time := t, wk_consuming := True,
      wk_effects := wk_effects w @ (if wk_cpu_affinity w \<noteq> -1 then [Set_affinity (wk_cpu_affinity w)] else []) @ [Start_consuming]\<rparr>"
    using assms(1) unfolding senderLoop_def 1 2 3 4 5 Let_def split
    by (cases "wk_cpu_affinity w = -1") (auto simp: res_bind_eq_Inr read_clock_eq emit_def dest: nowNs_typed)
  then show ?thesis using assms(2) by (auto simp: worker_typed_def)
qed

lemma worker_started_typed:
  assumes "worker_started E H M w"
  shows "worker_typed w"
proof -
  obtain F ready b id n c m wl cpu w0 sm sm' where r: "in_int32 id" "1 \<le> c" "c \<le> int32_max" "in_int32 m" "in_int32 n" "in_int32 cpu"
    and run: "worker_run F ready (Worker8 b id n c m wl cpu) = Some (Inr w0)"
    and loop: "senderLoop E H M w0 sm = Inr (w, sm')"
    using assms by (auto simp: worker_started_def)
  have "worker_typed w0"
    using r by (simp add: worker_run_eq [OF run] Worker8_def setWorkerCounter_def emit_def worker_typed_def in_int32_def)
  then show ?thesis by (rule senderLoop_typed [OF loop])
qed

section \<open>The system\<close>

lemma load_typed_init: "load_init F S E H M x \<Longrightarrow> load_typed x"
  by (auto simp: load_init_def load_typed_def sched_init_def list_all_iff intro: worker_started_typed)

lemma load_typed_step:
  assumes "load_typed x" "load_step F S E x y"
  shows "load_typed y"
  using assms(2)
proof (cases rule: load_step.cases)
  case (scheduler_side z)
  then show ?thesis using assms(1) sched_step_typed [OF scheduler_side(2)] by (simp add: load_typed_def)
next
  case (worker_message i e q' w')
  then have "worker_typed w'"
    using worker_step_typed [OF worker_step.message [OF worker_message(4,6)]] assms(1) by (simp add: load_typed_def list_all_length)
  then show ?thesis using worker_message assms(1) by (simp add: load_typed_def list_all_length nth_list_update)
next
  case (worker_reply i j t w')
  then have "worker_typed w'"
    using worker_step_typed [OF worker_step.continuation [OF worker_reply(3)]] assms(1) by (simp add: load_typed_def list_all_length)
  then show ?thesis using worker_reply assms(1) by (simp add: load_typed_def list_all_length nth_list_update)
next
  case (worker_stopped i)
  then have "worker_typed (worker_stop (ld_workers x ! i))"
    using assms(1)
    by (intro worker_step_typed [OF worker_step.stop_call [where E = E]]) (simp add: load_typed_def list_all_length)
  then show ?thesis using worker_stopped assms(1) by (simp add: load_typed_def list_all_length nth_list_update)
qed

interpretation typed: step_invariant "load_init F S E H M" "load_step F S E" load_typed for F S E H M
  by unfold_locales (auto intro: load_typed_init load_typed_step)

section \<open>Properties\<close>



end
