(* ===== verification/Shared_Statistics.thy ===== *)
theory Shared_Statistics
  imports Worker_Properties "HOL-Library.Multiset"
begin

text \<open>
  The workers and the statistics they share. Every worker gets its statistics from the one manager of
  the process when its thread starts, and adds to them from its own thread; the model of the worker
  logs these calls as effects. Here the calls take place: a step is the start of a worker's thread, a
  step of a worker, or the next logged call of some worker on the shared objects, in any interleaving of
  the workers that keeps the order of each. The properties follow an exception from the reply that
  raised it to the counter that \<open>print\<close> shows.
\<close>

section \<open>The system\<close>

record ('h, 'm, 'w, 'r) shared_system =
  sh_manager :: "('h, 'm) statistics_manager"
  sh_workers :: "('w, 'r) worker list"
  sh_applied :: "nat list"

text \<open>\<open>addValue\<close> and \<open>increase\<close> through the shared pointers; other effects do not touch the statistics.\<close>

definition apply_effect ::
  "'h histogram_ops \<Rightarrow> 'm insert_map_ops \<Rightarrow> 'r effect \<Rightarrow> ('h, 'm) statistics_manager \<Rightarrow> ('h, 'm) statistics_manager res" where
  "apply_effect H M x sm = (case x of
     Add_value p v \<Rightarrow> res_map (\<lambda>h. sm\<lparr>sm_histograms := (sm_histograms sm)[p := h_addValue H v h]\<rparr>)
       (vec_at (sm_histograms sm) p)
   | Increase p n k \<Rightarrow> res_bind (vec_at (sm_counters sm) p) (\<lambda>c.
       res_map (\<lambda>c'. sm\<lparr>sm_counters := (sm_counters sm)[p := c']\<rparr>) (increase M n k c))
   | _ \<Rightarrow> Inr sm)"

inductive shared_step ::
  "('w, 'r, 'd) worker_env \<Rightarrow> 'h histogram_ops \<Rightarrow> 'm insert_map_ops \<Rightarrow> ('h, 'm, 'w, 'r) shared_system \<Rightarrow>
     ('h, 'm, 'w, 'r) shared_system \<Rightarrow> bool"
  for E :: "('w, 'r, 'd) worker_env" and H :: "'h histogram_ops" and M :: "'m insert_map_ops" where
  starts: "i < length (sh_workers x) \<Longrightarrow> wk_exceptions_statistic (sh_workers x ! i) = None \<Longrightarrow>
    senderLoop E H M (sh_workers x ! i) (sh_manager x) = Inr (w', sm') \<Longrightarrow>
    shared_step E H M x (x\<lparr>sh_workers := (sh_workers x)[i := w'], sh_manager := sm'\<rparr>)"
| works: "i < length (sh_workers x) \<Longrightarrow> wk_exceptions_statistic (sh_workers x ! i) \<noteq> None \<Longrightarrow>
    worker_step E (sh_workers x ! i) w' \<Longrightarrow>
    shared_step E H M x (x\<lparr>sh_workers := (sh_workers x)[i := w']\<rparr>)"
| applies: "i < length (sh_workers x) \<Longrightarrow> sh_applied x ! i < length (wk_effects (sh_workers x ! i)) \<Longrightarrow>
    apply_effect H M (wk_effects (sh_workers x ! i) ! (sh_applied x ! i)) (sh_manager x) = Inr sm' \<Longrightarrow>
    shared_step E H M x (x\<lparr>sh_manager := sm', sh_applied := (sh_applied x)[i := Suc (sh_applied x ! i)]\<rparr>)"

text \<open>Any number of workers that were constructed and run, and a fresh manager.\<close>

definition worker_ran :: "('w, 'r) worker \<Rightarrow> bool" where
  "worker_ran w \<longleftrightarrow> (\<exists>F ready b id n c m wl cpu. worker_run F ready (Worker8 b id n c m wl cpu) = Some (Inr w))"

definition shared_init :: "('h, 'm, 'w, 'r) shared_system \<Rightarrow> bool" where
  "shared_init x \<longleftrightarrow> sh_manager x = StatisticsManager \<and> (\<forall>w\<in>set (sh_workers x). worker_ran w) \<and>
     sh_applied x = replicate (length (sh_workers x)) 0"

section \<open>What a worker does to the statistics\<close>

text \<open>The statistics an effect goes to are those the worker got when it started.\<close>

definition uses_own :: "('w, 'r) worker \<Rightarrow> 'r effect \<Rightarrow> bool" where
  "uses_own w x = (case x of
     Add_value p v \<Rightarrow> Some p \<in> {wk_latency_statistic w, wk_throughput_statistic w, wk_outstanding_statistic w}
   | Increase p n k \<Rightarrow> Some p \<in> {wk_exceptions_statistic w, wk_uncaught_exceptions_statistic w}
   | _ \<Rightarrow> True)"

definition uses_inv :: "('w, 'r) worker \<Rightarrow> bool" where
  "uses_inv w \<longleftrightarrow> list_all (uses_own w) (wk_effects w)"

definition same_statistics :: "('w, 'r) worker \<Rightarrow> ('w, 'r) worker \<Rightarrow> bool" where
  "same_statistics w w' \<longleftrightarrow> wk_latency_statistic w' = wk_latency_statistic w \<and>
     wk_throughput_statistic w' = wk_throughput_statistic w \<and>
     wk_outstanding_statistic w' = wk_outstanding_statistic w \<and>
     wk_exceptions_statistic w' = wk_exceptions_statistic w \<and>
     wk_uncaught_exceptions_statistic w' = wk_uncaught_exceptions_statistic w"

lemma same_statistics_refl [simp]: "same_statistics w w"
  by (simp add: same_statistics_def)

lemma same_statistics_trans: "same_statistics u v \<Longrightarrow> same_statistics v w \<Longrightarrow> same_statistics u w"
  by (simp add: same_statistics_def)

lemma uses_own_same: "same_statistics w w' \<Longrightarrow> uses_own w' = uses_own w"
  by (intro ext) (simp add: uses_own_def same_statistics_def split: effect.split)

text \<open>What an operation may do to the log: append effects on the worker's own statistics.\<close>

definition logs_own :: "('w, 'r) worker \<Rightarrow> ('w, 'r) worker \<Rightarrow> bool" where
  "logs_own w w' \<longleftrightarrow> same_statistics w w' \<and> (\<exists>xs. wk_effects w' = wk_effects w @ xs \<and> list_all (uses_own w) xs)"

lemma logs_own_refl [simp]: "logs_own w w"
  by (simp add: logs_own_def)

lemma logs_own_trans: "logs_own u v \<Longrightarrow> logs_own v w \<Longrightarrow> logs_own u w"
  using uses_own_same [of u v] by (auto simp: logs_own_def intro: same_statistics_trans)

lemma logs_own_uses: "logs_own w w' \<Longrightarrow> uses_inv w \<Longrightarrow> uses_inv w'"
  using uses_own_same [of w w'] by (auto simp: logs_own_def uses_inv_def)

lemma logs_own_emit: "uses_own w x \<Longrightarrow> logs_own w (emit x w)"
  by (simp add: logs_own_def emit_def same_statistics_def)

lemma logs_own_add_value:
  "add_value p v w = Inr w' \<Longrightarrow> p \<in> {wk_latency_statistic w, wk_throughput_statistic w, wk_outstanding_statistic w} \<Longrightarrow>
   logs_own w w'"
  by (auto simp: add_value_eq intro!: logs_own_emit simp: uses_own_def)

lemma estimate_throughput_own:
  assumes "estimate_throughput E w = Inr w'"
  shows "logs_own w w'"
proof -
  obtain t elapsed where t: "nowNs (we_clock E) (wk_ticks w) = Inr t" "check_int64 (t - wk_last_throughput_time w) = Inr elapsed"
    using assms by (auto simp: estimate_throughput_def res_bind_eq_Inr read_clock_eq)
  show ?thesis
  proof (cases "double_of (1 / 10) \<le> double_of_int elapsed / double_of_int k_ns_per_s")
    case True
    then obtain p q u v where "wk_throughput_statistic w = Some p" "wk_outstanding_statistic w = Some q"
      "w' = w\<lparr>wk_ticks := wk_ticks w + 1, wk_n_throughput_requests := 0,
        wk_last_throughput_time := t, wk_effects := wk_effects w @ [Add_value p u, Add_value q v]\<rparr>"
      using assms t
      by (auto simp: estimate_throughput_def read_clock_def res_bind_eq_Inr add_value_eq emit_def Let_def
          simp del: k_ns_per_s_def)
    then show ?thesis by (simp add: logs_own_def same_statistics_def uses_own_def)
  next
    case False
    then have "w' = w\<lparr>wk_ticks := wk_ticks w + 1\<rparr>"
      using assms t by (simp add: estimate_throughput_def read_clock_def Let_def del: k_ns_per_s_def)
    then show ?thesis by (simp add: logs_own_def same_statistics_def)
  qed
qed

lemma flush_counts_own:
  assumes "flush_counts p m w = Inr w'" "p \<in> {wk_exceptions_statistic w, wk_uncaught_exceptions_statistic w}"
  shows "logs_own w w'"
proof -
  obtain fs where "flush_log p m fs" "w' = w\<lparr>wk_effects := wk_effects w @ fs\<rparr>"
    using flush_counts_eq [OF assms(1)] by blast
  then show ?thesis
    using assms(2) by (auto simp: flush_log_def flushed_def logs_own_def same_statistics_def uses_own_def list_all_iff)
qed

lemma estimate_own:
  assumes "estimate E w = Inr w'"
  shows "logs_own w w'"
proof -
  obtain w1 w2 w3 where 1: "estimate_throughput E w = Inr w1"
    and 2: "flush_counts (wk_exceptions_statistic w1) (wk_n_exceptions_by_type w1) w1 = Inr w2"
    and 3: "flush_counts (wk_uncaught_exceptions_statistic w2) (wk_n_uncaught_exceptions_by_type w2)
      (w2\<lparr>wk_n_exceptions_by_type := []\<rparr>) = Inr w3"
    and w': "w' = setWorkerCounter kOutstandingRequestsCounter (wk_outstanding_requests w3)
      (w3\<lparr>wk_n_uncaught_exceptions_by_type := []\<rparr>)"
    using assms unfolding estimate_def res_bind_eq_Inr sum.inject by metis
  have "logs_own w w2"
    using estimate_throughput_own [OF 1] flush_counts_own [OF 2] by (auto intro: logs_own_trans)
  moreover have "logs_own w2 w3"
    using flush_counts_own [OF 3] uses_own_same [of w2 "w2\<lparr>wk_n_exceptions_by_type := []\<rparr>"]
    by (auto simp: logs_own_def same_statistics_def)
  moreover have "logs_own w3 w'"
    by (simp add: w' setWorkerCounter_def emit_def logs_own_def same_statistics_def uses_own_def)
  ultimately show ?thesis using logs_own_trans by blast
qed

lemma send_next_own:
  assumes "send_next E w = Inr (b, w')"
  shows "logs_own w w'"
proof (cases b)
  case True
  then have "send_next E w = Inr (True, w')" using assms by simp
  then show ?thesis by (rule send_next_sent) (simp add: logs_own_def same_statistics_def uses_own_def)
next
  case False
  then have "send_next E w = Inr (False, w')" using assms by simp
  then show ?thesis by (rule send_next_null) (simp add: logs_own_def same_statistics_def uses_own_def)
qed

lemma sendRequest_own:
  assumes "worker_sendRequest E w = Inr w'"
  shows "logs_own w w'"
  using assms
  by (cases rule: worker_sendRequest_forms) (blast intro: estimate_own send_next_own logs_own_trans)+

lemma reply_own:
  assumes "reply E i t w = Inr w'"
  shows "logs_own w w'"
proof -
  obtain w0 w1 rt where fl: "read_clock E w = Inr (rt, w0)"
    and w1: "(if wk_running w0
               then res_bind (check_int64 (rt - fl_send_time (wk_in_flight w ! i))) (\<lambda>d.
                      add_value (wk_latency_statistic w0) (double_of_int d / double_of 1000) w0)
               else Inr w0) = Inr w1"
    using assms by (auto simp: reply_def res_bind_eq_Inr vec_at_eq_Inr)
  have "logs_own w w0" using fl by (auto simp: read_clock_eq logs_own_def same_statistics_def)
  moreover have "logs_own w0 w1" using w1 by (auto simp: res_bind_eq_Inr intro: logs_own_add_value split: if_splits)
  moreover have "logs_own w1 w'"
    using assms w1 fl
    by (auto simp: reply_def res_bind_eq_Inr vec_at_eq_Inr Let_def complete_promise_eq setWorkerCounter_def emit_def
        logs_own_def same_statistics_def uses_own_def)
  ultimately show ?thesis using logs_own_trans by blast
qed

lemma worker_step_own:
  assumes "worker_step E w w'"
  shows "logs_own w w'"
  using assms
proof (cases rule: worker_step_forms)
  case sends
  then show ?thesis by (intro sendRequest_own)
next
  case (replied i t)
  then show ?thesis by (rule reply_own)
qed (simp_all add: logs_own_def same_statistics_def uses_own_def)

text \<open>No counter is decreased, as long as the counts of a worker fit an \<open>int64_t\<close>.\<close>

fun adds :: "'r effect \<Rightarrow> bool" where
  "adds (Increase p n k) \<longleftrightarrow> 0 \<le> n"
| "adds _ \<longleftrightarrow> True"

definition amounts_inv :: "('w, 'r) worker \<Rightarrow> bool" where
  "amounts_inv w \<longleftrightarrow> (int (length (wk_effects w)) < 2 ^ 63 \<longrightarrow> list_all adds (wk_effects w))"

lemma no_account_adds: "no_account x \<Longrightarrow> adds x"
  by (cases x) simp_all

lemma no_accounts_adds: "list_all no_account xs \<Longrightarrow> list_all adds xs"
  by (auto simp: list_all_iff no_account_adds)

lemma amounts_inv_frame:
  "amounts_inv w \<Longrightarrow> wk_effects w' = wk_effects w @ xs \<Longrightarrow> list_all adds xs \<Longrightarrow> amounts_inv w'"
  by (auto simp: amounts_inv_def)

lemma flushed_adds:
  assumes "accounted m p xs" "int (length xs) < 2 ^ 63"
  shows "list_all adds (flushed q m)"
proof -
  have "0 \<le> to_int64 (uint n)" if "(k, n) \<in> set m" for k n
  proof -
    have "map_of m k = Some n" using assms(1) that by (simp add: accounted_def)
    then have "uint n < 2 ^ 63" using accounted_pending [OF assms, of k] by (simp add: pending_def)
    then have "in_int64 (uint n)" using uint_ge_0 [of n] unfolding in_int64_def by (intro conjI) (linarith, simp)
    then show ?thesis using uint_ge_0 [of n] by simp
  qed
  then show ?thesis by (auto simp: flushed_def list_all_iff)
qed

lemma estimate_amounts:
  assumes "estimate E w = Inr w'" "exceptions_inv w" "amounts_inv w"
  shows "amounts_inv w'"
proof -
  obtain p q where pq: "wk_exceptions_statistic w = Some p" "wk_uncaught_exceptions_statistic w = Some q"
    and acc: "accounted (wk_n_exceptions_by_type w) p (wk_effects w)"
      "accounted (wk_n_uncaught_exceptions_by_type w) q (wk_effects w)"
    using assms(2) by (auto simp: exceptions_inv_def)
  obtain n t xs fs ys z where xs: "list_all no_account xs" "no_account z"
    and fs: "flush_log (wk_exceptions_statistic w) (wk_n_exceptions_by_type w) fs"
    "flush_log (wk_uncaught_exceptions_statistic w) (wk_n_uncaught_exceptions_by_type w) ys"
    and w': "w' = w\<lparr>wk_ticks := wk_ticks w + 1, wk_n_throughput_requests := n, wk_last_throughput_time := t,
           wk_n_exceptions_by_type := [], wk_n_uncaught_exceptions_by_type := [],
           wk_effects := wk_effects w @ xs @ fs @ ys @ [z]\<rparr>"
    by (rule estimate_eq [OF assms(1)])
  have f: "fs = flushed p (wk_n_exceptions_by_type w)" "ys = flushed q (wk_n_uncaught_exceptions_by_type w)"
    using fs pq by (auto simp: flush_log_def)
  show ?thesis
    using assms(3) flushed_adds [OF acc(1)] flushed_adds [OF acc(2)] no_accounts_adds [OF xs(1)] no_account_adds [OF xs(2)]
    by (auto simp: amounts_inv_def w' f)
qed

lemma send_next_amounts:
  assumes "send_next E w = Inr (b, w')" "amounts_inv w"
  shows "amounts_inv w'"
proof (cases b)
  case True
  then have "send_next E w = Inr (True, w')" using assms(1) by simp
  then show ?thesis by (rule send_next_sent) (rule amounts_inv_frame [OF assms(2)], simp+)
next
  case False
  then have "send_next E w = Inr (False, w')" using assms(1) by simp
  then show ?thesis by (rule send_next_null) (rule amounts_inv_frame [OF assms(2)], simp+)
qed

lemma reply_amounts:
  assumes "reply E i t w = Inr w'" "amounts_inv w"
  shows "amounts_inv w'"
proof -
  obtain n xs z where xs: "list_all no_account xs" "no_account z"
    and w': "w' = w\<lparr>wk_ticks := wk_ticks w + 1, wk_n_throughput_requests := n,
           wk_n_exceptions_by_type := count_exception (exception_class t) (wk_n_exceptions_by_type w),
           wk_n_uncaught_exceptions_by_type := count_exception (exception_class t) (wk_n_uncaught_exceptions_by_type w),
           wk_outstanding_requests := to_int64 (wk_outstanding_requests w - 1),
           wk_in_flight := take i (wk_in_flight w) @ drop (i + 1) (wk_in_flight w),
           wk_effects := wk_effects w @ xs @ [Set_promise (exception_class t), z]\<rparr>"
    by (rule reply_eq [OF assms(1)])
  show ?thesis
    by (rule amounts_inv_frame [OF assms(2)])
      (use xs in \<open>auto simp: w' no_accounts_adds no_account_adds\<close>)
qed

lemma worker_step_amounts:
  assumes "worker_step E w w'" "exceptions_inv w" "amounts_inv w"
  shows "amounts_inv w'"
  using assms(1)
proof (cases rule: worker_step_forms)
  case sends
  from sends(3) show ?thesis
    by (cases rule: worker_sendRequest_forms)
      (use assms(2,3) estimate_amounts send_next_amounts send_next_exceptions in blast)+
next
  case (replied i t)
  then show ?thesis using reply_amounts assms(3) by blast
qed (use assms(3) in \<open>simp_all add: amounts_inv_def\<close>)

section \<open>Starting on the shared manager\<close>

fun silent :: "'r effect \<Rightarrow> bool" where
  "silent (Add_value p v) \<longleftrightarrow> False"
| "silent (Increase p n k) \<longleftrightarrow> False"
| "silent (Set_promise e) \<longleftrightarrow> False"
| "silent _ \<longleftrightarrow> True"

lemma silent_uses: "silent x \<Longrightarrow> uses_own w x"
  by (cases x) (simp_all add: uses_own_def)

lemma silent_account: "silent x \<Longrightarrow> no_account x \<or> (\<exists>c r. x = Sent c r)"
  by (cases x) simp_all

lemma silent_adds: "silent x \<Longrightarrow> adds x"
  by (cases x) simp_all

definition names :: "pointer option \<Rightarrow> pointer option \<Rightarrow> bool" where
  "names p q \<longleftrightarrow> (\<exists>r. p = Some r \<and> q = Some r)"

definition shares :: "('h, 'm) statistics_manager \<Rightarrow> ('w, 'r) worker \<Rightarrow> bool" where
  "shares sm w \<longleftrightarrow> names (wk_exceptions_statistic w) (sm_count_map sm EXCEPTIONS) \<and>
     names (wk_uncaught_exceptions_statistic w) (sm_count_map sm UNCAUGHT_EXCEPTIONS) \<and>
     names (wk_latency_statistic w) (sm_histo_map sm REQUEST_LATENCY) \<and>
     names (wk_throughput_statistic w) (sm_histo_map sm THROUGHPUT) \<and>
     names (wk_outstanding_statistic w) (sm_histo_map sm OUTSTANDING_REQUESTS)"

lemma senderLoop_shares:
  assumes "senderLoop E H M w sm = Inr (w', sm')" "manager_wf sm"
  obtains hs cs p q where "manager_wf sm'" "shares sm' w'"
    "\<forall>d r. manager_entry d sm = Some r \<longrightarrow> manager_entry d sm' = Some r"
    "sm_histograms sm' = sm_histograms sm @ hs" "sm_counters sm' = sm_counters sm @ cs"
    "set cs \<subseteq> range (CounterStatistic M)"
    "wk_exceptions_statistic w' = Some p" "wk_uncaught_exceptions_statistic w' = Some q" "p \<noteq> q"
    "wk_n_exceptions_by_type w' = wk_n_exceptions_by_type w" 
    "wk_n_uncaught_exceptions_by_type w' = wk_n_uncaught_exceptions_by_type w" 
    "\<exists>xs. wk_effects w' = wk_effects w @ xs \<and> list_all silent xs"
proof -
  obtain p1 sm1 where 1: "getContinuousStat H OUTSTANDING_REQUESTS sm = (p1, sm1)" by force
  obtain p2 sm2 where 2: "getContinuousStat H THROUGHPUT sm1 = (p2, sm2)" by force
  obtain p3 sm3 where 3: "getContinuousStat H REQUEST_LATENCY sm2 = (p3, sm3)" by force
  obtain p4 sm4 where 4: "getCounterStat M EXCEPTIONS sm3 = (p4, sm4)" by force
  obtain p5 sm5 where 5: "getCounterStat M UNCAUGHT_EXCEPTIONS sm4 = (p5, sm5)" by force
  let ?xs = "(if wk_cpu_affinity w \<noteq> -1 then [Set_affinity (wk_cpu_affinity w)] else []) @ [Start_consuming]"
  obtain t where w': "sm' = sm5" "w' = w\<lparr>wk_ticks := wk_ticks w + 1, wk_outstanding_statistic := Some p1,
      wk_throughput_statistic := Some p2, wk_latency_statistic := Some p3, wk_exceptions_statistic := Some p4,
      wk_uncaught_exceptions_statistic := Some p5, wk_last_throughput_time := t, wk_consuming := True,
      wk_effects := wk_effects w @ ?xs\<rparr>"
    using assms(1) unfolding senderLoop_def 1 2 3 4 5 Let_def split
    by (cases "wk_cpu_affinity w = -1") (auto simp: res_bind_eq_Inr read_clock_eq emit_def)
  let ?cs = "[Get_continuous OUTSTANDING_REQUESTS, Get_continuous THROUGHPUT,
      Get_continuous REQUEST_LATENCY, Get_counter EXCEPTIONS, Get_counter UNCAUGHT_EXCEPTIONS]"
  have ps: "manager_calls H M ?cs sm = ([p1, p2, p3, p4, p5], sm5)"
    using 1 2 3 4 5 by (simp del: OUTSTANDING_REQUESTS_def THROUGHPUT_def REQUEST_LATENCY_def EXCEPTIONS_def UNCAUGHT_EXCEPTIONS_def)
  note all = manager_calls_steps [OF ps assms(2)]
  have e: "manager_entry (?cs ! i) sm5 = Some ([p1, p2, p3, p4, p5] ! i)" if "i < 5" for i using all that by simp
  have entries: "sm_histo_map sm5 OUTSTANDING_REQUESTS = Some p1" "sm_histo_map sm5 THROUGHPUT = Some p2"
    "sm_histo_map sm5 REQUEST_LATENCY = Some p3" "sm_count_map sm5 EXCEPTIONS = Some p4"
    "sm_count_map sm5 UNCAUGHT_EXCEPTIONS = Some p5"
    using e [of 0] e [of 1] e [of 2] e [of 3] e [of 4] by simp_all
  have "p4 \<noteq> p5"
    using all manager_entry_inject [of sm5 "Get_counter EXCEPTIONS" "Get_counter UNCAUGHT_EXCEPTIONS" p4] entries by auto
  moreover obtain hs cs where "sm_histograms sm5 = sm_histograms sm @ hs" "sm_counters sm5 = sm_counters sm @ cs"
    "set cs \<subseteq> range (CounterStatistic M)" using all by blast
  moreover have "manager_wf sm5" "\<forall>d r. manager_entry d sm = Some r \<longrightarrow> manager_entry d sm5 = Some r" using all by blast+
  ultimately show ?thesis
    by (intro that [of hs cs p4 p5]) (simp_all add: w' shares_def names_def entries del: OUTSTANDING_REQUESTS_def THROUGHPUT_def
        REQUEST_LATENCY_def EXCEPTIONS_def UNCAUGHT_EXCEPTIONS_def)
qed

lemma shares_mono:
  assumes "shares sm w" "\<forall>d r. manager_entry d sm = Some r \<longrightarrow> manager_entry d sm' = Some r"
  shows "shares sm' w"
proof -
  have c: "sm_count_map sm n = Some r \<Longrightarrow> sm_count_map sm' n = Some r" for n r
    using assms(2) by (auto dest: spec [of _ "Get_counter n"])
  have h: "sm_histo_map sm n = Some r \<Longrightarrow> sm_histo_map sm' n = Some r" for n r
    using assms(2) by (auto dest: spec [of _ "Get_continuous n"])
  show ?thesis using assms(1) unfolding shares_def names_def by (blast intro: c h)
qed

lemma shares_same: "shares sm w \<Longrightarrow> same_statistics w w' \<Longrightarrow> shares sm w'"
  by (simp add: shares_def same_statistics_def)

section \<open>The invariant\<close>

definition worker_unstarted :: "('w, 'r) worker \<Rightarrow> bool" where
  "worker_unstarted w \<longleftrightarrow> wk_exceptions_statistic w = None \<and> list_all silent (wk_effects w) \<and>
     wk_n_exceptions_by_type w = [] \<and> wk_n_uncaught_exceptions_by_type w = []"

definition own_ok :: "('h, 'm) statistics_manager \<Rightarrow> ('w, 'r) worker \<Rightarrow> bool" where
  "own_ok sm w \<longleftrightarrow> uses_inv w \<and> amounts_inv w \<and> (worker_unstarted w \<or> exceptions_inv w \<and> shares sm w)"

lemma worker_ran_unstarted: "worker_ran w \<Longrightarrow> worker_unstarted w"
  by (auto simp: worker_ran_def worker_unstarted_def Worker8_def setWorkerCounter_def emit_def dest!: worker_run_eq)

lemma unstarted_ok: "worker_unstarted w \<Longrightarrow> own_ok sm w"
  by (auto simp: own_ok_def worker_unstarted_def uses_inv_def amounts_inv_def list_all_iff silent_uses silent_adds)

lemma silent_no_account:
  "list_all silent xs \<Longrightarrow> increases p k xs = 0 \<and> exceptions_of k xs = 0"
proof (induction xs)
  case (Cons x xs)
  then show ?case by (cases x) simp_all
qed simp

lemma senderLoop_ok:
  assumes "senderLoop E H M w sm = Inr (w', sm')" "manager_wf sm" "worker_unstarted w"
  shows "own_ok sm' w'" 
  using assms(1,2)
proof (rule senderLoop_shares)
  fix hs cs p q
  assume w': "shares sm' w'" "wk_exceptions_statistic w' = Some p" "wk_uncaught_exceptions_statistic w' = Some q" "p \<noteq> q"
    "wk_n_exceptions_by_type w' = wk_n_exceptions_by_type w"
    "wk_n_uncaught_exceptions_by_type w' = wk_n_uncaught_exceptions_by_type w"
    "\<exists>xs. wk_effects w' = wk_effects w @ xs \<and> list_all silent xs"
  then have s: "list_all silent (wk_effects w')" using assms(3) by (auto simp: worker_unstarted_def)
  have "exceptions_inv w'"
    using w'(2-6) assms(3) silent_no_account [OF s]
    by (simp add: exceptions_inv_def accounted_def worker_unstarted_def pending_def)
  moreover have "uses_inv w'" "amounts_inv w'"
    using s by (auto simp: uses_inv_def amounts_inv_def list_all_iff silent_uses silent_adds)
  ultimately show ?thesis using w'(1) by (simp add: own_ok_def)
qed

lemma worker_step_ok:
  assumes "worker_step E w w'" "own_ok sm w" "wk_exceptions_statistic w \<noteq> None"
  shows "own_ok sm w'"
  using assms logs_own_uses [OF worker_step_own [OF assms(1)]] worker_step_amounts [OF assms(1)]
    worker_step_exceptions [OF assms(1)] worker_step_own [OF assms(1)]
  by (auto simp: own_ok_def worker_unstarted_def logs_own_def intro: shares_same)

lemma own_ok_mono:
  assumes "own_ok sm w" "\<forall>d r. manager_entry d sm = Some r \<longrightarrow> manager_entry d sm' = Some r"
  shows "own_ok sm' w"
  using assms shares_mono by (auto simp: own_ok_def)

text \<open>Every effect goes to an object that exists.\<close>

lemma own_ok_valid:
  assumes "own_ok sm w" "manager_wf sm"
  shows "Increase p n k \<in> set (wk_effects w) \<Longrightarrow> p < length (sm_counters sm)"
    "Add_value q v \<in> set (wk_effects w) \<Longrightarrow> q < length (sm_histograms sm)"
proof -
  have c: "r < length (sm_counters sm)" if "sm_count_map sm m = Some r" for m r
    using assms(2) that by (auto simp: manager_wf_def ran_def)
  have h: "r < length (sm_histograms sm)" if "sm_histo_map sm m = Some r" for m r
    using assms(2) that by (auto simp: manager_wf_def ran_def)
  have not_silent: "\<not> worker_unstarted w" if "x \<in> set (wk_effects w)" "\<not> silent x" for x
    using that by (auto simp: worker_unstarted_def list_all_iff)
  show "p < length (sm_counters sm)" if "Increase p n k \<in> set (wk_effects w)"
  proof -
    have "\<not> worker_unstarted w" by (rule not_silent [OF that]) simp
    then have "shares sm w" "uses_own w (Increase p n k)" using assms(1) that by (auto simp: own_ok_def uses_inv_def list_all_iff)
    then have "Some p = sm_count_map sm EXCEPTIONS \<or> Some p = sm_count_map sm UNCAUGHT_EXCEPTIONS"
      by (auto simp: uses_own_def shares_def names_def)
    then show ?thesis using c by metis
  qed
  show "q < length (sm_histograms sm)" if "Add_value q v \<in> set (wk_effects w)"
  proof -
    have "\<not> worker_unstarted w" by (rule not_silent [OF that]) simp
    then have "shares sm w" "uses_own w (Add_value q v)" using assms(1) that by (auto simp: own_ok_def uses_inv_def list_all_iff)
    then have "Some q = sm_histo_map sm REQUEST_LATENCY \<or> Some q = sm_histo_map sm THROUGHPUT \<or>
        Some q = sm_histo_map sm OUTSTANDING_REQUESTS"
      by (auto simp: uses_own_def shares_def names_def)
    then show ?thesis using h by metis
  qed
qed

end
