(* ===== verification/Shared_Properties.thy ===== *)
theory Shared_Properties
  imports Shared_Statistics
begin

text \<open>
  The shared counters hold what the workers added: the invariant of \<open>shared_step\<close>, by which each counter
  is the result of exactly the multiset of increases that the workers' logs contain up to the calls that
  have taken place, and the properties from the replies to the printed counts.
\<close>

section \<open>The increases of a counter\<close>

fun incs :: "pointer \<Rightarrow> 'r effect list \<Rightarrow> (int64 \<times> string) list" where
  "incs p [] = []"
| "incs p (Increase q n k # xs) = (if q = p then (n, k) # incs p xs else incs p xs)"
| "incs p (_ # xs) = incs p xs"

lemma incs_append [simp]: "incs p (xs @ ys) = incs p xs @ incs p ys"
  by (induction p xs rule: incs.induct) simp_all

lemma incs_increases: "subkey_total k (incs p xs) = increases p k xs"
  by (induction p xs rule: incs.induct) simp_all

lemma incs_mem: "(n, k) \<in> set (incs p xs) \<longleftrightarrow> Increase p n k \<in> set xs"
  by (induction p xs rule: incs.induct) auto

lemma incs_other: "(\<And>n k. x \<noteq> Increase p n k) \<Longrightarrow> incs p [x] = []"
  by (cases x) auto

lemma increase_all_append: "increase_all M (xs @ ys) c = res_bind (increase_all M xs c) (increase_all M ys)"
proof (induction xs arbitrary: c)
  case (Cons x xs)
  then have "increase_all M (xs @ ys) = (\<lambda>c. res_bind (increase_all M xs c) (increase_all M ys))" by (intro ext)
  then show ?case by (simp add: res_bind_assoc)
qed simp

definition mtotal :: "string \<Rightarrow> (int64 \<times> string) multiset \<Rightarrow> int" where
  "mtotal k X = sum_mset (image_mset fst (filter_mset (\<lambda>x. snd x = k) X))"

lemma mtotal_add: "mtotal k (X + Y) = mtotal k X + mtotal k Y"
  by (simp add: mtotal_def)

lemma mtotal_mset: "mtotal k (mset xs) = subkey_total k xs"
  by (induction xs) (simp_all add: mtotal_def)

lemma mtotal_sum: "mtotal k (\<Sum>i<n. f i) = (\<Sum>i<(n :: nat). mtotal k (f i))"
  by (induction n) (simp_all add: mtotal_add mtotal_def [of k "{#}"])

lemma sum_update_at:
  fixes f g :: "nat \<Rightarrow> 'a :: comm_monoid_add"
  assumes "i < n" "g i = f i + d" "\<And>j. j < n \<Longrightarrow> j \<noteq> i \<Longrightarrow> g j = f j"
  shows "(\<Sum>j<n. g j) = (\<Sum>j<n. f j) + d"
proof -
  have i: "finite {..<n}" "i \<in> {..<n}" using assms(1) by simp_all
  have rest: "sum g ({..<n} - {i}) = sum f ({..<n} - {i})" by (rule sum.cong) (use assms(3) in auto)
  show ?thesis
    unfolding sum.remove [OF i, of g] sum.remove [OF i, of f] rest assms(2) by (simp only: ac_simps)
qed

section \<open>The invariant\<close>

definition performed :: "('h, 'm, 'w, 'r) shared_system \<Rightarrow> nat \<Rightarrow> 'r effect list" where
  "performed x i = take (sh_applied x ! i) (wk_effects (sh_workers x ! i))"

definition performed_incs :: "('h, 'm, 'w, 'r) shared_system \<Rightarrow> pointer \<Rightarrow> (int64 \<times> string) multiset" where
  "performed_incs x p = (\<Sum>i<length (sh_workers x). mset (incs p (performed x i)))"

definition shared_inv :: "'m insert_map_ops \<Rightarrow> ('h, 'm, 'w, 'r) shared_system \<Rightarrow> bool" where
  "shared_inv M x \<longleftrightarrow> manager_wf (sh_manager x) \<and> length (sh_applied x) = length (sh_workers x) \<and>
     (\<forall>i<length (sh_workers x). sh_applied x ! i \<le> length (wk_effects (sh_workers x ! i)) \<and>
        own_ok (sh_manager x) (sh_workers x ! i)) \<and>
     (\<forall>p<length (sm_counters (sh_manager x)). \<exists>xs.
        increase_all M xs (CounterStatistic M []) = Inr (sm_counters (sh_manager x) ! p) \<and> mset xs = performed_incs x p)"

lemma shared_inv_init: "shared_init x \<Longrightarrow> shared_inv M x"
  using StatisticsManager_wf worker_ran_unstarted unstarted_ok
  by (fastforce simp: shared_init_def shared_inv_def StatisticsManager_def)

text \<open>A step of a worker only appends to its log.\<close>

lemma performed_extend:
  assumes "sh_workers y = (sh_workers x)[i := w']" "sh_applied y = sh_applied x"
    "wk_effects w' = wk_effects (sh_workers x ! i) @ xs" "sh_applied x ! i \<le> length (wk_effects (sh_workers x ! i))"
    "j < length (sh_workers x)"
  shows "performed y j = performed x j"
  using assms by (cases "i = j") (simp_all add: performed_def)

lemma performed_incs_extend:
  assumes "sh_workers y = (sh_workers x)[i := w']" "sh_applied y = sh_applied x"
    "wk_effects w' = wk_effects (sh_workers x ! i) @ xs" "sh_applied x ! i \<le> length (wk_effects (sh_workers x ! i))"
  shows "performed_incs y p = performed_incs x p"
  unfolding performed_incs_def assms(1) length_list_update
  using performed_extend [OF assms] by (intro sum.cong) simp_all

lemma performed_incs_fresh:
  assumes "shared_inv M x" "length (sm_counters (sh_manager x)) \<le> p"
  shows "performed_incs x p = {#}"
proof -
  have "incs p (performed x i) = []" if i: "i < length (sh_workers x)" for i
  proof -
    have "own_ok (sh_manager x) (sh_workers x ! i)" "manager_wf (sh_manager x)"
      using assms(1) i by (auto simp: shared_inv_def)
    then have "Increase p n k \<notin> set (wk_effects (sh_workers x ! i))" for n k
      using own_ok_valid(1) assms(2) by (metis leD)
    then have "(n, k) \<notin> set (incs p (performed x i))" for n k
      unfolding incs_mem performed_def using in_set_takeD by fast
    then show ?thesis by (cases "incs p (performed x i)") auto
  qed
  then show ?thesis by (simp add: performed_incs_def)
qed

lemma shared_inv_starts:
  assumes inv: "shared_inv M x" and i: "i < length (sh_workers x)" "wk_exceptions_statistic (sh_workers x ! i) = None"
    and loop: "senderLoop E H M (sh_workers x ! i) (sh_manager x) = Inr (w', sm')"
  shows "shared_inv M (x\<lparr>sh_workers := (sh_workers x)[i := w'], sh_manager := sm'\<rparr>)" (is "shared_inv M ?y")
proof -
  have wf: "manager_wf (sh_manager x)" and ok: "\<And>j. j < length (sh_workers x) \<Longrightarrow> own_ok (sh_manager x) (sh_workers x ! j)"
    and a: "\<And>j. j < length (sh_workers x) \<Longrightarrow> sh_applied x ! j \<le> length (wk_effects (sh_workers x ! j))"
    using inv by (auto simp: shared_inv_def)
  have un: "worker_unstarted (sh_workers x ! i)" using ok [OF i(1)] i(2) by (auto simp: own_ok_def exceptions_inv_def)
  obtain hs cs xs where w': "manager_wf sm'"
    "\<forall>d r. manager_entry d (sh_manager x) = Some r \<longrightarrow> manager_entry d sm' = Some r"
    "sm_counters sm' = sm_counters (sh_manager x) @ cs" "set cs \<subseteq> range (CounterStatistic M)"
    "wk_effects w' = wk_effects (sh_workers x ! i) @ xs"
    using loop wf by (rule senderLoop_shares) blast
  have eff: "performed_incs ?y p = performed_incs x p" for p
    by (rule performed_incs_extend [OF _ _ w'(5) a [OF i(1)]]) simp_all
  have counters: "\<exists>xs. increase_all M xs (CounterStatistic M []) = Inr (sm_counters sm' ! p) \<and> mset xs = performed_incs ?y p"
    if p: "p < length (sm_counters sm')" for p
  proof (cases "p < length (sm_counters (sh_manager x))")
    case True
    then show ?thesis using inv w'(3) eff by (simp add: shared_inv_def nth_append)
  next
    case False
    then have "sm_counters sm' ! p \<in> set cs" using p w'(3) by (simp add: nth_append)
    then have "sm_counters sm' ! p = CounterStatistic M []" using w'(4) by (auto simp: CounterStatistic_def)
    moreover have "performed_incs ?y p = {#}" using performed_incs_fresh [OF inv] False eff by simp
    ultimately show ?thesis by (intro exI [of _ "[]"]) simp
  qed
  have "own_ok sm' ((sh_workers x)[i := w'] ! j)" if "j < length (sh_workers x)" for j
    using senderLoop_ok [OF loop wf un] own_ok_mono [OF ok [OF that] w'(2)] that by (cases "j = i") simp_all
  moreover have "sh_applied x ! j \<le> length (wk_effects ((sh_workers x)[i := w'] ! j))" if "j < length (sh_workers x)" for j
    using a [OF that] w'(5) that by (cases "j = i") simp_all
  ultimately show ?thesis using w'(1) inv counters by (simp add: shared_inv_def)
qed

lemma shared_inv_works:
  assumes inv: "shared_inv M x" and i: "i < length (sh_workers x)" "wk_exceptions_statistic (sh_workers x ! i) \<noteq> None"
    and step: "worker_step E (sh_workers x ! i) w'"
  shows "shared_inv M (x\<lparr>sh_workers := (sh_workers x)[i := w']\<rparr>)" (is "shared_inv M ?y")
proof -
  have ok: "\<And>j. j < length (sh_workers x) \<Longrightarrow> own_ok (sh_manager x) (sh_workers x ! j)"
    and a: "\<And>j. j < length (sh_workers x) \<Longrightarrow> sh_applied x ! j \<le> length (wk_effects (sh_workers x ! j))"
    using inv by (auto simp: shared_inv_def)
  obtain xs where xs: "wk_effects w' = wk_effects (sh_workers x ! i) @ xs"
    using worker_step_own [OF step] by (auto simp: logs_own_def)
  have "performed_incs ?y p = performed_incs x p" for p
    by (rule performed_incs_extend [OF _ _ xs a [OF i(1)]]) simp_all
  moreover have "own_ok (sh_manager x) ((sh_workers x)[i := w'] ! j)" if "j < length (sh_workers x)" for j
    using worker_step_ok [OF step ok [OF i(1)] i(2)] ok [OF that] that by (cases "j = i") simp_all
  moreover have "sh_applied x ! j \<le> length (wk_effects ((sh_workers x)[i := w'] ! j))" if "j < length (sh_workers x)" for j
    using a [OF that] xs that by (cases "j = i") simp_all
  ultimately show ?thesis using inv by (simp add: shared_inv_def)
qed

lemma apply_effect_frame:
  assumes "apply_effect H M x sm = Inr sm'"
  shows "manager_wf sm \<Longrightarrow> manager_wf sm'" "manager_entry d sm' = manager_entry d sm"
    "length (sm_counters sm') = length (sm_counters sm)"
    "p < length (sm_counters sm) \<Longrightarrow>
       increase_all M (incs p [x]) (sm_counters sm ! p) = Inr (sm_counters sm' ! p)"
proof -
  have f: "sm_histo_map sm' = sm_histo_map sm \<and> sm_count_map sm' = sm_count_map sm \<and>
      length (sm_histograms sm') = length (sm_histograms sm) \<and> length (sm_counters sm') = length (sm_counters sm) \<and>
      (p < length (sm_counters sm) \<longrightarrow> increase_all M (incs p [x]) (sm_counters sm ! p) = Inr (sm_counters sm' ! p))"
    using assms
    by (cases x) (auto simp: apply_effect_def res_map_eq_Inr res_bind_eq_Inr vec_at_eq_Inr nth_list_update)
  show "manager_wf sm \<Longrightarrow> manager_wf sm'" using f by (simp add: manager_wf_def)
  show "manager_entry d sm' = manager_entry d sm" using f by (cases d) simp_all
qed (use assms in \<open>cases x; auto simp: apply_effect_def res_map_eq_Inr res_bind_eq_Inr vec_at_eq_Inr nth_list_update\<close>)+

lemma shared_inv_applies:
  assumes inv: "shared_inv M x" and i: "i < length (sh_workers x)" "sh_applied x ! i < length (wk_effects (sh_workers x ! i))"
    and app: "apply_effect H M (wk_effects (sh_workers x ! i) ! (sh_applied x ! i)) (sh_manager x) = Inr sm'"
  shows "shared_inv M (x\<lparr>sh_manager := sm', sh_applied := (sh_applied x)[i := Suc (sh_applied x ! i)]\<rparr>)" (is "shared_inv M ?y")
proof -
  let ?e = "wk_effects (sh_workers x ! i) ! (sh_applied x ! i)"
  note frame = apply_effect_frame [OF app]
  have wf: "manager_wf (sh_manager x)" "length (sh_applied x) = length (sh_workers x)"
    and ok: "\<And>j. j < length (sh_workers x) \<Longrightarrow> own_ok (sh_manager x) (sh_workers x ! j)"
    and a: "\<And>j. j < length (sh_workers x) \<Longrightarrow> sh_applied x ! j \<le> length (wk_effects (sh_workers x ! j))"
    using inv by (auto simp: shared_inv_def)
  have more: "performed_incs ?y p = performed_incs x p + mset (incs p [?e])" for p
    unfolding performed_incs_def
    using i wf(2) by (simp, intro sum_update_at [of i]) (simp_all add: performed_def take_Suc_conv_app_nth)
  have counters: "\<exists>xs. increase_all M xs (CounterStatistic M []) = Inr (sm_counters sm' ! p) \<and> mset xs = performed_incs ?y p"
    if p: "p < length (sm_counters (sh_manager x))" for p
  proof -
    obtain xs where xs: "increase_all M xs (CounterStatistic M []) = Inr (sm_counters (sh_manager x) ! p)"
      "mset xs = performed_incs x p" using inv p by (auto simp: shared_inv_def)
    then show ?thesis
      using frame(4) [OF p] more by (intro exI [of _ "xs @ incs p [?e]"]) (simp add: increase_all_append)
  qed
  have "own_ok sm' (sh_workers x ! j)" if "j < length (sh_workers x)" for j
    by (rule own_ok_mono [OF ok [OF that]]) (simp add: frame(2))
  moreover have "(sh_applied x)[i := Suc (sh_applied x ! i)] ! j \<le> length (wk_effects (sh_workers x ! j))"
    if "j < length (sh_workers x)" for j
    using a [OF that] i wf(2) that by (cases "j = i") simp_all
  ultimately show ?thesis using wf frame(1,3) counters by (simp add: shared_inv_def)
qed

lemma shared_inv_step: "shared_inv M x \<Longrightarrow> shared_step E H M x y \<Longrightarrow> shared_inv M y"
  by (elim shared_step.cases) (auto intro: shared_inv_starts shared_inv_works shared_inv_applies)

interpretation shared: step_invariant shared_init "shared_step E H M" "shared_inv M" for E H M
  by unfold_locales (auto intro: shared_inv_init shared_inv_step)

section \<open>Bounds\<close>

text \<open>The classes under which the workers have added something, and the length of all logs.\<close>

definition classes :: "('w, 'r) worker list \<Rightarrow> string set" where
  "classes ws = (\<Union>w\<in>set ws. {k. \<exists>p n. Increase p n k \<in> set (wk_effects w)})"

definition log_length :: "('w, 'r) worker list \<Rightarrow> int" where
  "log_length ws = (\<Sum>w\<leftarrow>ws. int (length (wk_effects w)))"

lemma finite_classes:
  fixes ws :: "('w, 'r) worker list"
  shows "finite (classes ws)"
proof -
  have "{k. \<exists>p n. Increase p n k \<in> set xs} \<subseteq> (\<lambda>x. case x of Increase p n k \<Rightarrow> k | _ \<Rightarrow> []) ` set xs"
    for xs :: "'r effect list" by (force simp: image_iff)
  then have "finite {k. \<exists>p n. Increase p n k \<in> set xs}" for xs :: "'r effect list"
    by (rule finite_subset) simp
  then show ?thesis by (simp add: classes_def)
qed

lemma log_length_member: "w \<in> set ws \<Longrightarrow> int (length (wk_effects w)) \<le> log_length ws"
  unfolding log_length_def by (intro member_le_sum_list) auto

lemma sum_nth: "(\<Sum>i<length xs. f (xs ! i)) = sum_list (map f xs)"
  for f :: "'a \<Rightarrow> int"
  by (simp add: sum_list_sum_nth lessThan_atLeast0)

lemma increases_accounted:
  assumes "own_ok sm w" "int (length (wk_effects w)) < 2 ^ 63"
    and "names p (sm_count_map sm EXCEPTIONS)" "names q (sm_count_map sm UNCAUGHT_EXCEPTIONS)"
  shows "increases (the p) k (wk_effects w) = exceptions_of k (wk_effects w) - pending (wk_n_exceptions_by_type w) k"
    "increases (the q) k (wk_effects w) = exceptions_of k (wk_effects w) - pending (wk_n_uncaught_exceptions_by_type w) k"
    "0 \<le> increases (the p) k (wk_effects w)" "0 \<le> increases (the q) k (wk_effects w)"
proof -
  have "increases (the p) k (wk_effects w) = exceptions_of k (wk_effects w) - pending (wk_n_exceptions_by_type w) k \<and>
    increases (the q) k (wk_effects w) = exceptions_of k (wk_effects w) - pending (wk_n_uncaught_exceptions_by_type w) k \<and>
    0 \<le> increases (the p) k (wk_effects w) \<and> 0 \<le> increases (the q) k (wk_effects w)"
  proof (cases "worker_unstarted w")
    case True
    then show ?thesis using silent_no_account [of "wk_effects w"] by (simp add: worker_unstarted_def pending_def)
  next
    case False
    then have w: "exceptions_inv w" "shares sm w" using assms(1) by (auto simp: own_ok_def)
    then have "wk_exceptions_statistic w = p" "wk_uncaught_exceptions_statistic w = q"
      using assms(3,4) by (auto simp: shares_def names_def)
    then show ?thesis using w(1) assms(2) by (auto simp: exceptions_inv_def accounted_def)
  qed
  then show "increases (the p) k (wk_effects w) = exceptions_of k (wk_effects w) - pending (wk_n_exceptions_by_type w) k"
    "increases (the q) k (wk_effects w) = exceptions_of k (wk_effects w) - pending (wk_n_uncaught_exceptions_by_type w) k"
    "0 \<le> increases (the p) k (wk_effects w)" "0 \<le> increases (the q) k (wk_effects w)" by simp_all
qed

text \<open>The history of a counter: the increases that have been performed on it, in some order.\<close>

lemma counter_history:
  assumes "shared_inv M x" "p < length (sm_counters (sh_manager x))"
  obtains xs where "increase_all M xs (CounterStatistic M []) = Inr (sm_counters (sh_manager x) ! p)"
    "mset xs = performed_incs x p" "subkeys xs \<subseteq> classes (sh_workers x)"
proof -
  obtain xs where xs: "increase_all M xs (CounterStatistic M []) = Inr (sm_counters (sh_manager x) ! p)"
    "mset xs = performed_incs x p"
    using assms by (auto simp: shared_inv_def)
  have "subkeys xs \<subseteq> classes (sh_workers x)"
  proof
    fix j assume "j \<in> subkeys xs"
    then obtain n where "(n, j) \<in> set xs" by (auto simp: subkeys_def)
    then have "(n, j) \<in># performed_incs x p" unfolding xs(2) [symmetric] by simp
    then obtain i where "i < length (sh_workers x)" "(n, j) \<in> set (incs p (performed x i))"
      by (auto simp: performed_incs_def set_mset_sum)
    then have "i < length (sh_workers x)" "Increase p n j \<in> set (wk_effects (sh_workers x ! i))"
      by (auto simp: incs_mem performed_def dest: in_set_takeD)
    then show "j \<in> classes (sh_workers x)" by (force simp: classes_def)
  qed
  then show ?thesis using that xs by blast
qed

text \<open>The counter that a state with every call performed holds.\<close>

lemma shared_counter:
  assumes M: "atomic_insert_map M slots capacity" and inv: "shared_inv M x" and p: "p < length (sm_counters (sh_manager x))"
    and all: "\<forall>i<length (sh_workers x). sh_applied x ! i = length (wk_effects (sh_workers x ! i))"
    and room: "card (classes (sh_workers x)) < 10 * 1024"
    and range: "in_int64 (\<Sum>w\<leftarrow>sh_workers x. increases p k (wk_effects w))" and k: "k \<noteq> []"
  shows "\<exists>c'. getCount_subkey M k (sm_counters (sh_manager x) ! p) =
    Inr (\<Sum>w\<leftarrow>sh_workers x. increases p k (wk_effects w), c')"
proof -
  let ?c = "sm_counters (sh_manager x) ! p" and ?new = "CounterStatistic M []"
  let ?n = "\<Sum>w\<leftarrow>sh_workers x. increases p k (wk_effects w)"
  have new: "slots (cs_subkey_count ?new) = Map.empty" "capacity (cs_subkey_count ?new) = 10 * 1024" "cs_count ?new = 0"
    by (simp_all add: CounterStatistic_def atomic_insert_map.slots_new [OF M])
  obtain xs where xs: "increase_all M xs ?new = Inr ?c" "mset xs = performed_incs x p"
    and keys: "subkeys xs \<subseteq> classes (sh_workers x)"
    by (rule counter_history [OF inv p])
  have perf: "performed x i = wk_effects (sh_workers x ! i)" if "i < length (sh_workers x)" for i
    using all that by (simp add: performed_def)
  have "subkey_total k xs = (\<Sum>i<length (sh_workers x). increases p k (wk_effects (sh_workers x ! i)))"
    unfolding mtotal_mset [symmetric] xs(2) performed_incs_def mtotal_sum
    using perf by (intro sum.cong) (simp_all add: mtotal_mset incs_increases)
  then have total: "subkey_total k xs = ?n" 
    using sum_nth [where f = "\<lambda>w. increases p k (wk_effects w)"] by simp
  have "\<forall>k v. slots (cs_subkey_count ?new) k = Some v \<longrightarrow> in_int64 v" by (simp add: new)
  note after = atomic_insert_map.increase_all_slots [OF M xs(1) this]
  have "card (dom (slots (cs_subkey_count ?c))) < capacity (cs_subkey_count ?c)"
    using after new room card_mono [OF finite_classes keys] by simp
  from atomic_insert_map.findOrConstruct_room [OF M this]
  obtain m where m: "im_findOrConstruct M k 0 (cs_subkey_count ?c) = Inr m" by blast
  have "slots m k = Some (slot_value (slots (cs_subkey_count ?c)) k)"
    using atomic_insert_map.findOrConstruct_slots(1) [OF M m] by (simp add: slot_value_def)
  moreover have "slot_value (slots (cs_subkey_count ?c)) k = ?n"
    using after k total range new by (simp add: slot_value_def)
  ultimately show ?thesis using m atomic_insert_map.data [OF M] by (simp add: getCount_subkey_def)
qed

lemma increases_sum_range:
  assumes "\<forall>w\<in>set ws. 0 \<le> increases p k (wk_effects w) \<and> increases p k (wk_effects w) \<le> exceptions_of k (wk_effects w)"
    and "log_length ws < 2 ^ 63"
  shows "in_int64 (\<Sum>w\<leftarrow>ws. increases p k (wk_effects w))"
proof -
  have "0 \<le> (\<Sum>w\<leftarrow>ws. increases p k (wk_effects w))" using assms(1) by (intro sum_list_nonneg) auto
  moreover have "(\<Sum>w\<leftarrow>ws. increases p k (wk_effects w)) \<le> log_length ws"
    unfolding log_length_def using assms(1) by (intro sum_list_mono) (blast intro: order_trans exceptions_of_bounds(2))
  ultimately show ?thesis using assms(2) unfolding in_int64_def by simp
qed

section \<open>The calls cannot fail\<close>

definition amount_sum :: "pointer \<Rightarrow> 'r effect list \<Rightarrow> int" where
  "amount_sum p xs = sum_list (map fst (incs p xs))"

lemma amount_sum_append: "amount_sum p (xs @ ys) = amount_sum p xs + amount_sum p ys"
  by (simp add: amount_sum_def)

lemma amount_sum_nonneg: "list_all adds xs \<Longrightarrow> 0 \<le> amount_sum p xs"
  unfolding amount_sum_def by (intro sum_list_nonneg) (force simp: incs_mem list_all_iff)

lemma amount_sum_take: "list_all adds xs \<Longrightarrow> amount_sum p (take n xs) \<le> amount_sum p xs"
  using amount_sum_append [of p "take n xs" "drop n xs"] amount_sum_nonneg [of "drop n xs" p]
  by (auto simp: list_all_iff dest: in_set_dropD)

lemma exceptions_of_Cons:
  "exceptions_of k (x # xs) = (case x of Set_promise (Some j) \<Rightarrow> if j = k then 1 else 0 | _ \<Rightarrow> 0) + exceptions_of k xs"
proof (cases x)
  case (Set_promise e)
  then show ?thesis by (cases e) simp_all
qed simp_all

lemma sum_exceptions_of: "finite S \<Longrightarrow> (\<Sum>k\<in>S. exceptions_of k xs) \<le> int (length xs)"
proof (induction xs)
  case (Cons x xs)
  have "(\<Sum>k\<in>S. case x of Set_promise (Some j) \<Rightarrow> if j = k then 1 else 0 | _ \<Rightarrow> 0) \<le> (1 :: int)"
  proof (cases x)
    case (Set_promise e)
    then show ?thesis using Cons.prems by (cases e) simp_all
  qed simp_all
  then show ?case using Cons by (simp add: exceptions_of_Cons sum.distrib)
qed simp

text \<open>A worker never adds more than it has seen exceptions.\<close>

lemma amount_sum_bound:
  assumes "own_ok sm w" "int (length (wk_effects w)) < 2 ^ 63"
  shows "amount_sum p (wk_effects w) \<le> int (length (wk_effects w))"
proof -
  have le: "increases p k (wk_effects w) \<le> exceptions_of k (wk_effects w)" for k
  proof (cases "worker_unstarted w")
    case True
    then show ?thesis using silent_no_account [of "wk_effects w"] by (simp add: worker_unstarted_def)
  next
    case False
    then obtain r s where w: "exceptions_inv w" "wk_exceptions_statistic w = Some r" "wk_uncaught_exceptions_statistic w = Some s"
      using assms(1) by (auto simp: own_ok_def exceptions_inv_def)
    have inc: "increases p k (wk_effects w) = 0" if "p \<noteq> r" "p \<noteq> s"
    proof -
      have "Increase p n j \<notin> set (wk_effects w)" for n j
        using assms(1) w that by (auto simp: own_ok_def uses_inv_def list_all_iff uses_own_def dest!: bspec)
      then have "(n, j) \<notin> set (incs p (wk_effects w))" for n j unfolding incs_mem .
      then have "incs p (wk_effects w) = []" by (cases "incs p (wk_effects w)") auto
      then show ?thesis using incs_increases [of k p "wk_effects w"] by simp
    qed
    have "exceptions_of k (wk_effects w) = pending (wk_n_exceptions_by_type w) k + increases r k (wk_effects w)"
      "exceptions_of k (wk_effects w) = pending (wk_n_uncaught_exceptions_by_type w) k + increases s k (wk_effects w)"
      using w assms(2) unfolding exceptions_inv_def accounted_def by auto
    then have "increases r k (wk_effects w) \<le> exceptions_of k (wk_effects w)" "increases s k (wk_effects w) \<le> exceptions_of k (wk_effects w)"
      using pending_nonneg [of "wk_n_exceptions_by_type w" k] pending_nonneg [of "wk_n_uncaught_exceptions_by_type w" k]
      by linarith+
    then show ?thesis using inc exceptions_of_bounds(1) [of k "wk_effects w"] by metis
  qed
  let ?S = "insert [] (subkeys (incs p (wk_effects w)))"
  have "[] \<notin> subkeys (incs p (wk_effects w))" by (simp add: subkeys_def)
  then have "amount_sum p (wk_effects w) = (\<Sum>k\<in>?S. increases p k (wk_effects w))"
    unfolding amount_sum_def by (subst sum_subkey_total) (simp add: incs_increases)
  also have "\<dots> \<le> (\<Sum>k\<in>?S. exceptions_of k (wk_effects w))" by (intro sum_mono le)
  also have "\<dots> \<le> int (length (wk_effects w))" by (rule sum_exceptions_of) simp
  finally show ?thesis .
qed

definition msum :: "(int64 \<times> string) multiset \<Rightarrow> int" where
  "msum X = sum_mset (image_mset fst X)"

lemma msum_mset: "msum (mset xs) = sum_list (map fst xs)"
  by (induction xs) (simp_all add: msum_def)

lemma msum_sum: "msum (\<Sum>i<n. f i) = (\<Sum>i<(n :: nat). msum (f i))"
  by (induction n) (simp_all add: msum_def)

lemma increase_bound:
  assumes inv: "shared_inv M x" and i: "i < length (sh_workers x)" "sh_applied x ! i < length (wk_effects (sh_workers x ! i))"
    and e: "wk_effects (sh_workers x ! i) ! (sh_applied x ! i) = Increase p n k"
    and len: "log_length (sh_workers x) < 2 ^ 63"
  shows "0 \<le> n" "0 \<le> msum (performed_incs x p)" "msum (performed_incs x p) + n \<le> log_length (sh_workers x)"
proof -
  let ?ws = "sh_workers x"
  have ok: "own_ok (sh_manager x) (?ws ! j)" "int (length (wk_effects (?ws ! j))) < 2 ^ 63" if "j < length ?ws" for j
    using inv that log_length_member [of "?ws ! j" ?ws] len by (auto simp: shared_inv_def)
  then have adds: "list_all adds (wk_effects (?ws ! j))" if "j < length ?ws" for j
    using that by (auto simp: own_ok_def amounts_inv_def)
  have "adds (wk_effects (?ws ! i) ! (sh_applied x ! i))" using adds [OF i(1)] i(2) by (simp add: list_all_length)
  then show "0 \<le> n" unfolding e by simp
  have s: "msum (performed_incs x p) = (\<Sum>j<length ?ws. amount_sum p (performed x j))"
    by (simp add: performed_incs_def msum_sum msum_mset amount_sum_def)
  show "0 \<le> msum (performed_incs x p)"
    unfolding s using adds by (intro sum_nonneg amount_sum_nonneg) (auto simp: performed_def list_all_iff dest: in_set_takeD)
  let ?after = "\<lambda>j. take (if j = i then Suc (sh_applied x ! j) else sh_applied x ! j) (wk_effects (?ws ! j))"
  have "(\<Sum>j<length ?ws. amount_sum p (?after j)) = (\<Sum>j<length ?ws. amount_sum p (performed x j)) + n"
    using i e by (intro sum_update_at [of i]) (simp_all add: performed_def take_Suc_conv_app_nth amount_sum_def)
  moreover have "(\<Sum>j<length ?ws. amount_sum p (?after j)) \<le> (\<Sum>j<length ?ws. int (length (wk_effects (?ws ! j))))"
    using amount_sum_take [OF adds] amount_sum_bound [OF ok] by (intro sum_mono) (meson lessThan_iff order_trans)
  moreover have "\<dots> = log_length ?ws"
    using sum_nth [where f = "\<lambda>w. int (length (wk_effects w))"] by (simp add: log_length_def)
  ultimately show "msum (performed_incs x p) + n \<le> log_length ?ws" using s by simp
qed

lemma shared_apply_defined:
  assumes M: "atomic_insert_map M slots capacity" and inv: "shared_inv M x"
    and i: "i < length (sh_workers x)" "sh_applied x ! i < length (wk_effects (sh_workers x ! i))"
    and len: "log_length (sh_workers x) < 2 ^ 63" and room: "card (classes (sh_workers x)) < 10 * 1024"
  shows "\<exists>sm'. apply_effect H M (wk_effects (sh_workers x ! i) ! (sh_applied x ! i)) (sh_manager x) = Inr sm'"
proof -
  let ?e = "wk_effects (sh_workers x ! i) ! (sh_applied x ! i)"
  have ok: "own_ok (sh_manager x) (sh_workers x ! i)" "manager_wf (sh_manager x)" "?e \<in> set (wk_effects (sh_workers x ! i))"
    using inv i by (auto simp: shared_inv_def)
  show ?thesis
  proof (cases ?e)
    case (Add_value p v)
    then show ?thesis using own_ok_valid(2) [OF ok(1,2)] ok(3) by (simp add: apply_effect_def)
  next
    case (Increase p n k)
    then have p: "p < length (sm_counters (sh_manager x))" using own_ok_valid(1) [OF ok(1,2)] ok(3) by simp
    let ?c = "sm_counters (sh_manager x) ! p" and ?new = "CounterStatistic M []"
    have new: "slots (cs_subkey_count ?new) = Map.empty" "capacity (cs_subkey_count ?new) = 10 * 1024" "cs_count ?new = 0"
      by (simp_all add: CounterStatistic_def atomic_insert_map.slots_new [OF M])
    obtain xs where xs: "increase_all M xs ?new = Inr ?c" "mset xs = performed_incs x p" "subkeys xs \<subseteq> classes (sh_workers x)"
      by (rule counter_history [OF inv p])
    have "\<forall>k v. slots (cs_subkey_count ?new) k = Some v \<longrightarrow> in_int64 v" by (simp add: new)
    note after = atomic_insert_map.increase_all_slots [OF M xs(1) this]
    have count: "cs_count ?c = msum (performed_incs x p)" using after new xs(2) msum_mset [of xs] by simp
    have "in_int64 (cs_count ?c + n)"
      using increase_bound [OF inv i Increase len] len unfolding count in_int64_def by (intro conjI) simp_all
    moreover have "card (dom (slots (cs_subkey_count ?c)) \<union> ({k} - {[]})) \<le> capacity (cs_subkey_count ?c)"
    proof -
      have "k \<in> classes (sh_workers x)" using ok(3) Increase i(1) by (force simp: classes_def)
      then have "dom (slots (cs_subkey_count ?c)) \<union> ({k} - {[]}) \<subseteq> classes (sh_workers x)" using after new xs(3) by auto
      from card_mono [OF finite_classes this] show ?thesis using after new room by simp
    qed
    ultimately show ?thesis
      using atomic_insert_map.increase_defined [OF M, of ?c n k] p Increase by (auto simp: apply_effect_def)
  qed (simp_all add: apply_effect_def)
qed

lemma shared_settles:
  assumes "atomic_insert_map M slots capacity" "shared_inv M x" "log_length (sh_workers x) < 2 ^ 63"
    and "card (classes (sh_workers x)) < 10 * 1024"
  shows "\<exists>y. (shared_step E H M)\<^sup>*\<^sup>* x y \<and> sh_workers y = sh_workers x \<and>
    (\<forall>i<length (sh_workers y). sh_applied y ! i = length (wk_effects (sh_workers y ! i)))"
  using assms(2-)
proof (induction "\<Sum>i<length (sh_workers x). length (wk_effects (sh_workers x ! i)) - sh_applied x ! i"
    arbitrary: x rule: less_induct)
  case less
  have le: "sh_applied x ! i \<le> length (wk_effects (sh_workers x ! i))" "length (sh_applied x) = length (sh_workers x)"
    if "i < length (sh_workers x)" for i
    using less.prems(1) that by (auto simp: shared_inv_def)
  show ?case
  proof (cases "\<forall>i<length (sh_workers x). sh_applied x ! i = length (wk_effects (sh_workers x ! i))")
    case False
    then obtain i where i: "i < length (sh_workers x)" "sh_applied x ! i < length (wk_effects (sh_workers x ! i))"
      using le by (metis le_neq_implies_less)
    obtain sm' where app: "apply_effect H M (wk_effects (sh_workers x ! i) ! (sh_applied x ! i)) (sh_manager x) = Inr sm'"
      using shared_apply_defined [OF assms(1) less.prems(1) i less.prems(2,3)] by blast
    let ?y = "x\<lparr>sh_manager := sm', sh_applied := (sh_applied x)[i := Suc (sh_applied x ! i)]\<rparr>"
    have step: "shared_step E H M x ?y" by (rule shared_step.applies [OF i app])
    have "(\<Sum>j<length (sh_workers ?y). length (wk_effects (sh_workers ?y ! j)) - sh_applied ?y ! j) <
        (\<Sum>j<length (sh_workers x). length (wk_effects (sh_workers x ! j)) - sh_applied x ! j)"
    proof (simp, rule sum_strict_mono_ex1)
      show "\<exists>j\<in>{..<length (sh_workers x)}. length (wk_effects (sh_workers x ! j)) -
          (sh_applied x)[i := Suc (sh_applied x ! i)] ! j < length (wk_effects (sh_workers x ! j)) - sh_applied x ! j"
        using i le(2) [OF i(1)] by (intro bexI [of _ i]) auto
    qed (use i le(2) [OF i(1)] in \<open>auto simp: nth_list_update\<close>)
    from less.hyps [OF this shared_inv_step [OF less.prems(1) step]] less.prems(2,3)
    obtain z where "(shared_step E H M)\<^sup>*\<^sup>* ?y z" "sh_workers z = sh_workers x"
      "\<forall>i<length (sh_workers z). sh_applied z ! i = length (wk_effects (sh_workers z ! i))" by auto
    then show ?thesis using step by (blast intro: converse_rtranclp_into_rtranclp)
  qed blast
qed

section \<open>A run with an exception\<close>

definition still_env :: "(workload_base, sleep_request, dynamic_value) worker_env" where
  "still_env = \<lparr>we_workload = sleep_ops default_flags, we_clock = (\<lambda>_. Some \<lparr>tv_sec = 1, tv_nsec = 0\<rparr>),
     we_dynamic = dynamic_value_ops\<rparr>"

lemma still_clock: "read_clock still_env w = Inr (1000000000, w\<lparr>wk_ticks := wk_ticks w + 1\<rparr>)"
  by (simp add: read_clock_def still_env_def nowNs_def in_int64_def)

lemma no_time_passed: "\<not> double_of (1 / 10) \<le> double_of_int 0 / double_of_int k_ns_per_s"
proof -
  have "\<bar>nearest64 (1 / 10) - 1 / 10\<bar> \<le> \<bar>1 / 10\<bar> / 2 ^ 53" by (rule nearest64_rel_error_small) simp
  then have "0 < nearest64 (1 / 10)" unfolding abs_le_iff by simp
  moreover have "double_of (1 / 10) = Fin (nearest64 (1 / 10))"
    using round64_int_bounded(1) [of "1 / 10" 1] by (simp add: double_of_def)
  moreover have "double_of_int 0 / double_of_int k_ns_per_s = Fin 0"
    using round64_int_bounded(1) [of 0 0] nearest64_of_int [of 0] by simp
  ultimately show ?thesis by (auto simp: less_eq_double_def)
qed

lemma still_estimate:
  assumes "wk_last_throughput_time w = 1000000000" "wk_exceptions_statistic w = Some p" "wk_uncaught_exceptions_statistic w = Some q"
  shows "estimate still_env w = Inr (setWorkerCounter kOutstandingRequestsCounter (wk_outstanding_requests w)
    (w\<lparr>wk_ticks := wk_ticks w + 1, wk_n_exceptions_by_type := [], wk_n_uncaught_exceptions_by_type := [],
       wk_effects := wk_effects w @ flushed p (wk_n_exceptions_by_type w) @ flushed q (wk_n_uncaught_exceptions_by_type w)\<rparr>))"
proof -
  have "estimate_throughput still_env w = Inr (w\<lparr>wk_ticks := wk_ticks w + 1\<rparr>)"
    using assms(1) no_time_passed by (simp add: estimate_throughput_def still_clock Let_def del: k_ns_per_s_def)
  then show ?thesis using assms(2,3) by (simp add: estimate_def flush_counts_Some setWorkerCounter_def emit_def)
qed

definition run_worker :: "(workload_base, sleep_request) worker" where
  "run_worker = (Worker8 False 0 1 4 2 \<lparr>wl_phase = []\<rparr> (-1))\<lparr>wk_running := True, wk_sender_thread := Joinable\<rparr>"

lemma run_worker_ran: "worker_ran run_worker"
  unfolding worker_ran_def run_worker_def
  by (rule exI [of _ default_flags], rule exI [of _ "\<lambda>_ _. True"], rule exI [of _ False], rule exI [of _ 0],
      rule exI [of _ 1], rule exI [of _ 4], rule exI [of _ 2], rule exI [of _ "\<lparr>wl_phase = []\<rparr>"], rule exI [of _ "-1"])
    (simp add: worker_run_def Worker8_def setWorkerCounter_def emit_def)

definition send_event :: "dynamic_value event" where
  "send_event = Event_of dynamic_value_ops SEND_REQUEST"

text \<open>The worker starts, sends a request, gets an exception, and sends another.\<close>

lemma exception_run:
  obtains w0 w1 w2 w3 sm where
    "senderLoop still_env list_histogram bounded_alist_ops run_worker StatisticsManager = Inr (w0, sm)"
    "wk_exceptions_statistic w0 = Some 0" "wk_consuming w0" "messageAvailable still_env send_event w0 = Inr w1"
    "wk_exceptions_statistic w1 = Some 0" "reply still_env 0 (Exception ''E'' [] :: unit reply_try) w1 = Inr w2"
    "wk_exceptions_statistic w2 = Some 0" "wk_consuming w2" "messageAvailable still_env send_event w2 = Inr w3"
    "exceptions_of ''E'' (wk_effects w3) = 1" "wk_n_exceptions_by_type w3 = []"
    "{k. \<exists>p n. Increase p n k \<in> set (wk_effects w3)} = {''E''}" "length (wk_effects w3) < 20"
proof -
  let ?id = "''worker.0.outstanding_requests''"
  define w0 where "w0 = run_worker\<lparr>wk_ticks := 1, wk_outstanding_statistic := Some 0, wk_throughput_statistic := Some 1,
    wk_latency_statistic := Some 2, wk_exceptions_statistic := Some 0, wk_uncaught_exceptions_statistic := Some 1,
    wk_last_throughput_time := 1000000000, wk_consuming := True,
    wk_effects := [Set_counter ?id 0, Start_consuming]\<rparr>"
  have id: "''worker.'' @ string_of_int 0 @ ''.'' @ kOutstandingRequestsCounter = ?id"
    by (simp add: kOutstandingRequestsCounter_def string_of_int_def string_of_nat.simps)
  obtain sm where 0: "senderLoop still_env list_histogram bounded_alist_ops run_worker StatisticsManager = Inr (w0, sm)"
    using id by (simp add: senderLoop_def Let_def still_clock getContinuousStat_def getCounterStat_def StatisticsManager_def
        w0_def run_worker_def Worker8_def setWorkerCounter_def emit_def)
  obtain r where r: "wl_getNextRequest (we_workload still_env) \<lparr>wl_phase = []\<rparr> = Inr (Some r, \<lparr>wl_phase = []\<rparr>)"
    by (simp add: still_env_def sleep_getNextRequest_def)
  define w1 where "w1 = w0\<lparr>wk_ticks := 3, wk_outstanding_requests := 1, wk_conn_idx := 1,
    wk_in_flight := [\<lparr>fl_conn = 0, fl_send_time = 1000000000, fl_request = r\<rparr>],
    wk_effects := [Set_counter ?id 0, Start_consuming, Sent 0 r, Set_counter ?id 1]\<rparr>"
  have 1: "messageAvailable still_env send_event w0 = Inr w1"
    using id r
    by (simp add: messageAvailable_def send_event_def worker_sendRequest_def send_next_def still_clock still_estimate
        w1_def w0_def run_worker_def Worker8_def setWorkerCounter_def emit_def Let_def in_int64_def)
  define w2 where "w2 = w1\<lparr>wk_ticks := 4, wk_n_throughput_requests := 1, wk_n_exceptions_by_type := [(''E'', 1)],
    wk_n_uncaught_exceptions_by_type := [(''E'', 1)], wk_outstanding_requests := 0, wk_in_flight := [],
    wk_effects := wk_effects w1 @ [Add_value 2 (double_of_int 0 / double_of 1000), Set_promise (Some ''E''), Set_counter ?id 0]\<rparr>"
  have 2: "reply still_env 0 (Exception ''E'' [] :: unit reply_try) w1 = Inr w2"
    using id
    by (simp add: reply_def still_clock add_value_def complete_promise_def increment_def w2_def w1_def w0_def run_worker_def
        Worker8_def setWorkerCounter_def emit_def Let_def in_int64_def del: double_of_int_exact)
  define w3 where "w3 = w2\<lparr>wk_ticks := 6, wk_outstanding_requests := 1, wk_conn_idx := 2, wk_n_exceptions_by_type := [],
    wk_n_uncaught_exceptions_by_type := [],
    wk_in_flight := [\<lparr>fl_conn = 1, fl_send_time = 1000000000, fl_request = r\<rparr>],
    wk_effects := wk_effects w2 @ [Sent 1 r, Increase 0 1 ''E'', Increase 1 1 ''E'', Set_counter ?id 1]\<rparr>"
  have 3: "messageAvailable still_env send_event w2 = Inr w3"
    using id r
    by (simp add: messageAvailable_def send_event_def worker_sendRequest_def send_next_def still_clock still_estimate
        w3_def w2_def w1_def w0_def run_worker_def Worker8_def setWorkerCounter_def emit_def Let_def in_int64_def
        del: double_of_int_exact)
  have e: "wk_effects w3 = [Set_counter ?id 0, Start_consuming, Sent 0 r, Set_counter ?id 1,
      Add_value 2 (double_of_int 0 / double_of 1000), Set_promise (Some ''E''), Set_counter ?id 0,
      Sent 1 r, Increase 0 1 ''E'', Increase 1 1 ''E'', Set_counter ?id 1]"
    by (simp add: w3_def w2_def w1_def)
  show ?thesis
    by (rule that [OF 0 _ _ 1 _ 2 _ _ 3]) (auto simp: e, simp_all add: w3_def w2_def w1_def w0_def)
qed

lemma exception_system:
  obtains x y :: "(double list, bounded_alist, workload_base, sleep_request) shared_system" and w where
    "shared_init x" "(shared_step still_env list_histogram bounded_alist_ops)\<^sup>*\<^sup>* x y" "sh_workers y = [w]"
    "exceptions_of ''E'' (wk_effects w) = 1" "wk_n_exceptions_by_type w = []" "wk_exceptions_statistic w = Some 0"
    "log_length [w] < 2 ^ 63" "card (classes [w]) < 10 * 1024"
proof -
  let ?step = "shared_step still_env list_histogram bounded_alist_ops"
  obtain w0 w1 w2 w3 sm where r: "senderLoop still_env list_histogram bounded_alist_ops run_worker StatisticsManager = Inr (w0, sm)"
    "wk_exceptions_statistic w0 = Some 0" "wk_consuming w0" "messageAvailable still_env send_event w0 = Inr w1"
    "wk_exceptions_statistic w1 = Some 0" "reply still_env 0 (Exception ''E'' [] :: unit reply_try) w1 = Inr w2"
    "wk_exceptions_statistic w2 = Some 0" "wk_consuming w2" "messageAvailable still_env send_event w2 = Inr w3"
    "exceptions_of ''E'' (wk_effects w3) = 1" "wk_n_exceptions_by_type w3 = []"
    "{k. \<exists>p n. Increase p n k \<in> set (wk_effects w3)} = {''E''}" "length (wk_effects w3) < 20"
    by (rule exception_run)
  define x :: "(double list, bounded_alist, workload_base, sleep_request) shared_system"
    where "x = \<lparr>sh_manager = StatisticsManager, sh_workers = [run_worker], sh_applied = [0]\<rparr>"
  define state where "state = (\<lambda>w :: (workload_base, sleep_request) worker. \<lparr>sh_manager = sm, sh_workers = [w], sh_applied = [0]\<rparr>)"
  have "wk_exceptions_statistic run_worker = None" by (simp add: run_worker_def Worker8_def setWorkerCounter_def emit_def)
  then have "?step x (state w0)"
    using shared_step.starts [of 0 x still_env list_histogram bounded_alist_ops w0 sm] r(1) by (simp add: x_def state_def)
  moreover have work: "?step (state u) (state v)" if "worker_step still_env u v" "wk_exceptions_statistic u = Some 0" for u v
    using shared_step.works [of 0 "state u" still_env v list_histogram bounded_alist_ops] that by (simp add: state_def)
  have "?step (state w0) (state w1)" by (rule work [OF worker_step.message [OF r(3,4)] r(2)])
  moreover have "?step (state w1) (state w2)" by (rule work [OF worker_step.continuation [OF r(6)] r(5)])
  moreover have "?step (state w2) (state w3)" by (rule work [OF worker_step.message [OF r(8,9)] r(7)])
  ultimately have "?step\<^sup>*\<^sup>* x (state w3)" by (meson converse_rtranclp_into_rtranclp rtranclp.rtrancl_refl)
  moreover have "shared_init x" using run_worker_ran by (simp add: shared_init_def x_def)
  moreover have "wk_exceptions_statistic w3 = Some 0"
    using worker_step_own [OF worker_step.message [OF r(8,9)]] r(7) by (simp add: logs_own_def same_statistics_def)
  ultimately show ?thesis
    using that [of x "state w3" w3] r(10-13) by (simp add: state_def log_length_def classes_def)
qed

section \<open>Properties\<close>

text \<open>
  C10. The printed exception counts. For any number of workers that start on one manager and whose calls
  on the shared statistics interleave in any way, and for every insert-only map that meets its contract:
  when the calls made so far have taken place, the shared counter of exceptions reports, for every
  class, the number of replies to all workers that ended in an exception of that class, less what
  is still pending in the workers' own counts; the same holds for the uncaught exceptions. Nothing
  is lost between the workers and nothing is counted twice.
\<close>

theorem shared_exceptions_counted:
  assumes "atomic_insert_map M slots capacity" "shared_init x" "(shared_step E H M)\<^sup>*\<^sup>* x y"
    and "\<forall>i<length (sh_workers y). sh_applied y ! i = length (wk_effects (sh_workers y ! i))"
    and "log_length (sh_workers y) < 2 ^ 63" "card (classes (sh_workers y)) < 10 * 1024" "k \<noteq> []"
    and "sm_count_map (sh_manager y) EXCEPTIONS = Some p" "sm_count_map (sh_manager y) UNCAUGHT_EXCEPTIONS = Some q"
  shows "(\<exists>c. getCount_subkey M k (sm_counters (sh_manager y) ! p) = Inr
      (\<Sum>w\<leftarrow>sh_workers y. exceptions_of k (wk_effects w) - pending (wk_n_exceptions_by_type w) k, c)) \<and>
    (\<exists>c. getCount_subkey M k (sm_counters (sh_manager y) ! q) = Inr
      (\<Sum>w\<leftarrow>sh_workers y. exceptions_of k (wk_effects w) - pending (wk_n_uncaught_exceptions_by_type w) k, c))"
proof -
  let ?ws = "sh_workers y"
  have inv: "shared_inv M y" by (rule shared.reachable_inv [OF assms(2,3)])
  then have p: "p < length (sm_counters (sh_manager y))" "q < length (sm_counters (sh_manager y))"
    using assms(8,9) by (auto simp: shared_inv_def manager_wf_def ran_def)
  have ok: "own_ok (sh_manager y) w" "int (length (wk_effects w)) < 2 ^ 63" if "w \<in> set ?ws" for w
    using inv that log_length_member [OF that] assms(5) by (auto simp: shared_inv_def in_set_conv_nth)
  have n: "names (Some p) (sm_count_map (sh_manager y) EXCEPTIONS)" "names (Some q) (sm_count_map (sh_manager y) UNCAUGHT_EXCEPTIONS)"
    using assms(8,9) by (simp_all add: names_def)
  have inc: "increases p k (wk_effects w) = exceptions_of k (wk_effects w) - pending (wk_n_exceptions_by_type w) k"
    "increases q k (wk_effects w) = exceptions_of k (wk_effects w) - pending (wk_n_uncaught_exceptions_by_type w) k"
    "0 \<le> increases p k (wk_effects w)" "0 \<le> increases q k (wk_effects w)" if "w \<in> set ?ws" for w
    using increases_accounted [OF ok [OF that] n, of k] by simp_all
  have le: "increases p k (wk_effects w) \<le> exceptions_of k (wk_effects w)"
    "increases q k (wk_effects w) \<le> exceptions_of k (wk_effects w)" if "w \<in> set ?ws" for w
    using inc [OF that] pending_nonneg [of "wk_n_exceptions_by_type w" k] pending_nonneg [of "wk_n_uncaught_exceptions_by_type w" k]
    by linarith+
  have range: "in_int64 (\<Sum>w\<leftarrow>?ws. increases p k (wk_effects w))" "in_int64 (\<Sum>w\<leftarrow>?ws. increases q k (wk_effects w))"
    by (rule increases_sum_range [OF _ assms(5)]; use inc le in blast)+
  have sums: "(\<Sum>w\<leftarrow>?ws. increases p k (wk_effects w)) =
      (\<Sum>w\<leftarrow>?ws. exceptions_of k (wk_effects w) - pending (wk_n_exceptions_by_type w) k)"
    "(\<Sum>w\<leftarrow>?ws. increases q k (wk_effects w)) =
      (\<Sum>w\<leftarrow>?ws. exceptions_of k (wk_effects w) - pending (wk_n_uncaught_exceptions_by_type w) k)"
    using inc by (auto intro!: arg_cong [of _ _ sum_list] map_cong)
  show ?thesis
    using shared_counter [OF assms(1) inv p(1) assms(4,6) range(1) assms(7)]
      shared_counter [OF assms(1) inv p(2) assms(4,6) range(2) assms(7)]
    unfolding sums by blast
qed

theorem shared_exceptions_counted_witness:
  "\<exists>x y :: (double list, bounded_alist, workload_base, sleep_request) shared_system.
     shared_init x \<and> (shared_step still_env list_histogram bounded_alist_ops)\<^sup>*\<^sup>* x y \<and>
     (\<exists>c. getCount_subkey bounded_alist_ops ''E'' (sm_counters (sh_manager y) ! 0) = Inr (1, c))"
proof -
  obtain x y :: "(double list, bounded_alist, workload_base, sleep_request) shared_system" and w where
    r: "shared_init x" "(shared_step still_env list_histogram bounded_alist_ops)\<^sup>*\<^sup>* x y" "sh_workers y = [w]"
    "exceptions_of ''E'' (wk_effects w) = 1" "wk_n_exceptions_by_type w = []" "wk_exceptions_statistic w = Some 0"
    "log_length [w] < 2 ^ 63" "card (classes [w]) < 10 * 1024"
    by (rule exception_system)
  obtain z where z: "(shared_step still_env list_histogram bounded_alist_ops)\<^sup>*\<^sup>* y z" "sh_workers z = [w]"
    "\<forall>i<length (sh_workers z). sh_applied z ! i = length (wk_effects (sh_workers z ! i))"
    using shared_settles [OF bal.atomic_insert_map_axioms shared.reachable_inv [OF r(1,2)],
        where E = still_env and H = list_histogram] r(3,7,8) by auto
  have steps: "(shared_step still_env list_histogram bounded_alist_ops)\<^sup>*\<^sup>* x z" using r(2) z(1) by simp
  have "own_ok (sh_manager z) w" using shared.reachable_inv [OF r(1) steps] z(2) by (simp add: shared_inv_def)
  then have "shares (sh_manager z) w" using r(6) by (auto simp: own_ok_def worker_unstarted_def)
  then obtain q where p: "sm_count_map (sh_manager z) EXCEPTIONS = Some 0" "sm_count_map (sh_manager z) UNCAUGHT_EXCEPTIONS = Some q"
    using r(6) unfolding shares_def names_def by auto
  have "\<exists>c. getCount_subkey bounded_alist_ops ''E'' (sm_counters (sh_manager z) ! 0) = Inr (1, c)"
    using shared_exceptions_counted [OF bal.atomic_insert_map_axioms r(1) steps z(3) _ _ _ p, of "''E''"] z(2) r(4,5,7,8)
    by (simp add: pending_def)
  then show ?thesis using r(1) steps by blast
qed

text \<open>
  C11. The calls on the shared statistics succeed. In every state the workers reach, with fewer than \<open>2 ^ 63\<close>
  effects and fewer than 10 * 1024 exception classes, no pending call can fail: the object it is
  made on exists, no total leaves \<open>int64_t\<close> and no map overflows. So from every such state the calls
  that the workers have made take place in finitely many steps.
\<close>

theorem shared_calls_complete:
  assumes "atomic_insert_map M slots capacity" "shared_init x" "(shared_step E H M)\<^sup>*\<^sup>* x y"
    and "log_length (sh_workers y) < 2 ^ 63" "card (classes (sh_workers y)) < 10 * 1024"
  shows "\<exists>z. (shared_step E H M)\<^sup>*\<^sup>* y z \<and> sh_workers z = sh_workers y \<and>
    (\<forall>i<length (sh_workers z). sh_applied z ! i = length (wk_effects (sh_workers z ! i)))"
  by (rule shared_settles [OF assms(1) shared.reachable_inv [OF assms(2,3)] assms(4,5)])

theorem shared_calls_complete_witness:
  "\<exists>x z :: (double list, bounded_alist, workload_base, sleep_request) shared_system.
     shared_init x \<and> (shared_step still_env list_histogram bounded_alist_ops)\<^sup>*\<^sup>* x z \<and>
     (\<exists>w. sh_workers z = [w] \<and> exceptions_of ''E'' (wk_effects w) = 1 \<and> sh_applied z ! 0 = length (wk_effects w))"
proof -
  obtain x y :: "(double list, bounded_alist, workload_base, sleep_request) shared_system" and w where
    r: "shared_init x" "(shared_step still_env list_histogram bounded_alist_ops)\<^sup>*\<^sup>* x y" "sh_workers y = [w]"
    "exceptions_of ''E'' (wk_effects w) = 1" "wk_n_exceptions_by_type w = []" "wk_exceptions_statistic w = Some 0"
    "log_length [w] < 2 ^ 63" "card (classes [w]) < 10 * 1024"
    by (rule exception_system)
  have "log_length (sh_workers y) < 2 ^ 63" "card (classes (sh_workers y)) < 10 * 1024" using r(3,7,8) by simp_all
  from shared_calls_complete [OF bal.atomic_insert_map_axioms r(1,2) this]
  obtain z where "(shared_step still_env list_histogram bounded_alist_ops)\<^sup>*\<^sup>* y z" "sh_workers z = [w]"
    "sh_applied z ! 0 = length (wk_effects w)" using r(3) by auto
  then show ?thesis using r(1,2,4) by (meson rtranclp_trans)
qed

end
