(* ===== verification/Scheduler_Arrivals.thy ===== *)
theory Scheduler_Arrivals
  imports Scheduler_Pacing
begin

text \<open>
  The sending loop over many turns. The budget carries what one turn missed into the next, so the
  requests follow the arrival process given by the exponential draws: no request is sent before its
  arrival time, the start plus the draws so far, less 2 ns of rounding for every turn, and none is
  later than a few clock polls for every turn.
\<close>

section \<open>One turn, relative to the arrivals\<close>

text \<open>The draw that the \<open>i\<close>-th turn from \<open>l\<close> on makes, as a number.\<close>

definition draws_are :: "('q, 'd) sched_env \<Rightarrow> loop_locals \<Rightarrow> (nat \<Rightarrow> rat) \<Rightarrow> bool" where
  "draws_are E l ds \<longleftrightarrow>
     (\<forall>i. draw_interval E (l\<lparr>lp_draws := lp_draws l + i\<rparr>) (lp_interval_ns l) = Fin (ds i) \<and>
        0 \<le> ds i \<and> ds i \<le> of_int (21 * lp_interval_ns l))"

lemma draws_exist:
  assumes "log_contract (env_log E)" "\<And>n. unit_draw (env_draw E n)"
    and "0 \<le> lp_interval_ns l" "lp_interval_ns l \<le> k_ns_per_s"
  shows "\<exists>ds. draws_are E l ds"
proof -
  have "\<forall>i. \<exists>d. draw_interval E (l\<lparr>lp_draws := lp_draws l + i\<rparr>) (lp_interval_ns l) = Fin d \<and>
      0 \<le> d \<and> d \<le> of_int (21 * lp_interval_ns l)"
    using randomExponentialInterval_bounds [OF assms(1,2,3)] assms(4) by (simp add: draw_interval_def)
  then show ?thesis unfolding draws_are_def by metis
qed

text \<open>The messages of \<open>N\<close> turns, the first to worker \<open>i\<close>.\<close>

definition deal :: "('q \<Rightarrow> 'q) \<Rightarrow> nat \<Rightarrow> nat \<Rightarrow> 'q list \<Rightarrow> 'q list" where
  "deal put i N qs = fold (\<lambda>j qs. qs[(i + j) mod length qs := put (qs ! ((i + j) mod length qs))]) [0..<N] qs"

lemma deal_0 [simp]: "deal put i 0 qs = qs"
  by (simp add: deal_def)

lemma length_deal [simp]: "length (deal put i N qs) = length qs"
  unfolding deal_def by (induction N) simp_all

lemma deal_Suc:
  "deal put i (Suc N) qs = (deal put i N qs)[(i + N) mod length qs := put (deal put i N qs ! ((i + N) mod length qs))]"
  using length_deal [of put i N qs] by (simp add: deal_def)

section \<open>Many turns\<close>

text \<open>
  What holds after \<open>i\<close> turns that began at \<open>l\<close>, \<open>s\<close>: \<open>A\<close> is the time of the last request before.
\<close>

definition turns_inv ::
  "('q, 'd) sched_env \<Rightarrow> (nat \<Rightarrow> int) \<Rightarrow> int \<Rightarrow> (nat \<Rightarrow> rat) \<Rightarrow> loop_locals \<Rightarrow> 'q scheduler \<Rightarrow> nat \<Rightarrow>
     loop_locals \<Rightarrow> 'q scheduler \<Rightarrow> bool" where
  "turns_inv E c G ds l s i l' s' \<longleftrightarrow>
     (let A = last_send l (c (lp_ticks l)); A' = last_send l' (c (lp_ticks l')) in
      sch_state s' = RUNNING \<and> sched_wf s' \<and> sch_rps s' = sch_rps s \<and> lp_rps l' = lp_rps l \<and>
      lp_interval_ns l' = lp_interval_ns l \<and> lp_draws l' = lp_draws l + i \<and>
      0 \<le> lp_a l' \<and> lp_a l' \<le> c (lp_ticks l') \<and> A \<le> A' \<and> (0 < i \<longrightarrow> A' = lp_a l') \<and>
      \<bar>of_int (lp_budget l' + A') - (of_int (lp_budget l + A) + sum ds {..<i})\<bar> \<le> of_int (2 * int i) \<and>
      (0 < i \<longrightarrow> of_int (lp_budget l + A) + sum ds {..<i - 1} - of_int (2 * int i) \<le> of_int (lp_a l')) \<and>
      (0 < i \<longrightarrow> c (lp_ticks l') \<le> lp_a l' + G \<and>
         of_int (lp_a l') \<le> of_int (max (lp_budget l + A) (c (lp_ticks l))) + sum ds {..<i - 1} +
           of_int (int i * (4 * G + 2))) \<and>
      (i = 0 \<longrightarrow> l' = l) \<and>
      length (sch_queues s') = length (sch_queues s) \<and>
      unat (sch_next s') = (unat (sch_next s) + i) mod length (sch_queues s) \<and>
      sch_queues s' = deal (q_putMessage (env_queue E) (Event_of (env_dynamic E) SEND_REQUEST))
        (unat (sch_next s)) i (sch_queues s))"

lemma sum_draws_bounds:
  fixes ds :: "nat \<Rightarrow> rat"
  assumes "draws_are E l ds"
  shows "0 \<le> sum ds {..<i}" "sum ds {..<i} \<le> of_int (int i * (21 * lp_interval_ns l))"
proof -
  show "0 \<le> sum ds {..<i}" using assms by (intro sum_nonneg) (simp add: draws_are_def)
  have "sum ds {..<i} \<le> of_nat (card {..<i}) * of_int (21 * lp_interval_ns l)"
    using assms by (intro sum_bounded_above) (simp add: draws_are_def)
  then show "sum ds {..<i} \<le> of_int (int i * (21 * lp_interval_ns l))" by simp
qed

lemma turns_inv_due:
  assumes "turns_inv E c G ds l s i l' s'" "draws_are E l ds" "i < N" "0 \<le> lp_interval_ns l"
    and "\<bar>lp_budget l\<bar> + int N * (21 * lp_interval_ns l + 2) \<le> D"
  shows "lp_budget l' + last_send l' (c (lp_ticks l')) \<le> last_send l (c (lp_ticks l)) + D"
    "last_send l (c (lp_ticks l)) - D \<le> lp_budget l' + last_send l' (c (lp_ticks l'))"
proof -
  let ?A = "last_send l (c (lp_ticks l))" and ?A' = "last_send l' (c (lp_ticks l'))"
  let ?w = "21 * lp_interval_ns l"
  have near: "\<bar>of_int (lp_budget l' + ?A') - (of_int (lp_budget l + ?A) + sum ds {..<i})\<bar> \<le> (of_int (2 * int i) :: rat)"
    using assms(1) by (simp add: turns_inv_def Let_def)
  have "(of_int (lp_budget l' + ?A') :: rat) \<le> of_int (lp_budget l + ?A + int i * ?w + 2 * int i)"
    using near sum_draws_bounds(2) [OF assms(2), of i] unfolding abs_le_iff of_int_add by linarith
  then have hi: "lp_budget l' + ?A' \<le> lp_budget l + ?A + int i * ?w + 2 * int i" by (simp only: of_int_le_iff)
  have "(of_int (lp_budget l + ?A - 2 * int i) :: rat) \<le> of_int (lp_budget l' + ?A')"
    using near sum_draws_bounds(1) [OF assms(2), of i] unfolding abs_le_iff of_int_add of_int_diff by linarith
  then have lo: "lp_budget l + ?A - 2 * int i \<le> lp_budget l' + ?A'" by (simp only: of_int_le_iff)
  have m: "int i * (?w + 2) \<le> int N * (?w + 2)" using assms(3,4) by (intro mult_right_mono) simp_all
  have z: "0 \<le> int i * ?w" using assms(4) by simp
  have e: "int i * (?w + 2) = int i * ?w + 2 * int i" by (simp add: algebra_simps)
  show "lp_budget l' + ?A' \<le> ?A + D" "?A - D \<le> lp_budget l' + ?A'"
    using hi lo m z e assms(5) by linarith+
qed

lemma budget_at_last_send: "budget_at l b = lp_budget l - (b - last_send l b)"
  by (simp add: budget_at_def last_send_def)

lemma of_int_le_max:
  assumes "x \<le> max y z + 3 * g"
  shows "(of_int x :: rat) \<le> max (of_int y) (of_int z) + 3 * of_int g"
proof -
  have "(of_int x :: rat) \<le> of_int (max y z + 3 * g)" using assms by (simp only: of_int_le_iff)
  then show ?thesis by simp
qed

text \<open>The wait ends at most one poll after the time it waits for.\<close>

lemma send_not_late:
  assumes "clock_reads clk c" "wait_ends c (t + 2) (c (t + 1)) (max ns 0) k" "\<And>t. c (Suc t) - c t \<le> G"
  shows "c (t + k + 3) \<le> max (ns + c t) (c t) + 3 * G"
proof (cases k)
  case 0
  then show ?thesis using assms(3) [of t] assms(3) [of "t + 1"] assms(3) [of "t + 2"]
    by (simp add: numeral_3_eq_3)
next
  case (Suc j)
  then have "c (t + 2 + j) - c (t + 1) < max ns 0" using assms(2) by (simp add: wait_ends_def)
  moreover have "c (t + k + 3) - c (t + k + 2) \<le> G" "c (t + k + 2) - c (t + 2 + j) \<le> G" "c (t + 1) - c t \<le> G"
    using assms(3) [of "t + k + 2"] assms(3) [of "t + 2 + j"] assms(3) [of t] Suc
    by (simp_all add: numeral_3_eq_3)
  ultimately show ?thesis by linarith
qed

lemma turns_inv_step:
  assumes clk: "clock_reads (env_clock E) c"
    and env: "log_contract (env_log E)" "\<And>n. unit_draw (env_draw E n)" "draws_are E l ds"
    and loc: "int32_to_uint32 (lp_rps l) = sch_rps s" "0 \<le> lp_interval_ns l" "lp_interval_ns l \<le> k_ns_per_s"
    and D: "\<bar>lp_budget l\<bar> + int N * (21 * lp_interval_ns l + 2) \<le> D" "D \<le> 2 ^ 49"
    and time: "\<And>t. c (Suc t) - c t \<le> G" "last_send l (c (lp_ticks l)) + D + G \<le> c T"
      "\<And>t. c t \<le> last_send l (c (lp_ticks l)) + 2 ^ 49"
    and inv: "turns_inv E c G ds l s i l' s'" "i < N"
  shows "\<exists>k l'' s''. loop_steps E k (Loop_while, l', s') = Inr (Loop_while, l'', s'') \<and>
    turns_inv E c G ds l s (Suc i) l'' s''"
proof -
  let ?t = "lp_ticks l'"
  let ?A = "last_send l (c (lp_ticks l))" and ?A' = "last_send l' (c ?t)"
  note due = turns_inv_due [OF inv(1) env(3) inv(2) loc(2) D(1)]
  have l': "sch_state s' = RUNNING" "sched_wf s'" "sch_rps s' = sch_rps s" "lp_rps l' = lp_rps l"
    "lp_interval_ns l' = lp_interval_ns l" "lp_draws l' = lp_draws l + i" "0 \<le> lp_a l'" "lp_a l' \<le> c ?t" "?A \<le> ?A'"
    and near: "\<bar>of_int (lp_budget l' + ?A') - (of_int (lp_budget l + ?A) + sum ds {..<i})\<bar> \<le> (of_int (2 * int i) :: rat)"
    and queues: "length (sch_queues s') = length (sch_queues s)"
      "unat (sch_next s') = (unat (sch_next s) + i) mod length (sch_queues s)"
      "sch_queues s' = deal (q_putMessage (env_queue E) (Event_of (env_dynamic E) SEND_REQUEST))
        (unat (sch_next s)) i (sch_queues s)"
    using inv(1) by (simp_all add: turns_inv_def Let_def)
  have A'_t: "?A' \<le> c ?t" using l'(8) by (simp add: last_send_def)
  have two: "(2 :: int) ^ 50 = 2 * 2 ^ 49" and nonneg: "0 \<le> (2 :: int) ^ 49" by simp_all
  have budget: "\<bar>lp_budget l'\<bar> \<le> 2 ^ 50"
    unfolding two abs_le_iff using due D(2) l'(9) A'_t time(3) [of ?t] by linarith
  have window: "c t \<le> last_send l' (c ?t) + 2 ^ 50" for t
    using time(3) [of t] l'(9) nonneg unfolding two by linarith
  have "max (budget_at l' (c ?t)) 0 \<le> c (?t + 2 + T) - c (?t + 1)"
  proof -
    have "c T \<le> c (?t + 2 + T)" "c (?t + 1) \<le> c (?t + 2 + T)" using clock_readsD(4) [OF clk] by simp_all
    then show ?thesis using due(1) time(1) [of ?t] time(2) by (simp add: budget_at_last_send)
  qed
  then obtain k where k: "wait_ends c (?t + 2) (c (?t + 1)) (max (budget_at l' (c ?t)) 0) k"
    using wait_ends_exists [where c = c and t = "?t + 2" and j = T] by blast
  have rps: "int32_to_uint32 (lp_rps l') = sch_rps s'" using l'(3,4) loc(1) by simp
  have iv: "0 \<le> lp_interval_ns l'" "lp_interval_ns l' \<le> 1000000000" using l'(5) loc(2,3) by simp_all
  obtain d r where d: "draw_interval E l' (lp_interval_ns l') = Fin d"
    and r: "\<bar>of_int r - (of_int (lp_budget l') + d - of_int (c (?t + k + 3) - ?A'))\<bar> < 2"
    and run: "loop_steps E (k + 8) (Loop_while, l', s') =
      Inr (Loop_while, l'\<lparr>lp_a := c (?t + k + 3), lp_b := c ?t, lp_budget := r,
             lp_ticks := ?t + k + 4, lp_draws := lp_draws l' + 1\<rparr>, send_to_next E s')"
    using loop_turn [OF clk env(1,2) l'(1,2) rps iv budget l'(7,8) window k] by blast
  let ?l = "l'\<lparr>lp_a := c (?t + k + 3), lp_b := c ?t, lp_budget := r, lp_ticks := ?t + k + 4, lp_draws := lp_draws l' + 1\<rparr>"
  have "draw_interval E l' (lp_interval_ns l') = draw_interval E (l\<lparr>lp_draws := lp_draws l + i\<rparr>) (lp_interval_ns l)"
    using l'(5,6) by (simp add: draw_interval_def)
  then have di: "d = ds i" using d env(3) by (simp add: draws_are_def)
  have a: "0 < c (?t + k + 3)" using clock_readsD(2) [OF clk] .
  have ls: "last_send ?l (c (lp_ticks ?l)) = c (?t + k + 3)" using a by (simp add: last_send_def)
  have mono: "c ?t \<le> c (?t + k + 3)" "c (?t + k + 2) \<le> c (?t + k + 3)" "c (?t + k + 3) \<le> c (?t + k + 4)" "c ?t \<le> c (?t + 1)"
    using clock_readsD(4) [OF clk] by simp_all
  have "budget_at l' (c ?t) \<le> c (?t + 2 + k) - c (?t + 1)" using k by (simp add: wait_ends_def)
  then have sent: "lp_budget l' + ?A' \<le> c (?t + k + 3)"
    using mono(2,4) by (simp add: budget_at_last_send ac_simps)
  have near': "\<bar>of_int (r + c (?t + k + 3)) - (of_int (lp_budget l + ?A) + sum ds {..<Suc i})\<bar> \<le> (of_int (2 * int (Suc i)) :: rat)"
    using near r unfolding di abs_le_iff abs_less_iff by (simp add: algebra_simps)
  have early: "of_int (lp_budget l + ?A) + sum ds {..<i} - of_int (2 * int (Suc i)) \<le> (of_int (c (?t + k + 3)) :: rat)"
  proof -
    have "(of_int (lp_budget l' + ?A') :: rat) \<le> of_int (c (?t + k + 3))" using sent by (simp only: of_int_le_iff)
    then show ?thesis using near unfolding abs_le_iff by simp
  qed
  have G: "0 \<le> G" using time(1) [of 0] clock_readsD(4) [OF clk, of 0 1] by simp
  let ?M = "of_int (max (lp_budget l + ?A) (c (lp_ticks l))) :: rat"
  have late: "of_int (c (?t + k + 3)) \<le> ?M + sum ds {..<i} + of_int (int (Suc i) * (4 * G + 2))"
  proof -
    have polls: "(of_int (int i * (4 * G + 2)) :: rat) = of_int (2 * int i) + of_int (4 * int i * G)"
      "(0 :: rat) \<le> of_int (4 * int i * G)" "(0 :: rat) \<le> of_int G"
      using G by (simp_all add: algebra_simps)
    have M: "of_int (lp_budget l + ?A) \<le> ?M" "of_int (c (lp_ticks l)) \<le> ?M" by (simp_all only: of_int_le_iff max.cobounded1 max.cobounded2)
    have 1: "of_int (lp_budget l' + ?A') \<le> ?M + sum ds {..<i} + of_int (int i * (4 * G + 2)) + of_int G"
      using near M(1) polls unfolding abs_le_iff by linarith
    have 2: "of_int (c ?t) \<le> ?M + sum ds {..<i} + of_int (int i * (4 * G + 2)) + of_int G"
    proof (cases i)
      case 0
      then have "l' = l" using inv(1) by (simp add: turns_inv_def Let_def)
      then show ?thesis using 0 M(2) polls by simp
    next
      case (Suc j)
      then have "c ?t \<le> lp_a l' + G"
        "of_int (lp_a l') \<le> ?M + sum ds {..<j} + of_int (int i * (4 * G + 2))"
        using inv(1) by (simp_all add: turns_inv_def Let_def)
      moreover have "sum ds {..<j} \<le> sum ds {..<i}" using Suc env(3) by (simp add: draws_are_def)
      moreover have "(of_int (c ?t) :: rat) \<le> of_int (lp_a l') + of_int G"
        using calculation(1) by (simp only: of_int_add [symmetric] of_int_le_iff)
      ultimately show ?thesis by linarith
    qed
    have "c (?t + k + 3) \<le> max (lp_budget l' + ?A') (c ?t) + 3 * G"
      using send_not_late [OF clk k time(1)] by (simp add: budget_at_last_send)
    from of_int_le_max [OF this] have "of_int (c (?t + k + 3)) \<le> ?M + sum ds {..<i} + of_int (int i * (4 * G + 2)) + of_int G + 3 * of_int G"
      using 1 2 by linarith
    also have "\<dots> \<le> ?M + sum ds {..<i} + of_int (int (Suc i) * (4 * G + 2))" by (simp add: algebra_simps)
    finally show ?thesis .
  qed
  have poll: "c (?t + k + 4) \<le> c (?t + k + 3) + G" using time(1) [of "?t + k + 3"] by (simp add: add.commute [of _ 4])
  have next': "unat (sch_next (send_to_next E s')) = (unat (sch_next s) + Suc i) mod length (sch_queues s)"
    using send_to_next_next [OF l'(2), of E] queues(1,2) by (simp add: mod_Suc_eq)
  have inv': "turns_inv E c G ds l s (Suc i) ?l (send_to_next E s')"
    unfolding turns_inv_def Let_def ls
    using l' queues mono near' early late poll next' A'_t sched_wf_send_to_next [OF l'(2), of E] clock_readsD(2) [OF clk]
    by (simp add: deal_Suc less_imp_le)
  show ?thesis using run inv' by blast
qed

lemma turns_inv_start:
  assumes "clock_reads (env_clock E) c" "sch_state s = RUNNING" "sched_wf s"
    and "0 \<le> lp_a l" "lp_a l \<le> c (lp_ticks l)"
  shows "turns_inv E c G ds l s 0 l s"
  using assms by (simp add: turns_inv_def sched_wf_def)

lemma turns_exist:
  assumes clk: "clock_reads (env_clock E) c"
    and env: "log_contract (env_log E)" "\<And>n. unit_draw (env_draw E n)" "draws_are E l ds"
    and run: "sch_state s = RUNNING" "sched_wf s" "int32_to_uint32 (lp_rps l) = sch_rps s"
    and loc: "0 \<le> lp_interval_ns l" "lp_interval_ns l \<le> k_ns_per_s" "0 \<le> lp_a l" "lp_a l \<le> c (lp_ticks l)"
    and D: "\<bar>lp_budget l\<bar> + int N * (21 * lp_interval_ns l + 2) \<le> D" "D \<le> 2 ^ 49"
    and time: "\<And>t. c (Suc t) - c t \<le> G" "last_send l (c (lp_ticks l)) + D + G \<le> c T"
      "\<And>t. c t \<le> last_send l (c (lp_ticks l)) + 2 ^ 49"
    and i: "i \<le> N"
  shows "\<exists>n l' s'. loop_steps E n (Loop_while, l, s) = Inr (Loop_while, l', s') \<and> turns_inv E c G ds l s i l' s'"
  using i
proof (induction i)
  case 0
  have "loop_steps E 0 (Loop_while, l, s) = Inr (Loop_while, l, s)" by simp
  then show ?case using turns_inv_start [OF clk run(1,2) loc(3,4)] by blast
next
  case (Suc i)
  then obtain n l1 s1 where 1: "loop_steps E n (Loop_while, l, s) = Inr (Loop_while, l1, s1)"
    "turns_inv E c G ds l s i l1 s1" by auto
  have "i < N" using Suc.prems by simp
  from turns_inv_step [OF clk env run(3) loc(1,2) D time 1(2) this]
  obtain k l2 s2 where 2: "loop_steps E k (Loop_while, l1, s1) = Inr (Loop_while, l2, s2)"
    "turns_inv E c G ds l s (Suc i) l2 s2" by blast
  have "loop_steps E (n + k) (Loop_while, l, s) = Inr (Loop_while, l2, s2)"
    unfolding loop_steps_add using 1(1) 2(1) by simp
  then show ?case using 2(2) by blast
qed

section \<open>Properties\<close>

text \<open>
  C15. The requests follow the arrival process. While the scheduler runs at an unchanged rate, the
  sending loop makes any number of turns without failing: for a clock that is read at least every
  \<open>G\<close> nanoseconds and goes on long enough, turn \<open>N + 1\<close> is completed. By then \<open>N + 1\<close> requests have been
  dealt to the workers in turn, one exponential draw was made for each, and the last was sent close to
  its arrival time, which is the sum of the first \<open>N\<close> draws after the time the loop owed its first
  request: not before it, less 2 ns of rounding for each turn, and not after it by more than the
  four clock readings of each turn. The errors of the waits do not add up beyond the rounding, since
  the budget carries them over; so the long-run rate is the one the draws give.
\<close>

theorem scheduler_arrivals:
  assumes "clock_reads (env_clock E) c" "log_contract (env_log E)" "\<And>n. unit_draw (env_draw E n)"
    and "sch_state s = RUNNING" "sched_wf s" "int32_to_uint32 (lp_rps l) = sch_rps s"
    and "0 \<le> lp_interval_ns l" "lp_interval_ns l \<le> k_ns_per_s" "0 \<le> lp_a l" "lp_a l \<le> c (lp_ticks l)"
    and "\<bar>lp_budget l\<bar> + int (Suc N) * (21 * lp_interval_ns l + 2) \<le> D" "D \<le> 2 ^ 49"
    and "\<And>t. c (Suc t) - c t \<le> G" "last_send l (c (lp_ticks l)) + D + G \<le> c T"
    and "\<And>t. c t \<le> last_send l (c (lp_ticks l)) + 2 ^ 49"
  shows "\<exists>n l' s' draws.
    (\<forall>i. draw_interval E (l\<lparr>lp_draws := lp_draws l + i\<rparr>) (lp_interval_ns l) = Fin (draws i)) \<and>
    loop_steps E n (Loop_while, l, s) = Inr (Loop_while, l', s') \<and>
    lp_draws l' = lp_draws l + Suc N \<and> sch_state s' = RUNNING \<and> sched_wf s' \<and>
    sch_queues s' = deal (q_putMessage (env_queue E) (Event_of (env_dynamic E) SEND_REQUEST))
      (unat (sch_next s)) (Suc N) (sch_queues s) \<and>
    of_int (lp_budget l + last_send l (c (lp_ticks l))) + sum draws {..<N} - of_int (2 * int (Suc N))
      \<le> of_int (lp_a l') \<and>
    of_int (lp_a l') \<le> of_int (max (lp_budget l + last_send l (c (lp_ticks l))) (c (lp_ticks l)))
      + sum draws {..<N} + of_int (int (Suc N) * (4 * G + 2))"
proof -
  obtain ds where ds: "draws_are E l ds" using draws_exist [OF assms(2,3,7,8)] by blast
  obtain n l' s' where run: "loop_steps E n (Loop_while, l, s) = Inr (Loop_while, l', s')"
    and inv: "turns_inv E c G ds l s (Suc N) l' s'"
    using turns_exist [OF assms(1-3) ds assms(4-15) order_refl] by blast
  show ?thesis
    using run inv ds
    by (intro exI [of _ n] exI [of _ l'] exI [of _ s'] exI [of _ ds]) (simp add: turns_inv_def Let_def draws_are_def)
qed

theorem scheduler_arrivals_witness:
  "\<exists>n l' s'.
     loop_steps (list_env ns_clock (\<lambda>_. Fin 1) (\<lambda>_. Fin 0)) n
       (Loop_while, initial_locals\<lparr>lp_rps := 1024, lp_interval_ns := 976562, lp_budget := 2\<rparr>,
        Scheduler4 default_flags list_queue 1024 2 1000 500) = Inr (Loop_while, l', s') \<and>
     sch_queues s' = [[Event_of dynamic_value_ops SEND_REQUEST], [Event_of dynamic_value_ops SEND_REQUEST]] \<and>
     999999998 \<le> lp_a l' \<and> lp_a l' \<le> 1000000014"
proof -
  let ?E = "list_env ns_clock (\<lambda>_. Fin 1) (\<lambda>_. Fin 0)"
  let ?l = "initial_locals\<lparr>lp_rps := 1024, lp_interval_ns := 976562, lp_budget := 2\<rparr>"
  let ?s = "Scheduler4 default_flags list_queue 1024 2 1000 500 :: dynamic_value event list scheduler"
  let ?c = "\<lambda>t. 1000000000 + int (min t 999999999)"
  have l: "lp_ticks ?l = 0" "last_send ?l 1000000000 = 1000000000" "lp_interval_ns ?l = 976562"
    "lp_a ?l = 0" "lp_budget ?l = 2" "lp_draws ?l = 0"
    by (simp_all add: initial_locals_def last_send_def)
  have s: "sch_state ?s = RUNNING" "sched_wf ?s" "int32_to_uint32 (lp_rps ?l) = sch_rps ?s"
    by (simp_all add: Scheduler4_def initial_run_state_def sched_wf_def int32_to_uint32_def)
  have q: "sch_next ?s = 0" "sch_queues ?s = [[], []]" by (simp_all add: Scheduler4_def)
  have draw: "draw_interval ?E (?l\<lparr>lp_draws := lp_draws ?l + i\<rparr>) (lp_interval_ns ?l) = Fin 0" for i
    using round64_int_bounded [of 0 0] nearest64_of_int [of 0]
    by (simp add: draw_interval_def randomExponentialInterval_def initial_locals_def)
  have env: "clock_reads (env_clock ?E) ?c" "log_contract (env_log ?E)" "\<And>n. unit_draw (env_draw ?E n)"
    using ns_clock_reads by (simp_all add: log_contract_def unit_draw_def)
  have p: "0 \<le> lp_interval_ns ?l" "lp_interval_ns ?l \<le> k_ns_per_s" "0 \<le> lp_a ?l" "lp_a ?l \<le> ?c (lp_ticks ?l)"
    "\<bar>lp_budget ?l\<bar> + int (Suc 1) * (21 * lp_interval_ns ?l + 2) \<le> 41015610" "(41015610 :: int) \<le> 2 ^ 49"
    "\<And>t. ?c (Suc t) - ?c t \<le> 1" "last_send ?l (?c (lp_ticks ?l)) + 41015610 + 1 \<le> ?c 41015611"
    "\<And>t. ?c t \<le> last_send ?l (?c (lp_ticks ?l)) + 2 ^ 49"
    by (simp_all add: l)
  obtain n l' s' draws where r: "\<And>i. draws i = 0"
    "loop_steps ?E n (Loop_while, ?l, ?s) = Inr (Loop_while, l', s')"
    "sch_queues s' = deal (q_putMessage (env_queue ?E) (Event_of (env_dynamic ?E) SEND_REQUEST))
      (unat (sch_next ?s)) (Suc 1) (sch_queues ?s)"
    "of_int (lp_budget ?l + last_send ?l (?c (lp_ticks ?l))) + sum draws {..<1} - of_int (2 * int (Suc 1))
      \<le> (of_int (lp_a l') :: rat)"
    "(of_int (lp_a l') :: rat) \<le> of_int (max (lp_budget ?l + last_send ?l (?c (lp_ticks ?l))) (?c (lp_ticks ?l)))
      + sum draws {..<1} + of_int (int (Suc 1) * (4 * 1 + 2))"
    using scheduler_arrivals [OF env s p] unfolding draw by fastforce
  have "sch_queues s' = [[Event_of dynamic_value_ops SEND_REQUEST], [Event_of dynamic_value_ops SEND_REQUEST]]"
    using r(3) unfolding q by (simp add: deal_def upt_rec)
  moreover have "999999998 \<le> lp_a l'" "lp_a l' \<le> 1000000014"
    using r(4,5) by (simp_all add: l r(1))
  ultimately show ?thesis using r(2) by blast
qed

end
