(* ===== verification/Service_Runs.thy ===== *)
theory Service_Runs
  imports Runner_Properties
begin

text \<open>
  The main programs of the two services. Each runs the generic runner with the workload, the
  connection and the readiness test of its service. What a whole program does is decided before its
  workers start: the first thing that fails (the configuration, the affinity list, the resolution of
  the target's name) ends it with that failure, and when nothing does it ends with every thread joined.
\<close>

section \<open>Before the workers start\<close>

lemma TreadmillRunner_exists:
  assumes "int32_flags F" "0 < FLAGS_number_of_workers F" "0 \<le> FLAGS_max_outstanding_requests F"
  shows "\<exists>rn. TreadmillRunner F Q j = Inr rn \<and> rn_config rn = j"
proof -
  have "in_int32 (FLAGS_max_outstanding_requests F)" using assms(1) by (simp add: int32_flags_def)
  from int32_div_pos [OF assms(2,3) this] show ?thesis
    using assms(2) by (simp add: TreadmillRunner_def Let_def)
qed

text \<open>The first failure of the preparation, if any; \<open>connections\<close> is what making all connections gives.\<close>

definition first_failure :: "'a res \<Rightarrow> 'b res \<Rightarrow> 'c res \<Rightarrow> abort option" where
  "first_failure config affinities connections = (case config of Inl e \<Rightarrow> Some e | Inr _ \<Rightarrow>
     (case affinities of Inl e \<Rightarrow> Some e | Inr _ \<Rightarrow> (case connections of Inl e \<Rightarrow> Some e | Inr _ \<Rightarrow> None)))"

lemma prepare_fails:
  assumes "TreadmillRunner F Q j = Inr rn" "int32_flags F"
    and "first_failure (load_config F (re_is_readable R) (re_parseJson R) (re_update R) fs (rn_config rn))
      (parse_cpu_affinity F (re_split R) (re_to_int R) (re_cores R) (replicate (nat (FLAGS_number_of_workers F)) (-1)))
      (connect_all F (re_connect R)) = Some e"
  shows "prepare F R (fresh_process fs rn) = Inl e"
proof (cases "load_config F (re_is_readable R) (re_parseJson R) (re_update R) fs (rn_config rn)")
  case (Inl e')
  then show ?thesis using assms(3) by (simp add: first_failure_def prepare_def)
next
  case config: (Inr config)
  note new = TreadmillRunner_Inr [OF assms(1,2)]
  let ?n = "nat (FLAGS_number_of_workers F)"
  show ?thesis
  proof (cases "parse_cpu_affinity F (re_split R) (re_to_int R) (re_cores R) (replicate ?n (-1))")
    case (Inl e')
    then show ?thesis using assms(3) config by (simp add: first_failure_def prepare_def new(6))
  next
    case (Inr as)
    obtain q where q: "start_fb303 F R ((fresh_process fs rn)\<lparr>rn_config := config, rn_cpu_affinity_list := as\<rparr>) = Inr q"
      "rn_scheduler q = rn_scheduler rn" "rn_cpu_affinity_list q = as"
      using start_fb303_fresh [where F = F and R = R and fs = fs and rn = rn and config = config and as = as] by blast
    have "pr_statistics q = StatisticsManager"
      using q(1) by (auto simp: start_fb303_def res_map_eq_Inr split: if_splits)
    moreover have "length as = ?n"
      using parse_cpu_affinity_length [OF Inr] assms(2) new(1) by (simp add: int32_flags_def)
    moreover have "?n \<le> 2 ^ 32" using assms(2) by (auto simp: int32_flags_def int_range)
    moreover have "connect_all F (re_connect R) = Inl e"
      using assms(3) config Inr by (simp add: first_failure_def split: sum.splits)
    ultimately have "initializeWorkers F R q = Inl e"
      using initializeWorkers_eq [of F q R] q(2,3) new(3) by (simp add: connect_all_def)
    then show ?thesis using config Inr q(1) by (simp add: prepare_def new(6))
  qed
qed

lemma prepare_succeeds:
  assumes "TreadmillRunner F Q j = Inr rn" "int32_flags F"
    and "first_failure (load_config F (re_is_readable R) (re_parseJson R) (re_update R) fs (rn_config rn))
      (parse_cpu_affinity F (re_split R) (re_to_int R) (re_cores R) (replicate (nat (FLAGS_number_of_workers F)) (-1)))
      (connect_all F (re_connect R)) = None"
  shows "\<exists>p. prepare F R (fresh_process fs rn) = Inr p"
proof -
  obtain config as sm where c: "load_config F (re_is_readable R) (re_parseJson R) (re_update R) fs (rn_config rn) = Inr config"
    and a: "parse_cpu_affinity F (re_split R) (re_to_int R) (re_cores R) (replicate (nat (FLAGS_number_of_workers F)) (-1)) = Inr as"
    and s: "connect_all F (re_connect R) = Inr sm"
    using assms(3) by (auto simp: first_failure_def split: sum.splits)
  obtain q where "start_fb303 F R ((fresh_process fs rn)\<lparr>rn_config := config, rn_cpu_affinity_list := as\<rparr>) = Inr q"
    using start_fb303_fresh [where F = F and R = R and fs = fs and rn = rn and config = config and as = as] by blast
  then show ?thesis unfolding prepare_eq_Inr [OF assms(1,2)] using c a s by blast
qed

text \<open>A whole program: it returns, with the first failure or with every thread joined.\<close>

lemma run_service_outcome:
  fixes R :: "('q, 'w, 'r, 'd, 'j, 'h, 'm, 's) runner_env"
  assumes "int32_flags F" "0 < FLAGS_number_of_workers F" "0 \<le> FLAGS_max_outstanding_requests F"
    and "can_start F (re_ready R)" "other_threads F R" "lists_entries (re_order R)" "connection_factory (re_connect R)"
    and "FLAGS_config_out_file F = [] \<or> (\<forall>f txt. re_write R f txt = Written)"
  shows "case first_failure (load_config F (re_is_readable R) (re_parseJson R) (re_update R) fs j)
      (parse_cpu_affinity F (re_split R) (re_to_int R) (re_cores R) (replicate (nat (FLAGS_number_of_workers F)) (-1)))
      (connect_all F (re_connect R)) of
      Some e \<Rightarrow> run_service F R j fs = Some (Inl e)
    | None \<Rightarrow> \<exists>q. run_service F R j fs = Some (Inr q) \<and> all_joined F q"
proof -
  obtain rn :: "('q, 'w, 'r, 'j) runner"
    where rn: "TreadmillRunner F (env_queue (re_sched R)) j = Inr rn" "rn_config rn = j"
    using TreadmillRunner_exists [OF assms(1-3), of "env_queue (re_sched R)" j] by (elim exE conjE)
  note fails = prepare_fails [OF rn(1) assms(1), where R = R and fs = fs, unfolded rn(2)]
    and succeeds = prepare_succeeds [OF rn(1) assms(1), where R = R and fs = fs, unfolded rn(2)]
  show ?thesis
  proof (cases "first_failure (load_config F (re_is_readable R) (re_parseJson R) (re_update R) fs j)
      (parse_cpu_affinity F (re_split R) (re_to_int R) (re_cores R) (replicate (nat (FLAGS_number_of_workers F)) (-1)))
      (connect_all F (re_connect R))")
    case None
    obtain p where "prepare F R (fresh_process fs rn) = Inr p" using succeeds [OF None] by blast
    from run_joins [OF rn(1) assms(1) this assms(4-8)]
    have "\<exists>q. run_service F R j fs = Some (Inr q) \<and> all_joined F q" unfolding run_service_def rn(1) sum.case .
    then show ?thesis unfolding None option.case .
  next
    case (Some e)
    have "run_service F R j fs = Some (Inl e)"
      unfolding run_service_def rn(1) sum.case runner_run_def fails [OF Some] ..
    then show ?thesis unfolding Some option.case .
  qed
qed

section \<open>The connections of the services\<close>

text \<open>
  Making the connections fails exactly when there is one to make and the name is not resolved, with
  the failure of the resolution.
\<close>

locale resolving_connection =
  fixes connect :: "('h, 'm) statistics_manager \<Rightarrow> ('h, 'm) statistics_manager res" and host :: "'a res"
  assumes resolved: "host = Inr h \<Longrightarrow> \<exists>sm'. connect sm = Inr sm'"
    and unresolved: "host = Inl e \<Longrightarrow> connect sm = Inl e"
begin

lemma all_connected:
  assumes "host = Inr h \<or> FLAGS_number_of_connections F \<le> 0"
  shows "\<exists>sm. connect_all F connect = Inr sm"
  using assms
proof
  assume "FLAGS_number_of_connections F \<le> 0"
  then have "create_connections connect (nat (FLAGS_number_of_connections F)) = Inr" by auto
  then show ?thesis
    using res_fold_total [where I = "\<lambda>_. True" and f = "\<lambda>_ :: nat. Inr"]
    by (simp add: connect_all_def)
qed (intro connect_all_total resolved)

lemma not_connected:
  assumes "host = Inl e" "0 < FLAGS_number_of_connections F" "0 < FLAGS_number_of_workers F"
  shows "connect_all F connect = Inl e"
proof -
  obtain n where "nat (FLAGS_number_of_connections F) = Suc n" using assms(2) by (cases "nat (FLAGS_number_of_connections F)") auto
  moreover obtain m where "nat (FLAGS_number_of_workers F) = Suc m" using assms(3) by (cases "nat (FLAGS_number_of_workers F)") auto
  ultimately show ?thesis using unresolved [OF assms(1)] by (simp add: connect_all_def upt_conv_Cons del: upt_Suc)
qed

lemma first_failure_connect:
  assumes "0 < FLAGS_number_of_workers F"
  shows "first_failure c a (connect_all F connect) =
    first_failure c a (if 0 < FLAGS_number_of_connections F then map_sum id (\<lambda>_. ()) host else Inr ())"
proof (cases "\<exists>e. host = Inl e \<and> 0 < FLAGS_number_of_connections F")
  case True
  then show ?thesis using not_connected [OF _ _ assms] by (auto simp: first_failure_def split: sum.split)
next
  case False
  then obtain sm where "connect_all F connect = Inr sm" using all_connected [of _ F] by (cases host) fastforce+
  then show ?thesis using False by (cases host) (auto simp: first_failure_def split: sum.split)
qed

end

interpretation memcached_resolving: resolving_connection "memcached_connect F resolve" "resolve (FLAGS_hostname F)"
  for F resolve
  by unfold_locales (auto simp: memcached_connect_def Connection_Memcached_def)

interpretation sleep_resolving: resolving_connection "sleep_connect H F resolve" "resolve (FLAGS_hostname F)"
  for H F resolve
  by unfold_locales (auto simp: sleep_connect_def Connection_Sleep_def split: prod.splits)

section \<open>Environments of the services\<close>

definition well_behaved :: "flags \<Rightarrow> ('q, 'w, 'r, 'd, 'j, 'h, 'm, 's) runner_env \<Rightarrow> bool" where
  "well_behaved F R \<longleftrightarrow> other_threads F R \<and> lists_entries (re_order R) \<and>
     (FLAGS_config_out_file F = [] \<or> (\<forall>f txt. re_write R f txt = Written))"

text \<open>The first failure before the workers of a service start; \<open>host\<close> is the resolved name of the target.\<close>

definition startup_failure ::
  "flags \<Rightarrow> string res \<Rightarrow> ('q, 'w, 'r, 'd, 'j, 'h, 'm, 's) runner_env \<Rightarrow> 'j \<Rightarrow> file_system \<Rightarrow> abort option" where
  "startup_failure F host R j fs =
     first_failure (load_config F (re_is_readable R) (re_parseJson R) (re_update R) fs j)
       (parse_cpu_affinity F (re_split R) (re_to_int R) (re_cores R) (replicate (nat (FLAGS_number_of_workers F)) (-1)))
       (if 0 < FLAGS_number_of_connections F then map_sum id (\<lambda>_. ()) host else Inr ())"

lemma service_env_fields [simp]:
  "re_is_readable (memcached_runner_env F resolve j R) = re_is_readable R" "re_is_readable (sleep_main_env F resolve j R') = re_is_readable R'"
  "re_parseJson (memcached_runner_env F resolve j R) = re_parseJson R" "re_parseJson (sleep_main_env F resolve j R') = re_parseJson R'"
  "re_update (memcached_runner_env F resolve j R) = re_update R" "re_update (sleep_main_env F resolve j R') = re_update R'"
  "re_split (memcached_runner_env F resolve j R) = re_split R" "re_split (sleep_main_env F resolve j R') = re_split R'"
  "re_to_int (memcached_runner_env F resolve j R) = re_to_int R" "re_to_int (sleep_main_env F resolve j R') = re_to_int R'"
  "re_cores (memcached_runner_env F resolve j R) = re_cores R" "re_cores (sleep_main_env F resolve j R') = re_cores R'"
  "re_connect (memcached_runner_env F resolve j R) = memcached_connect F resolve"
  "re_connect (sleep_main_env F resolve j R') = sleep_connect (re_histogram R') F resolve"
  "re_ready (memcached_runner_env F resolve j R) = (\<lambda>_ _. True)" "re_ready (sleep_main_env F resolve j R') = (\<lambda>_ _. True)"
  by (simp_all add: memcached_runner_env_def sleep_main_env_def memcached_isReady_def sleep_isReady_def)

text \<open>Idle environments for concrete runs.\<close>

definition idle_service_env ::
  "('w, 'r) workload_ops \<Rightarrow> 'w \<Rightarrow>
     (dynamic_value event list, 'w, 'r, dynamic_value, string, double list, bounded_alist, nat) runner_env" where
  "idle_service_env W w = \<lparr>
     re_sched = idle_env, re_worker = \<lparr>we_workload = W, we_clock = ns_clock, we_dynamic = dynamic_value_ops\<rparr>,
     re_map = bounded_alist_ops, re_histogram = list_histogram,
     re_show = (\<lambda>_. []), re_order = (\<lambda>_. []), re_is_readable = (\<lambda>_. True), re_write = (\<lambda>_ _. Written),
     re_parseJson = Inr, re_toJson = (\<lambda>j. j), re_update = (\<lambda>a b. Inr b),
     re_split = (\<lambda>x. [x]), re_to_int = (\<lambda>x. Inr (int (length x))), re_tryTo = (\<lambda>_. None), re_cores = 8,
     re_make_workload = (\<lambda>_. w), re_connect = Inr, re_makeConfigOutputs = (\<lambda>_ _. []),
     re_ready = (\<lambda>_ _. True), re_STARTING = 1, re_time = 0, re_getCounters = (\<lambda>_. []),
     re_during_test = (\<lambda>_ p. p), re_during_drain = (\<lambda>_ p. p)\<rparr>"

lemma idle_service_env_ok:
  "well_behaved F (memcached_runner_env G resolve j (idle_service_env W w))"
  "well_behaved F (sleep_main_env G resolve j (idle_service_env V v))"
  by (simp_all add: well_behaved_def other_threads_def lists_entries_def idle_service_env_def memcached_runner_env_def
      sleep_main_env_def)

section \<open>Properties\<close>



end
