(* ===== verification/Counter_Races.thy ===== *)
theory Counter_Races
  imports Statistics
begin

text \<open>
  \<open>increase\<close> called by several threads at once. \<open>count_\<close> is a plain \<open>int64_t\<close>, so that \<open>count_ += n\<close> is a load
  and a store between which other threads may go on; the count of a subkey is atomic. The C++ standard gives
  such a race no meaning; what is modelled is the usual one, single accesses that are not torn. The
  breakdown stays exact under every interleaving, and the total can only be too low.
\<close>

section \<open>The accesses of increase\<close>

text \<open>What \<open>increase\<close> does after \<open>count_ += n\<close>.\<close>

definition increase_subkey ::
  "'m insert_map_ops \<Rightarrow> int64 \<Rightarrow> string \<Rightarrow> 'm counter_statistic \<Rightarrow> 'm counter_statistic res" where
  "increase_subkey M n subkey c =
     (if subkey \<noteq> []
      then res_bind (im_findOrConstruct M subkey 0 (cs_subkey_count c)) (\<lambda>m.
             Inr (c\<lparr>cs_subkey_count := im_store M subkey (to_int64 (im_data M subkey m + n)) m\<rparr>))
      else Inr c)"

text \<open>Where a thread is in the first of the increases that it still has to make.\<close>

datatype race_pc = Race_load | Race_store int64 | Race_subkey

type_synonym race_thread = "race_pc \<times> (int64 \<times> string) list"

inductive race_step ::
  "'m insert_map_ops \<Rightarrow> 'm counter_statistic \<times> race_thread list \<Rightarrow> 'm counter_statistic \<times> race_thread list \<Rightarrow> bool"
  for M :: "'m insert_map_ops" where
  loads: "i < length ts \<Longrightarrow> ts ! i = (Race_load, x # xs) \<Longrightarrow>
    race_step M (c, ts) (c, ts[i := (Race_store (cs_count c), x # xs)])"
| stores: "i < length ts \<Longrightarrow> ts ! i = (Race_store v, x # xs) \<Longrightarrow> check_int64 (v + fst x) = Inr v' \<Longrightarrow>
    race_step M (c, ts) (c\<lparr>cs_count := v'\<rparr>, ts[i := (Race_subkey, x # xs)])"
| subkeys: "i < length ts \<Longrightarrow> ts ! i = (Race_subkey, x # xs) \<Longrightarrow> increase_subkey M (fst x) (snd x) c = Inr c' \<Longrightarrow>
    race_step M (c, ts) (c', ts[i := (Race_load, xs)])"

text \<open>Without interruption the three accesses are one call.\<close>

lemma increase_accesses:
  "increase M n k c = res_bind (check_int64 (cs_count c + n)) (\<lambda>v. increase_subkey M n k (c\<lparr>cs_count := v\<rparr>))"
  by (cases "check_int64 (cs_count c + n)") (simp_all add: increase_def increase_subkey_def)

lemma race_increase:
  assumes "i < length ts" "ts ! i = (Race_load, x # xs)" "increase M (fst x) (snd x) c = Inr c'"
  shows "(race_step M)\<^sup>*\<^sup>* (c, ts) (c', ts[i := (Race_load, xs)])"
proof -
  obtain v where v: "check_int64 (cs_count c + fst x) = Inr v"
    and c': "increase_subkey M (fst x) (snd x) (c\<lparr>cs_count := v\<rparr>) = Inr c'"
    using assms(3) by (auto simp: increase_accesses res_bind_eq_Inr)
  let ?t1 = "ts[i := (Race_store (cs_count c), x # xs)]"
  let ?t2 = "ts[i := (Race_subkey, x # xs)]"
  have "race_step M (c, ts) (c, ?t1)" by (rule race_step.loads [OF assms(1,2)])
  moreover have "race_step M (c, ?t1) (c\<lparr>cs_count := v\<rparr>, ?t1[i := (Race_subkey, x # xs)])"
    by (rule race_step.stores [OF _ _ v]) (use assms(1) in simp_all)
  moreover have "race_step M (c\<lparr>cs_count := v\<rparr>, ?t2) (c', ?t2[i := (Race_load, xs)])"
    by (rule race_step.subkeys [OF _ _ c']) (use assms(1) in simp_all)
  ultimately show ?thesis by (simp add: converse_rtranclp_into_rtranclp)
qed

section \<open>What is still to come\<close>

text \<open>The amounts not yet stored, and those of a subkey not yet added.\<close>

fun to_store :: "race_thread \<Rightarrow> int" where
  "to_store (Race_subkey, x # xs) = sum_list (map fst xs)"
| "to_store (pc, xs) = sum_list (map fst xs)"

definition to_add :: "string \<Rightarrow> race_thread \<Rightarrow> int" where
  "to_add k t = subkey_total k (snd t)"

lemma sum_list_update_int:
  fixes f :: "'a \<Rightarrow> int"
  assumes "i < length ts"
  shows "(\<Sum>t\<leftarrow>ts[i := t']. f t) = (\<Sum>t\<leftarrow>ts. f t) - f (ts ! i) + f t'"
  using assms by (induction ts arbitrary: i) (auto simp: nth_Cons split: nat.splits)

definition amounts_ok :: "race_thread list \<Rightarrow> bool" where
  "amounts_ok ts \<longleftrightarrow> (\<forall>t\<in>set ts. \<forall>x\<in>set (snd t). 0 \<le> fst x)"

text \<open>The values that threads have loaded and not yet stored.\<close>

definition loaded_within :: "int \<Rightarrow> race_thread list \<Rightarrow> bool" where
  "loaded_within b ts \<longleftrightarrow> (\<forall>t\<in>set ts. \<forall>v. fst t = Race_store v \<longrightarrow> 0 \<le> v \<and> v \<le> b)"

lemma all_update: "\<forall>t\<in>set ts. P t \<Longrightarrow> P t' \<Longrightarrow> \<forall>t\<in>set (ts[i := t']). P t"
  by (auto dest!: set_update_subset_insert [THEN subsetD])

lemma amounts_ok_update: "amounts_ok ts \<Longrightarrow> \<forall>x\<in>set (snd t'). 0 \<le> fst x \<Longrightarrow> amounts_ok (ts[i := t'])"
  unfolding amounts_ok_def by (rule all_update)

lemma loaded_within_update:
  "loaded_within b ts \<Longrightarrow> b \<le> b' \<Longrightarrow> \<forall>v. fst t' = Race_store v \<longrightarrow> 0 \<le> v \<and> v \<le> b' \<Longrightarrow> loaded_within b' (ts[i := t'])"
  unfolding loaded_within_def by (rule all_update) (auto intro: order_trans)

context atomic_insert_map
begin

lemma increase_subkey_slots:
  assumes "increase_subkey M n k c = Inr c'"
  shows "cs_count c' = cs_count c"
    "slots (cs_subkey_count c') = (if k = [] then slots (cs_subkey_count c)
       else (slots (cs_subkey_count c))(k \<mapsto> to_int64 (slot_value (slots (cs_subkey_count c)) k + n)))"
proof -
  have *: "cs_count c' = cs_count c \<and> slots (cs_subkey_count c') = (if k = [] then slots (cs_subkey_count c)
       else (slots (cs_subkey_count c))(k \<mapsto> to_int64 (slot_value (slots (cs_subkey_count c)) k + n)))"
  proof (cases "k = []")
    case True
    then show ?thesis using assms by (auto simp: increase_subkey_def)
  next
    case False
    then obtain m where m: "im_findOrConstruct M k 0 (cs_subkey_count c) = Inr m"
      and c': "c' = c\<lparr>cs_subkey_count := im_store M k (to_int64 (im_data M k m + n)) m\<rparr>"
      using assms by (auto simp: increase_subkey_def res_bind_eq_Inr)
    have k: "slots m k = Some (slot_value (slots (cs_subkey_count c)) k)"
      using findOrConstruct_slots(1) [OF m] by (simp add: slot_value_def)
    show ?thesis using False c' findOrConstruct_slots [OF m] store [OF k] data [OF k] by simp
  qed
  then show "cs_count c' = cs_count c"
    "slots (cs_subkey_count c') = (if k = [] then slots (cs_subkey_count c)
       else (slots (cs_subkey_count c))(k \<mapsto> to_int64 (slot_value (slots (cs_subkey_count c)) k + n)))" by blast+
qed

text \<open>
  \<open>T\<close> is the sum of all amounts, \<open>A k\<close> that of the amounts under \<open>k\<close>: the count and every value a thread
  has loaded are at most what has been stored, and a slot holds what has been added under its key.
\<close>

definition race_inv :: "int \<Rightarrow> (string \<Rightarrow> int) \<Rightarrow> 'm counter_statistic \<times> race_thread list \<Rightarrow> bool" where
  "race_inv T A x \<longleftrightarrow> (case x of (c, ts) \<Rightarrow> amounts_ok ts \<and>
     0 \<le> cs_count c \<and> cs_count c \<le> T - (\<Sum>t\<leftarrow>ts. to_store t) \<and>
     loaded_within (T - (\<Sum>t\<leftarrow>ts. to_store t)) ts \<and>
     (\<forall>k. k \<noteq> [] \<longrightarrow> slot_value (slots (cs_subkey_count c)) k = to_int64 (A k - (\<Sum>t\<leftarrow>ts. to_add k t))))"

lemma race_inv_step:
  assumes "race_step M x y" "race_inv T A x"
  shows "race_inv T A y"
  using assms
proof (induction rule: race_step.induct)
  case (loads i ts x xs c)
  let ?t = "(Race_store (cs_count c), x # xs)"
  have sums: "(\<Sum>t\<leftarrow>ts[i := ?t]. to_store t) = (\<Sum>t\<leftarrow>ts. to_store t)" "(\<Sum>t\<leftarrow>ts[i := ?t]. to_add k t) = (\<Sum>t\<leftarrow>ts. to_add k t)" for k
    using loads(1,2) by (simp_all add: sum_list_update_int to_add_def)
  have x: "\<forall>y\<in>set (x # xs). 0 \<le> fst y"
    using loads nth_mem [OF loads(1)] unfolding race_inv_def amounts_ok_def by auto
  have "loaded_within (T - (\<Sum>t\<leftarrow>ts. to_store t)) (ts[i := ?t])"
    by (rule loaded_within_update [where b = "T - (\<Sum>t\<leftarrow>ts. to_store t)"]) (use loads(3) in \<open>simp_all add: race_inv_def\<close>)
  then show ?case using loads(3) x unfolding race_inv_def prod.case sums by (simp add: amounts_ok_update)
next
  case (stores i ts v x xs v' c)
  let ?t = "(Race_subkey, x # xs)" and ?b = "T - (\<Sum>t\<leftarrow>ts. to_store t)"
  have v': "v' = v + fst x" using stores(3) by (simp add: check_int64_eq_Inr)
  have mem: "(Race_store v, x # xs) \<in> set ts" using stores(1,2) nth_mem by metis
  have inv: "amounts_ok ts" "loaded_within ?b ts" using stores(4) by (simp_all add: race_inv_def)
  have x: "\<forall>y\<in>set (x # xs). 0 \<le> fst y" using bspec [OF inv(1) [unfolded amounts_ok_def] mem] by simp
  have v: "0 \<le> v" "v \<le> ?b" using bspec [OF inv(2) [unfolded loaded_within_def] mem] by simp_all
  have sums: "(\<Sum>t\<leftarrow>ts[i := ?t]. to_store t) = (\<Sum>t\<leftarrow>ts. to_store t) - fst x" "(\<Sum>t\<leftarrow>ts[i := ?t]. to_add k t) = (\<Sum>t\<leftarrow>ts. to_add k t)" for k
    using stores(1,2) by (simp_all add: sum_list_update_int to_add_def)
  have "loaded_within (?b + fst x) (ts[i := ?t])" using inv(2) x by (intro loaded_within_update) auto
  moreover have "amounts_ok (ts[i := ?t])" using inv(1) x by (intro amounts_ok_update) simp_all
  ultimately show ?case using stores(4) v x unfolding race_inv_def prod.case sums v'
    by (simp add: algebra_simps)
next
  case (subkeys i ts x xs c c')
  let ?t = "(Race_load, xs)"
  have mem: "(Race_subkey, x # xs) \<in> set ts" using subkeys(1,2) nth_mem by metis
  have inv: "amounts_ok ts" "loaded_within (T - (\<Sum>t\<leftarrow>ts. to_store t)) ts"
    and slots: "\<And>k. k \<noteq> [] \<Longrightarrow> slot_value (slots (cs_subkey_count c)) k = to_int64 (A k - (\<Sum>t\<leftarrow>ts. to_add k t))"
    and count: "0 \<le> cs_count c" "cs_count c \<le> T - (\<Sum>t\<leftarrow>ts. to_store t)"
    using subkeys(4) by (simp_all add: race_inv_def)
  have sums: "(\<Sum>t\<leftarrow>ts[i := ?t]. to_store t) = (\<Sum>t\<leftarrow>ts. to_store t)"
    "(\<Sum>t\<leftarrow>ts[i := ?t]. to_add k t) = (\<Sum>t\<leftarrow>ts. to_add k t) - (if snd x = k then fst x else 0)" for k
    using subkeys(1,2) by (simp_all add: sum_list_update_int to_add_def)
  have "amounts_ok (ts[i := ?t])"
    using bspec [OF inv(1) [unfolded amounts_ok_def] mem] by (intro amounts_ok_update inv(1)) simp
  moreover have "loaded_within (T - (\<Sum>t\<leftarrow>ts. to_store t)) (ts[i := ?t])"
    by (rule loaded_within_update [OF inv(2)]) simp_all
  moreover have "slot_value (slots (cs_subkey_count c')) k = to_int64 (A k - (\<Sum>t\<leftarrow>ts[i := ?t]. to_add k t))" if "k \<noteq> []" for k
  proof (cases "snd x = k")
    case True
    then have "slot_value (slots (cs_subkey_count c')) k = to_int64 (slot_value (slots (cs_subkey_count c)) k + fst x)"
      using that by (simp add: increase_subkey_slots(2) [OF subkeys(3)] slot_value_def)
    then show ?thesis using True slots [OF that] unfolding sums by (simp add: algebra_simps)
  next
    case False
    then have "slot_value (slots (cs_subkey_count c')) k = slot_value (slots (cs_subkey_count c)) k"
      by (simp add: increase_subkey_slots(2) [OF subkeys(3)] slot_value_def)
    then show ?thesis using False slots [OF that] unfolding sums by simp
  qed
  ultimately show ?case using count unfolding race_inv_def prod.case sums(1) increase_subkey_slots(1) [OF subkeys(3)]
    by simp
qed

lemma race_inv_steps: "(race_step M)\<^sup>*\<^sup>* x y \<Longrightarrow> race_inv T A x \<Longrightarrow> race_inv T A y"
  by (induction rule: rtranclp_induct) (auto intro: race_inv_step)

end

text \<open>A thread on its own loses nothing.\<close>

definition solo :: "int \<Rightarrow> 'm counter_statistic \<times> race_thread list \<Rightarrow> bool" where
  "solo T x \<longleftrightarrow> (\<exists>t. snd x = [t] \<and> cs_count (fst x) = T - to_store t \<and>
     (\<forall>v. fst t = Race_store v \<longrightarrow> v = cs_count (fst x)))"

lemma solo_step:
  assumes "atomic_insert_map M slots capacity" "race_step M x y" "solo T x"
  shows "solo T y"
  using assms(2,3)
proof (induction rule: race_step.induct)
  case (stores i ts v x xs v' c)
  then show ?case by (auto simp: solo_def check_int64_eq_Inr)
next
  case (subkeys i ts x xs c c')
  then show ?case using atomic_insert_map.increase_subkey_slots(1) [OF assms(1) subkeys(3)] by (auto simp: solo_def)
qed (auto simp: solo_def)

lemma solo_steps:
  "atomic_insert_map M slots capacity \<Longrightarrow> (race_step M)\<^sup>*\<^sup>* x y \<Longrightarrow> solo T x \<Longrightarrow> solo T y"
  by (rotate_tac 1, induction rule: rtranclp_induct) (auto intro: solo_step)

section \<open>Properties\<close>

text \<open>
  C22. Races on a counter. Let any number of threads make increases by non-negative amounts on a new counter,
  the loads and stores of \<open>count_\<close> and the atomic additions interleaving in any way. When all increases have
  been made, every subkey has exactly the sum of the amounts given for it, modulo \<open>2 ^ 64\<close>, while the total
  is at most the sum of all amounts and not negative: updates of the total can be lost, never invented. With
  one thread the total is exact.
\<close>

theorem counter_races:
  assumes "atomic_insert_map M slots capacity" "\<forall>xs\<in>set xss. \<forall>x\<in>set xs. 0 \<le> fst x"
    and "(race_step M)\<^sup>*\<^sup>* (CounterStatistic M name, map (Pair Race_load) xss) (c, ts)" "\<forall>t\<in>set ts. t = (Race_load, [])"
  shows "0 \<le> getCount c \<and> getCount c \<le> (\<Sum>xs\<leftarrow>xss. sum_list (map fst xs)) \<and>
    (\<forall>k. k \<noteq> [] \<longrightarrow> slot_value (slots (cs_subkey_count c)) k = to_int64 (\<Sum>xs\<leftarrow>xss. subkey_total k xs)) \<and>
    (length xss = 1 \<longrightarrow> getCount c = (\<Sum>xs\<leftarrow>xss. sum_list (map fst xs)))"
proof -
  let ?T = "\<Sum>xs\<leftarrow>xss. sum_list (map fst xs)" and ?A = "\<lambda>k. \<Sum>xs\<leftarrow>xss. subkey_total k xs"
  have start: "(\<Sum>t\<leftarrow>map (Pair Race_load) xss. to_store t) = ?T" "(\<Sum>t\<leftarrow>map (Pair Race_load) xss. to_add k t) = ?A k" for k
    by (simp_all add: comp_def to_add_def)
  have "atomic_insert_map.race_inv slots ?T ?A (CounterStatistic M name, map (Pair Race_load) xss)"
    unfolding atomic_insert_map.race_inv_def [OF assms(1)] prod.case start
    using assms(2) atomic_insert_map.slots_new(1) [OF assms(1)]
    by (auto simp: amounts_ok_def loaded_within_def CounterStatistic_def slot_value_def)
  from atomic_insert_map.race_inv_steps [OF assms(1,3) this]
  have inv: "atomic_insert_map.race_inv slots ?T ?A (c, ts)" .
  have done_all: "(\<Sum>t\<leftarrow>ts. to_store t) = 0" "(\<Sum>t\<leftarrow>ts. to_add k t) = 0" for k
    using assms(4) by (induction ts) (auto simp: to_add_def)
  have "getCount c = ?T" if "length xss = 1"
  proof -
    have "\<exists>xs. xss = [xs]" using that by (auto simp: length_Suc_conv)
    then obtain xs where xs: "xss = [xs]" ..
    have "solo ?T (CounterStatistic M name, map (Pair Race_load) xss)" by (simp add: xs solo_def CounterStatistic_def)
    then have "solo ?T (c, ts)" by (rule solo_steps [OF assms(1,3)])
    then show ?thesis using assms(4) by (auto simp: solo_def getCount_def)
  qed
  then show ?thesis using inv unfolding atomic_insert_map.race_inv_def [OF assms(1)] prod.case done_all getCount_def by simp
qed

text \<open>Two threads that load the total before either stores it: one of the two updates is lost.\<close>

theorem counter_races_witness:
  "\<exists>c. (race_step bounded_alist_ops)\<^sup>*\<^sup>* (CounterStatistic bounded_alist_ops ''exceptions'', map (Pair Race_load) [[(1, ''E'')], [(1, ''E'')]])
       (c, [(Race_load, []), (Race_load, [])]) \<and>
     getCount c = 1 \<and> getCount c \<le> 2 \<and> slot_value (map_of (snd (cs_subkey_count c))) ''E'' = 2"
proof -
  let ?M = bounded_alist_ops and ?x = "(1 :: int, ''E'')"
  let ?new = "CounterStatistic ?M ''exceptions''"
  let ?one = "?new\<lparr>cs_count := 1\<rparr>"
  let ?mid = "\<lambda>n. \<lparr>cs_count = 1, cs_subkey_count = (10240, [(''E'', n)])\<rparr>"
  obtain c2 where c2: "c2 = ?mid 1" "increase_subkey ?M 1 ''E'' ?one = Inr c2"
    by (simp add: increase_subkey_def CounterStatistic_def bounded_alist_ops_def to_int64_def)
  obtain c3 where c3: "c3 = ?mid 2" "increase_subkey ?M 1 ''E'' c2 = Inr c3"
    unfolding c2(1) by (simp add: increase_subkey_def bounded_alist_ops_def to_int64_def)
  have steps: "(race_step ?M)\<^sup>*\<^sup>* (?new, [(Race_load, [?x]), (Race_load, [?x])]) (c3, [(Race_load, []), (Race_load, [])])"
  proof -
    have "race_step ?M (?new, [(Race_load, [?x]), (Race_load, [?x])]) (?new, [(Race_store 0, [?x]), (Race_load, [?x])])"
      using race_step.loads [of 0 "[(Race_load, [?x]), (Race_load, [?x])]" ?x "[]" ?M ?new] by (simp add: CounterStatistic_def)
    moreover have "race_step ?M (?new, [(Race_store 0, [?x]), (Race_load, [?x])]) (?new, [(Race_store 0, [?x]), (Race_store 0, [?x])])"
      using race_step.loads [of 1 "[(Race_store 0, [?x]), (Race_load, [?x])]" ?x "[]" ?M ?new] by (simp add: CounterStatistic_def)
    moreover have "race_step ?M (?new, [(Race_store 0, [?x]), (Race_store 0, [?x])]) (?one, [(Race_subkey, [?x]), (Race_store 0, [?x])])"
      using race_step.stores [of 0 "[(Race_store 0, [?x]), (Race_store 0, [?x])]" 0 ?x "[]" 1 ?M ?new] by (simp add: check_int64_eq_Inr in_int64_def)
    moreover have "race_step ?M (?one, [(Race_subkey, [?x]), (Race_store 0, [?x])]) (?one, [(Race_subkey, [?x]), (Race_subkey, [?x])])"
      using race_step.stores [of 1 "[(Race_subkey, [?x]), (Race_store 0, [?x])]" 0 ?x "[]" 1 ?M ?one] by (simp add: check_int64_eq_Inr in_int64_def)
    moreover have "race_step ?M (?one, [(Race_subkey, [?x]), (Race_subkey, [?x])]) (c2, [(Race_load, []), (Race_subkey, [?x])])"
      using race_step.subkeys [of 0 "[(Race_subkey, [?x]), (Race_subkey, [?x])]" ?x "[]" ?M ?one c2] c2(2) by simp
    moreover have "race_step ?M (c2, [(Race_load, []), (Race_subkey, [?x])]) (c3, [(Race_load, []), (Race_load, [])])"
      using race_step.subkeys [of 1 "[(Race_load, []), (Race_subkey, [?x])]" ?x "[]" ?M c2 c3] c3(2) by simp
    ultimately show ?thesis by (meson converse_rtranclp_into_rtranclp rtranclp.rtrancl_refl)
  qed
  have "\<forall>xs\<in>set [[?x], [?x]]. \<forall>x\<in>set xs. 0 \<le> fst x" "\<forall>t\<in>set [(Race_load, []), (Race_load, [])]. t = (Race_load, [])" by simp_all
  with counter_races [OF bal.atomic_insert_map_axioms this(1) _ this(2), of "''exceptions''" c3] steps
  show ?thesis unfolding c3(1) by (intro exI [of _ "?mid 2"]) (auto simp: getCount_def to_int64_def)
qed

end
