(* ===== verification/Random_Engine.thy ===== *)
theory Random_Engine
  imports Flags Binary64
begin

text \<open>
  \<open>RandomEngine.h\<close> and \<open>RandomEngine.cpp\<close>: the shared random engine and the engines that are private
  to a thread. The Mersenne twister and the two distributions of the standard library are the
  operations of \<open>engine_ops\<close>; \<open>time(nullptr)\<close> and the hash of a thread's identifier are arguments.
  The thread-local pointer is a map from threads to engines.
\<close>

section \<open>The engines\<close>

text \<open>
  Seeding an engine, and drawing from the distribution with the given bounds: the value and the
  engine after the draw.
\<close>

record 'e engine_ops =
  mt19937_64 :: "uint64 \<Rightarrow> 'e"
  uniform_real :: "double \<Rightarrow> double \<Rightarrow> 'e \<Rightarrow> double \<times> 'e"
  uniform_int :: "uint64 \<Rightarrow> uint64 \<Rightarrow> 'e \<Rightarrow> uint64 \<times> 'e"

definition ULLONG_MAX :: uint64 where
  "ULLONG_MAX = - 1"

text \<open>The seed flag, or the time when the flag has its default.\<close>

definition base_seed :: "flags \<Rightarrow> uint64 \<Rightarrow> uint64" where
  "base_seed F time_now =
     (if FLAGS_treadmill_random_seed F = ULLONG_MAX then time_now else FLAGS_treadmill_random_seed F)"

section \<open>The shared engine\<close>

definition RandomEngine :: "'e engine_ops \<Rightarrow> flags \<Rightarrow> uint64 \<Rightarrow> 'e" where
  "RandomEngine R F time_now = mt19937_64 R (base_seed F time_now)"

definition RandomEngine_getDouble :: "'e engine_ops \<Rightarrow> 'e \<Rightarrow> double \<times> 'e" where
  "RandomEngine_getDouble R e = uniform_real R (double_of 0) (double_of 1) e"

definition RandomEngine_getDouble_range :: "'e engine_ops \<Rightarrow> double \<Rightarrow> double \<Rightarrow> 'e \<Rightarrow> double \<times> 'e" where
  "RandomEngine_getDouble_range R lo hi e = uniform_real R lo hi e"

definition RandomEngine_getInteger :: "'e engine_ops \<Rightarrow> 'e \<Rightarrow> uint64 \<times> 'e" where
  "RandomEngine_getInteger R e = uniform_int R 0 ULLONG_MAX e"

definition RandomEngine_getInteger_range :: "'e engine_ops \<Rightarrow> uint64 \<Rightarrow> uint64 \<Rightarrow> 'e \<Rightarrow> uint64 \<times> 'e" where
  "RandomEngine_getInteger_range R lo hi e = uniform_int R lo hi e"

section \<open>The engines of the threads\<close>

type_synonym ('t, 'e) thread_engines = "'t \<rightharpoonup> 'e"

text \<open>\<open>get\<close>: the engine of the calling thread, made on its first call; the sum of the seed wraps.\<close>

definition engine_get ::
  "'e engine_ops \<Rightarrow> flags \<Rightarrow> ('t \<Rightarrow> uint64) \<Rightarrow> uint64 \<Rightarrow> 't \<Rightarrow> ('t, 'e) thread_engines \<Rightarrow> 'e \<times> ('t, 'e) thread_engines" where
  "engine_get R F hasher time_now thread es = (case es thread of
     Some e \<Rightarrow> (e, es)
   | None \<Rightarrow> (let e = mt19937_64 R (hasher thread + base_seed F time_now) in (e, es(thread \<mapsto> e))))"

definition ThreadSafe_getDouble ::
  "'e engine_ops \<Rightarrow> flags \<Rightarrow> ('t \<Rightarrow> uint64) \<Rightarrow> uint64 \<Rightarrow> 't \<Rightarrow> double \<Rightarrow> double \<Rightarrow>
     ('t, 'e) thread_engines \<Rightarrow> double \<times> ('t, 'e) thread_engines" where
  "ThreadSafe_getDouble R F hasher time_now thread lo hi es =
     (case engine_get R F hasher time_now thread es of (e, es1) \<Rightarrow>
      case uniform_real R lo hi e of (x, e') \<Rightarrow> (x, es1(thread \<mapsto> e')))"

definition ThreadSafe_getInteger ::
  "'e engine_ops \<Rightarrow> flags \<Rightarrow> ('t \<Rightarrow> uint64) \<Rightarrow> uint64 \<Rightarrow> 't \<Rightarrow> uint64 \<Rightarrow> uint64 \<Rightarrow>
     ('t, 'e) thread_engines \<Rightarrow> uint64 \<times> ('t, 'e) thread_engines" where
  "ThreadSafe_getInteger R F hasher time_now thread lo hi es =
     (case engine_get R F hasher time_now thread es of (e, es1) \<Rightarrow>
      case uniform_int R lo hi e of (x, e') \<Rightarrow> (x, es1(thread \<mapsto> e')))"

section \<open>Interleaved draws\<close>

text \<open>
  The draws of integers by several threads: which thread, at what time, with which bounds. The
  result lists each draw with its thread.
\<close>

primrec thread_draws ::
  "'e engine_ops \<Rightarrow> flags \<Rightarrow> ('t \<Rightarrow> uint64) \<Rightarrow> ('t \<times> uint64 \<times> uint64 \<times> uint64) list \<Rightarrow>
     ('t, 'e) thread_engines \<Rightarrow> ('t \<times> uint64) list" where
  "thread_draws R F hasher [] es = []"
| "thread_draws R F hasher (d # ds) es = (case d of (thread, time_now, lo, hi) \<Rightarrow>
     case ThreadSafe_getInteger R F hasher time_now thread lo hi es of (x, es') \<Rightarrow>
       (thread, x) # thread_draws R F hasher ds es')"

text \<open>The specification: one engine, one sequence of bounds.\<close>

primrec engine_draws :: "'e engine_ops \<Rightarrow> (uint64 \<times> uint64) list \<Rightarrow> 'e \<Rightarrow> uint64 list" where
  "engine_draws R [] e = []"
| "engine_draws R (b # bs) e = (case uniform_int R (fst b) (snd b) e of (x, e') \<Rightarrow> x # engine_draws R bs e')"

definition draws_of :: "'t \<Rightarrow> ('t \<times> 'x) list \<Rightarrow> 'x list" where
  "draws_of thread xs = map snd (filter (\<lambda>x. fst x = thread) xs)"

lemma draws_of_simps [simp]:
  "draws_of t [] = []" "draws_of t (x # xs) = (if fst x = t then snd x # draws_of t xs else draws_of t xs)"
  by (simp_all add: draws_of_def)

lemma thread_draws_known:
  assumes "es thread = Some e"
  shows "draws_of thread (thread_draws R F hasher ds es) = engine_draws R (map snd (draws_of thread ds)) e"
  using assms
proof (induction ds arbitrary: es e)
  case (Cons d ds)
  obtain u tm lo hi where d: "d = (u, tm, lo, hi)" by (cases d)
  obtain x es' where x: "ThreadSafe_getInteger R F hasher tm u lo hi es = (x, es')" by force
  show ?case
  proof (cases "u = thread")
    case True
    obtain y e' where y: "uniform_int R lo hi e = (y, e')" by force
    have "x = y" "es' thread = Some e'"
      using x y Cons.prems True by (auto simp: ThreadSafe_getInteger_def engine_get_def)
    then show ?thesis using Cons.IH [of es' e'] True d x y by simp
  next
    case False
    have "es' thread = Some e"
      using x Cons.prems False
      by (auto simp: ThreadSafe_getInteger_def engine_get_def Let_def split: option.splits prod.splits)
    then show ?thesis using Cons.IH [of es' e] False d x by simp
  qed
qed simp

lemma thread_draws_fresh:
  assumes "es thread = None" "draws_of thread ds = (tm, lo, hi) # bs"
  shows "draws_of thread (thread_draws R F hasher ds es) =
    engine_draws R (map snd (draws_of thread ds)) (mt19937_64 R (hasher thread + base_seed F tm))"
  using assms
proof (induction ds arbitrary: es)
  case (Cons d ds)
  obtain u tm' lo' hi' where d: "d = (u, tm', lo', hi')" by (cases d)
  obtain x es' where x: "ThreadSafe_getInteger R F hasher tm' u lo' hi' es = (x, es')" by force
  show ?case
  proof (cases "u = thread")
    case True
    let ?e = "mt19937_64 R (hasher thread + base_seed F tm)"
    obtain y e' where y: "uniform_int R lo' hi' ?e = (y, e')" by force
    have "x = y" "es' thread = Some e'"
      using x y Cons.prems True d by (auto simp: ThreadSafe_getInteger_def engine_get_def Let_def)
    then show ?thesis using thread_draws_known [of es' thread e'] True d x y by simp
  next
    case False
    have "es' thread = None"
      using x Cons.prems False
      by (auto simp: ThreadSafe_getInteger_def engine_get_def Let_def split: option.splits prod.splits)
    then show ?thesis using Cons.IH [of es'] Cons.prems(2) False d x by simp
  qed
qed simp

section \<open>Properties\<close>

text \<open>
  C33. Every thread has a stream of its own. For any interleaving of draws by any threads, starting with
  no engines, the numbers a thread gets are exactly those of a single engine that is seeded with the
  hash of the thread plus the base seed at the thread's first draw (the sum modulo \<open>2 ^ 64\<close>) and
  asked for the same bounds: no thread's draws depend on another's.
\<close>

theorem thread_stream_private:
  assumes "draws_of thread ds = (tm, lo, hi) # bs"
  shows "draws_of thread (thread_draws R F hasher ds Map.empty) =
    engine_draws R ((lo, hi) # map snd bs) (mt19937_64 R (hasher thread + base_seed F tm))"
  using thread_draws_fresh [of Map.empty thread ds tm lo hi bs R F hasher] assms by simp

theorem thread_stream_private_witness:
  "draws_of (1 :: nat) (thread_draws \<lparr>mt19937_64 = (\<lambda>s. s), uniform_real = (\<lambda>lo hi e. (lo, e)),
       uniform_int = (\<lambda>lo hi e. (e, e + 1))\<rparr> (default_flags\<lparr>FLAGS_treadmill_random_seed := 7\<rparr>) (\<lambda>t. of_nat (10 * t))
       [(1, 0, 0, 9), (2, 0, 0, 9), (1, 5, 0, 9)] Map.empty) = [17, 18]"
  using thread_stream_private [of "1 :: nat" "[(1, 0, 0, 9), (2, 0, 0, 9), (1, 5, 0, 9)]" 0 0 9 "[(5, 0, 9)]"
      "\<lparr>mt19937_64 = (\<lambda>s. s), uniform_real = (\<lambda>lo hi e. (lo, e)), uniform_int = (\<lambda>lo hi e. (e, e + 1))\<rparr>"
      "default_flags\<lparr>FLAGS_treadmill_random_seed := 7\<rparr>" "\<lambda>t. of_nat (10 * t)"]
  by (simp add: base_seed_def ULLONG_MAX_def)

text \<open>
  A fixed seed makes runs repeat. When the seed flag is set, neither the shared engine nor the engine
  of a thread depends on the time at which it is made; with the flag at its default (all ones) the
  seed is the time, so that the value \<open>2 ^ 64 - 1\<close> itself cannot be chosen as a seed.
\<close>

lemma fixed_seed_repeats:
  "(FLAGS_treadmill_random_seed F \<noteq> ULLONG_MAX \<longrightarrow>
      RandomEngine R F t = mt19937_64 R (FLAGS_treadmill_random_seed F) \<and>
      engine_get R F hasher t thread es = engine_get R F hasher t' thread es) \<and>
   (FLAGS_treadmill_random_seed F = 18446744073709551615 \<longrightarrow> RandomEngine R F t = mt19937_64 R t)"
  by (auto simp: RandomEngine_def base_seed_def engine_get_def ULLONG_MAX_def Let_def split: option.split)

end
