(* ===== verification/Spec2Isabelle.thy ===== *)
theory Spec2Isabelle
  imports Load_Refinement Load_Shutdown Typing Shared_Properties Scheduler_Arrivals Service_Runs Counter_Races Random_Engine
begin

text \<open>
  Verification of Treadmill, a load tester: a scheduler thread decides when a request is sent,
  worker threads send it over their connections and account for the replies, statistics are shared
  between the workers, a remote control changes the run, and a runner starts and ends everything.

  \<^bold>\<open>The parts and their theories.\<close>

  \<^item> \<open>Treadmill_Prelude\<close>: C++ integers (unsigned as words, signed as integers with the overflow written
    out), the result type \<open>abort + 'a\<close>, checked access, and the locale \<open>step_invariant\<close>.
    \<open>Binary64\<close>: \<open>double\<close> with round-to-nearest arithmetic. \<open>Decimal\<close>: printing of integers.
    \<open>Flags\<close>: the command line flags of \<open>Treadmill.cpp\<close> and of the other files that define one.
  \<^item> \<open>Event\<close> (\<open>Event.h\<close>) and \<open>Notification_Queue\<close>: the messages and the queues they travel in. The
    payload and the queue are folly's: parameters with the contracts \<open>folly_dynamic\<close> and
    \<open>notification_queue\<close>.
  \<^item> \<open>Util\<close> (\<open>Util.h\<close>, \<open>Util.cpp\<close>): clock, files, descriptors, name lookup.
  \<^item> \<open>Scheduler\<close> (\<open>Scheduler.h\<close>, \<open>Scheduler.cpp\<close>): the record \<open>scheduler\<close> with the members of the class, its
    operations, and \<open>loop()\<close> as \<open>loop_step\<close>, one step per access to a member that other threads use.
    \<open>Scheduler_Pacing\<close>: the time budget and the wait of one turn. \<open>Scheduler_Arrivals\<close>: many turns against
    the arrival process. \<open>Scheduler_Stopping\<close>: a stop at any point of the loop. \<open>Scheduler_System\<close>: the
    thread interleaved with calls of other threads, their broadcasts message by message, and the
    consumers of the queues.
  \<^item> \<open>Statistics\<close> (\<open>CounterStatistic.h\<close>, \<open>CounterStatistic.cpp\<close>, \<open>StatisticsManager.h\<close>,
    \<open>StatisticsManager.cpp\<close>): counters over an insert-only map (contract \<open>atomic_insert_map\<close>), the manager
    as a heap of statistics with pointers handed out by name, and \<open>print\<close>. \<open>Counter_Races\<close>: \<open>increase\<close> taken
    apart into its accesses, which those of other threads interleave.
  \<^item> \<open>Workload\<close> (\<open>Workload.h\<close> and both services' \<open>Workload.h\<close> and \<open>Request.h\<close>): what a worker asks for
    requests, as the locale \<open>workload\<close>, interpreted on the memcached and the sleep service.
    \<open>Services\<close>: the connections of both services, from construction to \<open>sendRequest\<close>, and \<open>SleepHandler\<close>.
  \<^item> \<open>Worker\<close> (\<open>Worker.h\<close>): the record \<open>worker\<close> with the members of the class and the requests in flight; what
    leaves the class is the log \<open>wk_effects\<close>. \<open>worker_step\<close> is one message, one reply or a call of
    \<open>stop\<close>. \<open>Worker_Accounting\<close> has the invariants, \<open>Worker_Properties\<close> the properties.
    \<open>Shared_Statistics\<close> and \<open>Shared_Properties\<close>: several workers that get their statistics from one manager
    and whose logged \<open>addValue\<close> and \<open>increase\<close> are carried out on it, in any interleaving.
  \<^item> \<open>FB303\<close> (\<open>TreadmillFB303.h\<close>, \<open>TreadmillFB303.cpp\<close>): the remote control, its watchdog and an
    abstract controller which it refines.
  \<^item> \<open>Random_Engine\<close> (\<open>RandomEngine.h\<close>, \<open>RandomEngine.cpp\<close>): the shared and the thread-private engines.
  \<^item> \<open>Runner\<close> (\<open>Treadmill.h\<close>): construction, configuration, affinities, and the whole of \<open>run\<close> on the
    record \<open>process\<close>, with \<open>background_step\<close> for what the other threads do while the main thread waits, and
    the main programs of both services. \<open>Runner_Properties\<close>: its properties. \<open>Service_Runs\<close>: what the two
    programs do as a whole.
  \<^item> \<open>Load_System\<close>: the scheduler and its workers as one step relation, each worker consuming its queue;
    the invariants of the parts carry over, and requests and ends of workers are related to the messages.
    \<open>Load_Shutdown\<close>: from every state in which the scheduler has been told to stop the system can go on to
    its end. \<open>Typing\<close>: all integers of its states stay in their types. \<open>Load_Refinement\<close>: its executions are
    executions of the runner's other threads.
  \<^item> This theory: properties across the scheduler, the remote control and the workers.

  \<^bold>\<open>How they interact.\<close> The runner builds a scheduler with one queue per worker and starts both. The
  scheduler's loop puts RESET, SEND_REQUEST and STOP into the queues, calls of the remote control put
  SET_PHASE and SET_MAX_OUTSTANDING; a worker consumes its queue by \<open>messageAvailable\<close>, asks its workload
  for requests and adds to the statistics that it got from the manager by name. A worker whose workload
  ends stops the scheduler.

  \<^bold>\<open>What the lemmas show.\<close> Scheduler: pacing of a turn and of many, round robin and STOP exactly once
  under every interleaving, first in first out, an end after a stop at any point. Worker: the accounting
  of outstanding requests and exceptions as invariants of all reachable states, no handler fails,
  draining. Statistics: totals and aliasing, for one caller and for all workers. Workloads: the sequence
  of requests. Remote control: refinement, configuration, watchdog. Runner: division of limits, accepted
  affinities, termination with every thread joined, for any behaviour of the other threads and so for the
  load system; which failure ends a program early. Some theorems and lemmas state defects: a zero rate,
  \<open>readBlock\<close> at end of file, the watchdog armed with a stale heartbeat, a changed limit that is not
  divided, key counts out of range.

  \<^bold>\<open>Loops, bounds and fuel.\<close> The spin loop of \<open>waitNs\<close> and the scheduler's loop are step relations; their
  termination is stated with the number of steps (\<open>k + 8\<close> for a turn whose wait takes \<open>k\<close> polls, \<open>n + 5\<close>
  for the shutdown of \<open>n\<close> queues from the loop's head) or, from other points of the loop, as the existence
  of a number of steps after which the thread has ended. The runner's \<open>join\<close> of a thread only marks its
  handle; that the joined threads end is what \<open>scheduler_join_returns\<close>, \<open>stop_reaches_workers\<close>,
  \<open>worker_drains\<close> and, for all of them together, \<open>load_shuts_down\<close> say. The main thread's waits are counted
  in seconds: at most \<open>FLAGS_runtime\<close> for the test and \<open>FLAGS_worker_shutdown_delay\<close> for the workers. \<open>readBlock\<close>, \<open>writeBlock\<close> and the wait for a target are partial
  functions whose divergence is \<open>None\<close>. All other loops are total functions. Rates and budgets are bounded
  by \<open>2 ^ 50\<close> ns where doubles must be exact enough.

  \<^bold>\<open>Parameters.\<close> Operating system, clock, folly, thrift, mcrouter, the random engine and the logarithm
  are arguments of the definitions; what is relied on is stated by a locale or a named hypothesis
  (\<open>clock_reads\<close>, \<open>log_contract\<close>, \<open>unit_draw\<close>, \<open>lists_entries\<close>) and shown to hold for a concrete instance.

  \<^bold>\<open>Not modelled.\<close> The data races on \<open>rps_\<close>, \<open>count_\<close> and \<open>watchdogDurationSec_\<close>, to which C++ gives no
  meaning: a step reads or writes such a member atomically. Lost updates of \<open>count_\<close> are the subject of
  \<open>Counter_Races\<close>; elsewhere the increases of a shared counter follow one another. The threads of the thrift server that \<open>make_fb303\<close> starts (its handle is
  modelled, the calls it makes on the handler are) and \<open>getCounters\<close> of the fb303 base class. Log lines
  other than the printed statistics and counters. \<open>init\<close> of \<open>Treadmill.cpp\<close>, \<open>SleepServer.cpp\<close> and
  \<open>SleepClient.cpp\<close> (calls of folly, gflags and thrift only), \<open>Request.h\<close>, \<open>Statistic.h\<close> and
  \<open>TreadmillConst.h\<close> (no code), and the unit test. What the process does after an exception of \<open>run\<close> has
  left a joinable thread behind. Negative sizes passed to \<open>readBlock\<close> and \<open>writeBlock\<close>, and a failing
  thread creation.
\<close>

section \<open>Properties across components\<close>

text \<open>
  C7. A stop reaches the workers. When the scheduler has been told to stop, its thread ends in finitely
  many steps and leaves, behind whatever messages were waiting in queue \<open>i\<close>, a STOP such that any
  worker in any state it can reach handles the content of this queue without an error and ends neither
  running nor consuming: for every queue that meets its contract, every workload that meets its
  contract and a monotonic clock.
\<close>

theorem stop_reaches_workers:
  assumes "sch_state s = STOPPING" "\<not> sch_promise_fulfilled s" "i < length (sch_queues s)"
    and "notification_queue (env_queue S) msgs" "workload (we_workload E) wl_ok" "clock_reads (we_clock E) c"
    and "worker_started E H M w0" "wl_ok (wk_workload w0)" "(worker_step E)\<^sup>*\<^sup>* w0 w"
  shows "\<exists>s' v. loop_steps S (length (sch_queues s) + 5) (Loop_while, l, s) = Inr (Loop_exit, l, s') \<and> sch_promise_fulfilled s' \<and>
    deliver E (msgs (sch_queues s' ! i)) w = Inr v \<and> \<not> wk_running v \<and> \<not> wk_consuming v"
proof -
  let ?stop = "Event_of (env_dynamic S) STOP"
  let ?s = "s\<lparr>sch_queues := map (q_putMessage (env_queue S) ?stop) (sch_queues s), sch_promise_fulfilled := True\<rparr>"
  have run: "loop_steps S (length (sch_queues s) + 5) (Loop_while, l, s) = Inr (Loop_exit, l, ?s)"
    using loop_steps_shutdown [OF assms(1,2)] by (simp add: messageAllWorkers_eq)
  have "msgs (sch_queues ?s ! i) = msgs (sch_queues s ! i) @ [?stop]"
    using assms(3) notification_queue.msgs_put [OF assms(4)] by simp
  then have stop: "\<exists>e\<in>set (msgs (sch_queues ?s ! i)). getEventType e = STOP" by simp
  have ready: "timely w \<and> worker_inv w \<and> wl_ok (wk_workload w)"
    by (rule workload.reachable_ready [OF assms(5,6) refl worker_started_timely [OF assms(7,6)]
          worker_started_inv [OF assms(7)] assms(8,9)])
  have "wk_consuming w \<or> \<not> wk_running w"
    using worker_steps_consuming [OF assms(9)] worker_started_consuming [OF assms(7)] by blast
  then obtain v where "deliver E (msgs (sch_queues ?s ! i)) w = Inr v" "\<not> wk_running v" "\<not> wk_consuming v"
    using deliver_reaches_stop [OF assms(5,6) _ _ _ _ stop] ready by blast
  then show ?thesis using run by (intro exI [of _ ?s] exI [of _ v]) simp
qed

theorem stop_reaches_workers_witness:
  "\<exists>(w :: (workload_base, sleep_request) worker) v.
     wk_running w \<and> deliver sleep_env [Event_of dynamic_value_ops SEND_REQUEST, Event_of dynamic_value_ops STOP] w = Inr v \<and>
     \<not> wk_running v \<and> \<not> wk_consuming v"
proof -
  obtain w :: "(workload_base, sleep_request) worker" where w: "worker_started sleep_env list_histogram bounded_alist_ops w" "wk_running w"
    using started_worker by blast
  let ?S = "list_env (\<lambda>_. None) (\<lambda>_. NaN) (\<lambda>x. x)"
  let ?s = "(stop (Scheduler4 default_flags list_queue 1024 1 1000 500))\<lparr>sch_queues := [[Event_of dynamic_value_ops SEND_REQUEST]]\<rparr>"
  have s: "sch_state ?s = STOPPING" "\<not> sch_promise_fulfilled ?s" "0 < length (sch_queues ?s)"
    by (simp_all add: stop_def Scheduler4_def)
  have wl: "workload (we_workload sleep_env) (\<lambda>_. True)" using sleep.workload_axioms by simp
  have q: "notification_queue (env_queue ?S) (\<lambda>q. q)" using lq.notification_queue_axioms by (simp add: list_env_def)
  obtain s' v where run: "loop_steps ?S 6 (Loop_while, initial_locals, ?s) = Inr (Loop_exit, initial_locals, s')"
    "sch_promise_fulfilled s'" "deliver sleep_env (sch_queues s' ! 0) w = Inr v" "\<not> wk_running v" "\<not> wk_consuming v"
    using stop_reaches_workers [OF s q wl sleep_env_clock w(1) TrueI rtranclp.rtrancl_refl, of initial_locals]
    by (auto simp: stop_def Scheduler4_def)
  have "s' = ?s\<lparr>sch_queues := [[Event_of dynamic_value_ops SEND_REQUEST, Event_of dynamic_value_ops STOP]],
      sch_promise_fulfilled := True\<rparr>"
    using run(1) loop_steps_shutdown [OF s(1,2), of ?S initial_locals] by (simp add: messageAllWorkers_eq list_env_def)
  then have "deliver sleep_env [Event_of dynamic_value_ops SEND_REQUEST, Event_of dynamic_value_ops STOP] w = Inr v"
    using run(3) by (simp del: deliver.simps)
  then show ?thesis using run(4,5) w(2) by blast
qed

text \<open>
  C30. A change of the limit is not divided. After a remote \<open>setMaxOutstanding(m)\<close> every queue ends with
  one new message, whatever was waiting before it stays, the scheduler reports \<open>m\<close>, and every running
  worker that handles the message takes \<open>m\<close> itself as its limit, negative values included: with \<open>n\<close>
  workers the run may then have \<open>n * m\<close> requests outstanding, while at the start each worker has the
  \<open>n\<close>-th part of the total.
\<close>

theorem limit_change_not_divided:
  assumes "folly_dynamic D" "notification_queue Q msgs" "we_dynamic E = D" "in_int32 m"
    and "fb_setMaxOutstanding F Q D now m fb s = (fb', s')" "i < length (sch_queues s)"
  shows "getMaxOutstandingRequests s' = m \<and>
    (\<exists>e. msgs (sch_queues s' ! i) = msgs (sch_queues s ! i) @ [e] \<and>
       (\<forall>w. wk_running w \<longrightarrow> messageAvailable E e w = Inr (w\<lparr>wk_max_outstanding_requests := m\<rparr>)))"
proof -
  let ?u = "uint (int32_to_uint32 m)"
  let ?e = "Event_with SET_MAX_OUTSTANDING (dyn_of_int D ?u)"
  have s': "s' = s\<lparr>sch_max_outstanding_requests := int32_to_uint32 m,
      sch_queues := map (q_putMessage Q ?e) (sch_queues s)\<rparr>"
    using assms(5) by (simp add: fb_setMaxOutstanding_def setMax_queues)
  have "dyn_asInt D (dyn_of_int D ?u) = ?u" by (rule folly_dynamic.asInt_of_int [OF assms(1)]) simp
  then have "to_int32 (dyn_asInt D (dyn_of_int D ?u)) = m"
    using uint32_int32_roundtrip [OF assms(4)] by (simp add: uint32_to_int32_def)
  moreover have "dyn_isInt D (dyn_of_int D ?u)" by (rule folly_dynamic.isInt_of_int [OF assms(1)])
  ultimately have "messageAvailable E ?e w = Inr (w\<lparr>wk_max_outstanding_requests := m\<rparr>)" if "wk_running w" for w
    using that assms(3) by (simp add: messageAvailable_def Let_def setMaxOutstanding_def)
  moreover have "msgs (sch_queues s' ! i) = msgs (sch_queues s ! i) @ [?e]"
    using s' assms(6) notification_queue.msgs_put [OF assms(2)] by simp
  moreover have "getMaxOutstandingRequests s' = m" using s' assms(4) by (simp add: getMaxOutstandingRequests_def)
  ultimately show ?thesis by blast
qed

theorem limit_change_not_divided_witness:
  "\<exists>e (w :: (workload_base, sleep_request) worker).
     sch_queues (snd (fb_setMaxOutstanding default_flags list_queue dynamic_value_ops 0 (-7) (TreadmillFB303 (1 :: nat) 0)
       (Scheduler4 default_flags list_queue 1024 2 1000 500))) ! 1 = [e] \<and>
     messageAvailable sleep_env e w = Inr (w\<lparr>wk_max_outstanding_requests := - 7\<rparr>)"
proof -
  let ?s = "Scheduler4 default_flags (list_queue :: (dynamic_value event list, dynamic_value event) queue_ops) 1024 2 1000 500"
  obtain w :: "(workload_base, sleep_request) worker" where w: "wk_running w" using started_worker by blast
  obtain fb' s' where c: "fb_setMaxOutstanding default_flags list_queue dynamic_value_ops 0 (-7) (TreadmillFB303 (1 :: nat) 0) ?s = (fb', s')"
    by fastforce
  have "in_int32 (-7)" "1 < length (sch_queues ?s)" "we_dynamic sleep_env = dynamic_value_ops"
    by (simp_all add: int_range Scheduler4_def sleep_env_def)
  from limit_change_not_divided [OF tagged.folly_dynamic_axioms lq.notification_queue_axioms this(3,1) c this(2)]
  obtain e where "sch_queues s' ! 1 = sch_queues ?s ! 1 @ [e]"
    "messageAvailable sleep_env e w = Inr (w\<lparr>wk_max_outstanding_requests := - 7\<rparr>)"
    using w by blast
  then show ?thesis using c by (auto simp: Scheduler4_def)
qed

end
